(* ===== verification/RM_Prelude.thy ===== *)
theory RM_Prelude
  imports Complex_Main "HOL-Library.Word" "HOL-Library.Monad_Syntax"
begin

text \<open>
  Shared vocabulary of the development: the C types of the resource manager as HOL types, the
  return codes of \<^verbatim>\<open>include/errorcode.h\<close>, C's truncating division, and generic lemmas on lists,
  options and sums that the component theories use.

  \<^item> \<^verbatim>\<open>uint8_t\<close>, \<^verbatim>\<open>uint16_t\<close>, \<^verbatim>\<open>uint32_t\<close>, \<^verbatim>\<open>uint64_t\<close> are machine words, whose arithmetic wraps.
  \<^item> \<^verbatim>\<open>int\<close>, \<^verbatim>\<open>int32_t\<close> and \<^verbatim>\<open>int64_t\<close> quantities are \<^typ>\<open>int\<close>: overflow of a signed integer is
    undefined in C, so the model describes the executions in which it does not happen.
  \<^item> \<^verbatim>\<open>double\<close> is \<^typ>\<open>rat\<close>: the arithmetic is exact, rounding of floating point is not modelled.
  \<^item> a pointer to a heap object is an optional address, \<^term>\<open>None\<close> being \<^verbatim>\<open>NULL\<close>.
\<close>

unbundle bit_operations_syntax

section \<open>C types\<close>

type_synonym uint8 = "8 word"
type_synonym uint16 = "16 word"
type_synonym uint32 = "32 word"
type_synonym uint64 = "64 word"
type_synonym double = rat
type_synonym addr = nat
type_synonym ptr = "addr option"

section \<open>Return codes\<close>

text \<open>The values of \<^verbatim>\<open>enum DRM_ERROR_CODE\<close> that the modelled functions return, together with the
  private codes of the utility modules (\<^verbatim>\<open>UTIL_BBST_*\<close>, \<^verbatim>\<open>UTIL_HASHTABLE_NOKEY\<close>, \<^verbatim>\<open>UTIL_SIMPSTR_NO_MATCH\<close>).\<close>

datatype drm_code =
    FUNC_RETURN_OK
  | FUNC_RETURN_FAIL
  | RESQUEMGR_WRONG_ATTRNAME
  | RESQUEMGR_DUPLICATE_ATTRNAME
  | RESQUEMGR_NO_QUENAME
  | RESQUEMGR_NO_ASSIGNEDQUEUE
  | RESQUEMGR_DUPLICATE_QUEID
  | RESQUEMGR_DUPLICATE_QUENAME
  | RESQUEMGR_IN_USE
  | RESQUEMGR_DUPLICATE_USERID
  | RESQUEMGR_NO_USERID
  | RESQUEMGR_LACK_ATTR
  | RESQUEMGR_WRONG_ATTR
  | RESQUEMGR_WRONG_PARENT_QUEUE
  | RESQUEMGR_WRONG_TARGET_QUEUE
  | RESQUEMGR_INCONSISTENT_RESOURCE_EXP
  | RESQUEMGR_NO_RESOURCE
  | RESQUEMGR_NO_QUE_IN_RATIO
  | RESQUEMGR_NO_RATIO
  | RESQUEMGR_TOO_MANY_FIXED_SEGNUM
  | RESQUEMGR_NO_SESSIONID
  | RESQUEMGR_DEADLOCK_DETECTED
  | RESQUEMGR_NOCLUSTER_TIMEOUT
  | RESQUEMGR_NORESOURCE_TIMEOUT
  | RESOURCEPOOL_INTERNAL_NO_HOST_INDEX
  | RESOURCEPOOL_INTERNAL_DUPLICATE_HOST
  | RESOURCEPOOL_NO_RATIO
  | RESOURCEPOOL_DUPLICATE_RATIO
  | RESOURCEPOOL_UNRESOLVED_HOST
  | CONNTRACK_NO_CONNID
  | CONNTRACK_CONNID_FULL
  | UTIL_SIMPSTRING_WRONG_FORMAT
  | UTIL_SIMPSTR_NO_MATCH
  | UTIL_HASHTABLE_NOKEY
  | UTIL_BBST_DUPLICATE_VALUE
  | UTIL_BBST_NOT_IN_THIS_TREE

section \<open>C arithmetic\<close>

text \<open>Integer division of C truncates towards zero, \<^verbatim>\<open>trunc\<close> of \<^verbatim>\<open>math.h\<close> does so on a double.\<close>

definition c_div :: "int \<Rightarrow> int \<Rightarrow> int" where
  "c_div a b = sgn a * sgn b * (\<bar>a\<bar> div \<bar>b\<bar>)"

definition c_trunc :: "rat \<Rightarrow> int" where
  "c_trunc x = (if 0 \<le> x then \<lfloor>x\<rfloor> else \<lceil>x\<rceil>)"

lemma c_div_nonneg [simp]: "0 \<le> a \<Longrightarrow> 0 \<le> b \<Longrightarrow> c_div a b = a div b"
  by (cases "a = 0"; cases "b = 0") (simp_all add: c_div_def)

lemma c_div_mult_le: "0 \<le> a \<Longrightarrow> 0 < b \<Longrightarrow> c_div a b * b \<le> a"
  by (simp add: minus_mod_eq_div_mult [symmetric])

lemma c_trunc_of_int [simp]: "c_trunc (of_int k) = k"
  by (simp add: c_trunc_def)

lemma c_trunc_nonneg: "0 \<le> x \<Longrightarrow> c_trunc x = \<lfloor>x\<rfloor>"
  by (simp add: c_trunc_def)

lemma c_trunc_le: "0 \<le> x \<Longrightarrow> of_int (c_trunc x) \<le> x"
  by (simp add: c_trunc_def)

section \<open>Runs of a fallible operation\<close>

text \<open>Apply a state-changing operation that may fail to each element of a list, and take \<open>n\<close> results
  from one: the shape of the enqueue and drain loops of the clients of the containers.\<close>

fun fold_opt :: "('s \<Rightarrow> 'a \<Rightarrow> 's option) \<Rightarrow> 's \<Rightarrow> 'a list \<Rightarrow> 's option" where
  "fold_opt f s [] = Some s"
| "fold_opt f s (x # xs) = do { s' \<leftarrow> f s x; fold_opt f s' xs }"

fun take_opt :: "('s \<Rightarrow> ('a \<times> 's) option) \<Rightarrow> nat \<Rightarrow> 's \<Rightarrow> ('a list \<times> 's) option" where
  "take_opt f 0 s = Some ([], s)"
| "take_opt f (Suc n) s = do { (x, s) \<leftarrow> f s; (xs, s) \<leftarrow> take_opt f n s; Some (x # xs, s) }"

section \<open>What an operation ensures when it returns\<close>

definition ensures :: "'a option \<Rightarrow> ('a \<Rightarrow> bool) \<Rightarrow> bool" where
  "ensures r P \<longleftrightarrow> (\<forall>x. r = Some x \<longrightarrow> P x)"

named_theorems wp

lemma ensures_Some [wp]: "P x \<Longrightarrow> ensures (Some x) P"
  by (simp add: ensures_def)

lemma ensures_None [wp]: "ensures None P"
  by (simp add: ensures_def)

lemma ensures_bind [wp]: "(\<And>x. r = Some x \<Longrightarrow> ensures (f x) P) \<Longrightarrow> ensures (r \<bind> f) P"
  by (cases r) (simp_all add: ensures_def)

lemma ensures_if [wp]: "(b \<Longrightarrow> ensures x P) \<Longrightarrow> (\<not> b \<Longrightarrow> ensures y P) \<Longrightarrow> ensures (if b then x else y) P"
  by simp

lemma ensures_let [wp]: "(\<And>x. x = t \<Longrightarrow> ensures (f x) P) \<Longrightarrow> ensures (let x = t in f x) P"
  by simp

lemma ensures_prod [wp]: "(\<And>x y. z = (x, y) \<Longrightarrow> ensures (f x y) P) \<Longrightarrow> ensures (case z of (x, y) \<Rightarrow> f x y) P"
  by (cases z) simp

lemma ensures_option [wp]:
  "(z = None \<Longrightarrow> ensures x P) \<Longrightarrow> (\<And>y. z = Some y \<Longrightarrow> ensures (f y) P) \<Longrightarrow> ensures (case z of None \<Rightarrow> x | Some y \<Rightarrow> f y) P"
  by (cases z) simp_all

lemma ensures_list [wp]:
  "(z = [] \<Longrightarrow> ensures x P) \<Longrightarrow> (\<And>y ys. z = y # ys \<Longrightarrow> ensures (f y ys) P) \<Longrightarrow> ensures (case z of [] \<Rightarrow> x | y # ys \<Rightarrow> f y ys) P"
  by (cases z) simp_all

lemma ensuresD: "ensures r P \<Longrightarrow> r = Some x \<Longrightarrow> P x"
  by (simp add: ensures_def)

text \<open>A step that is known to ensure something.\<close>

lemma ensures_then: "ensures r Q \<Longrightarrow> (\<And>x. Q x \<Longrightarrow> ensures (f x) P) \<Longrightarrow> ensures (r \<bind> f) P"
  by (cases r) (simp_all add: ensures_def)

lemma ensures_weaken: "ensures r Q \<Longrightarrow> (\<And>x. Q x \<Longrightarrow> P x) \<Longrightarrow> ensures r P"
  by (simp add: ensures_def)

lemma ensures_fold:
  "I s \<Longrightarrow> (\<And>s x. x \<in> set xs \<Longrightarrow> I s \<Longrightarrow> ensures (f s x) I) \<Longrightarrow> ensures (fold_opt f s xs) I"
proof (induction xs arbitrary: s)
  case (Cons x xs)
  show ?case
    by (simp, rule ensures_then [OF Cons.prems(2) [OF _ Cons.prems(1)]], simp) (rule Cons.IH, use Cons.prems(2) in auto)
qed (simp add: ensures_def)

end
