(* ===== verification/RM_DQueue.thy ===== *)
theory RM_DQueue
  imports RM_Prelude
begin

text \<open>
  The doubly linked queue of \<^verbatim>\<open>utils/linkedlist.c\<close> and its lock-protected wrapper
  \<^verbatim>\<open>DSafeQueue\<close>, on an explicit heap of nodes: a node is updated through pointers, a removed node
  is chained into the queue's free list and reused by the next insertion.  Every operation returns
  an option; a \<^verbatim>\<open>void *\<close> datum is an option too, \<^term>\<open>None\<close> being \<^verbatim>\<open>NULL\<close>.  As a result, \<^term>\<open>None\<close> is a dereference of \<^verbatim>\<open>NULL\<close> or of freed memory (or, for the two
  traversal loops, a traversal that does not end).  The predicate \<open>dq_rep\<close> says that a heap and a
  queue header represent a list of nodes and a free list; the lemmas show that the operations
  implement the list operations on the represented sequence and never dereference a bad pointer.
\<close>

section \<open>Nodes, headers and the heap\<close>

record 'a DQueueNode =
  dqn_Data :: "'a option"
  dqn_Next :: ptr
  dqn_Prev :: ptr

record DQueue =
  dq_Context :: ptr
  dq_Head :: ptr
  dq_Tail :: ptr
  dq_Free :: ptr
  dq_NodeCount :: int

record 'a dheap =
  cells :: "addr \<rightharpoonup> 'a DQueueNode"
  brk :: addr

definition dload :: "'a dheap \<Rightarrow> ptr \<Rightarrow> 'a DQueueNode option" where
  "dload h p = (case p of None \<Rightarrow> None | Some a \<Rightarrow> cells h a)"

definition dstore :: "'a dheap \<Rightarrow> ptr \<Rightarrow> ('a DQueueNode \<Rightarrow> 'a DQueueNode) \<Rightarrow> 'a dheap option" where
  "dstore h p f = (case p of None \<Rightarrow> None
     | Some a \<Rightarrow> (case cells h a of None \<Rightarrow> None
        | Some n \<Rightarrow> Some (h\<lparr>cells := (cells h)(a \<mapsto> f n)\<rparr>)))"

text \<open>\<^verbatim>\<open>rm_palloc0\<close> of a node: a fresh address holding a zeroed node; \<^verbatim>\<open>rm_pfree\<close> of one.\<close>

definition alloc_node :: "'a dheap \<Rightarrow> ptr \<times> 'a dheap" where
  "alloc_node h =
     (Some (brk h),
      h\<lparr>cells := (cells h)(brk h \<mapsto> \<lparr>dqn_Data = None, dqn_Next = None, dqn_Prev = None\<rparr>),
        brk := Suc (brk h)\<rparr>)"

definition free_node :: "'a dheap \<Rightarrow> ptr \<Rightarrow> 'a dheap option" where
  "free_node h p = (case p of None \<Rightarrow> None
     | Some a \<Rightarrow> (case cells h a of None \<Rightarrow> None
        | Some n \<Rightarrow> Some (h\<lparr>cells := (cells h)(a := None)\<rparr>)))"

section \<open>Operations\<close>

definition initializeDQueue :: "ptr \<Rightarrow> DQueue" where
  "initializeDQueue context =
     \<lparr>dq_Context = context, dq_Head = None, dq_Tail = None, dq_Free = None, dq_NodeCount = 0\<rparr>"

text \<open>\<^verbatim>\<open>createDQueue\<close> also allocates the header, which is a value of the model; so \<^verbatim>\<open>freeDQueue\<close> is the
  heap after the free list is released, the header being gone.\<close>

definition createDQueue :: "ptr \<Rightarrow> DQueue" where
  "createDQueue context = initializeDQueue context"

definition isDQueueInitialized :: "DQueue \<Rightarrow> bool" where
  "isDQueueInitialized q \<longleftrightarrow> dq_Context q \<noteq> None"

partial_function (option) cleanDQueue :: "'a dheap \<Rightarrow> DQueue \<Rightarrow> ('a dheap \<times> DQueue) option" where
  "cleanDQueue h q =
     (if dq_Free q = None then Some (h, q)
      else do {
        n \<leftarrow> dload h (dq_Free q);
        h \<leftarrow> free_node h (dq_Free q);
        cleanDQueue h (q\<lparr>dq_Free := dqn_Next n\<rparr>)
      })"

definition freeDQueue :: "'a dheap \<Rightarrow> DQueue \<Rightarrow> 'a dheap option" where
  "freeDQueue h q = do { (h, q) \<leftarrow> cleanDQueue h q; Some h }"

definition getDQueueHeadNodeData :: "'a dheap \<Rightarrow> DQueue \<Rightarrow> 'a option option" where
  "getDQueueHeadNodeData h q =
     (if dq_NodeCount q > 0
      then do { n \<leftarrow> dload h (dq_Head q); Some (dqn_Data n) }
      else Some None)"

text \<open>\<^verbatim>\<open>for (i = 0; i < index; ++i) p = p->Next;\<close> from the head.\<close>

fun walkNext :: "'a dheap \<Rightarrow> ptr \<Rightarrow> nat \<Rightarrow> ptr option" where
  "walkNext h p 0 = Some p"
| "walkNext h p (Suc i) = do { n \<leftarrow> dload h p; walkNext h (dqn_Next n) i }"

definition getDQueueNodeByIndex :: "'a dheap \<Rightarrow> DQueue \<Rightarrow> int \<Rightarrow> ptr option" where
  "getDQueueNodeByIndex h q index = walkNext h (dq_Head q) (nat index)"

definition getDQueueNodeDataByIndex :: "'a dheap \<Rightarrow> DQueue \<Rightarrow> int \<Rightarrow> 'a option option" where
  "getDQueueNodeDataByIndex h q index =
     do { p \<leftarrow> walkNext h (dq_Head q) (nat index); n \<leftarrow> dload h p; Some (dqn_Data n) }"

text \<open>The first half of both insertions: take the new node from the free list, else allocate it.\<close>

definition reuseOrAllocNode :: "'a dheap \<Rightarrow> DQueue \<Rightarrow> (ptr \<times> 'a dheap \<times> DQueue) option" where
  "reuseOrAllocNode h q =
     (if dq_Free q \<noteq> None
      then do {
        n \<leftarrow> dload h (dq_Free q);
        h \<leftarrow> dstore h (dq_Free q) (\<lambda>n. n\<lparr>dqn_Next := None, dqn_Prev := None\<rparr>);
        Some (dq_Free q, h, q\<lparr>dq_Free := dqn_Next n\<rparr>)
      }
      else (case alloc_node h of (newnode, h) \<Rightarrow> Some (newnode, h, q)))"

definition insertDQueueHeadNode :: "'a dheap \<Rightarrow> DQueue \<Rightarrow> 'a option \<Rightarrow> ('a dheap \<times> DQueue) option" where
  "insertDQueueHeadNode h q data = do {
     (newnode, h, q) \<leftarrow> reuseOrAllocNode h q;
     h \<leftarrow> dstore h newnode (\<lambda>n. n\<lparr>dqn_Data := data\<rparr>);
     (h, q) \<leftarrow> (if dq_NodeCount q > 0
        then do {
          h \<leftarrow> dstore h newnode (\<lambda>n. n\<lparr>dqn_Next := dq_Head q\<rparr>);
          h \<leftarrow> dstore h (dq_Head q) (\<lambda>n. n\<lparr>dqn_Prev := newnode\<rparr>);
          Some (h, q)
        }
        else Some (h, q\<lparr>dq_Tail := newnode\<rparr>));
     Some (h, q\<lparr>dq_Head := newnode, dq_NodeCount := dq_NodeCount q + 1\<rparr>)
   }"

definition insertDQueueTailNode :: "'a dheap \<Rightarrow> DQueue \<Rightarrow> 'a option \<Rightarrow> ('a dheap \<times> DQueue) option" where
  "insertDQueueTailNode h q data = do {
     (newnode, h, q) \<leftarrow> reuseOrAllocNode h q;
     h \<leftarrow> dstore h newnode (\<lambda>n. n\<lparr>dqn_Data := data\<rparr>);
     (h, q) \<leftarrow> (if dq_NodeCount q > 0
        then do {
          h \<leftarrow> dstore h (dq_Tail q) (\<lambda>n. n\<lparr>dqn_Next := newnode\<rparr>);
          h \<leftarrow> dstore h newnode (\<lambda>n. n\<lparr>dqn_Prev := dq_Tail q\<rparr>);
          Some (h, q)
        }
        else Some (h, q\<lparr>dq_Head := newnode\<rparr>));
     Some (h, q\<lparr>dq_Tail := newnode, dq_NodeCount := dq_NodeCount q + 1\<rparr>)
   }"

definition removeDQueueNode ::
    "'a dheap \<Rightarrow> DQueue \<Rightarrow> ptr \<Rightarrow> ('a option \<times> 'a dheap \<times> DQueue) option" where
  "removeDQueueNode h q node = do {
     n \<leftarrow> dload h node;
     q \<leftarrow> Some (q\<lparr>dq_NodeCount := dq_NodeCount q - 1\<rparr>);
     (h, q) \<leftarrow> (if dqn_Prev n \<noteq> None \<and> dqn_Next n \<noteq> None
        then do {
          h \<leftarrow> dstore h (dqn_Prev n) (\<lambda>m. m\<lparr>dqn_Next := dqn_Next n\<rparr>);
          h \<leftarrow> dstore h (dqn_Next n) (\<lambda>m. m\<lparr>dqn_Prev := dqn_Prev n\<rparr>);
          h \<leftarrow> dstore h node (\<lambda>m. m\<lparr>dqn_Next := None, dqn_Prev := None\<rparr>);
          Some (h, q)
        }
        else if dqn_Prev n \<noteq> None
        then do {
          h \<leftarrow> dstore h (dqn_Prev n) (\<lambda>m. m\<lparr>dqn_Next := None\<rparr>);
          h \<leftarrow> dstore h node (\<lambda>m. m\<lparr>dqn_Prev := None\<rparr>);
          Some (h, q\<lparr>dq_Tail := dqn_Prev n\<rparr>)
        }
        else if dqn_Next n \<noteq> None
        then do {
          h \<leftarrow> dstore h (dqn_Next n) (\<lambda>m. m\<lparr>dqn_Prev := None\<rparr>);
          h \<leftarrow> dstore h node (\<lambda>m. m\<lparr>dqn_Next := None\<rparr>);
          Some (h, q\<lparr>dq_Head := dqn_Next n\<rparr>)
        }
        else Some (h, q\<lparr>dq_Head := None, dq_Tail := None\<rparr>));
     h \<leftarrow> dstore h node (\<lambda>m. m\<lparr>dqn_Next := dq_Free q, dqn_Data := None\<rparr>);
     Some (dqn_Data n, h, q\<lparr>dq_Free := node\<rparr>)
   }"

definition removeDQueueHeadNode ::
    "'a dheap \<Rightarrow> DQueue \<Rightarrow> ('a option \<times> 'a dheap \<times> DQueue) option" where
  "removeDQueueHeadNode h q =
     (if dq_NodeCount q = 0 then Some (None, h, q) else removeDQueueNode h q (dq_Head q))"

definition removeDQueueTailNode ::
    "'a dheap \<Rightarrow> DQueue \<Rightarrow> ('a option \<times> 'a dheap \<times> DQueue) option" where
  "removeDQueueTailNode h q =
     (if dq_NodeCount q = 0 then Some (None, h, q) else removeDQueueNode h q (dq_Tail q))"

partial_function (option) moveAllToFree ::
    "'a dheap \<Rightarrow> DQueue \<Rightarrow> ptr \<Rightarrow> ('a dheap \<times> DQueue) option" where
  "moveAllToFree h q p =
     (if p = None then Some (h, q)
      else do {
        n \<leftarrow> dload h p;
        h \<leftarrow> dstore h p (\<lambda>m. m\<lparr>dqn_Data := None, dqn_Prev := None, dqn_Next := dq_Free q\<rparr>);
        moveAllToFree h (q\<lparr>dq_Free := p\<rparr>) (dqn_Next n)
      })"

definition removeAllDQueueNodes :: "'a dheap \<Rightarrow> DQueue \<Rightarrow> ('a dheap \<times> DQueue) option" where
  "removeAllDQueueNodes h q =
     (if dq_NodeCount q = 0 then Some (h, q)
      else do {
        (h, q) \<leftarrow> moveAllToFree h q (dq_Head q);
        Some (h, q\<lparr>dq_NodeCount := 0, dq_Head := None, dq_Tail := None\<rparr>)
      })"

definition swapDQueues :: "DQueue \<Rightarrow> DQueue \<Rightarrow> DQueue \<times> DQueue" where
  "swapDQueues list1 list2 =
     (list1\<lparr>dq_Context := dq_Context list2, dq_Free := dq_Free list2, dq_Head := dq_Head list2,
            dq_Tail := dq_Tail list2, dq_NodeCount := dq_NodeCount list2\<rparr>,
      list2\<lparr>dq_Context := dq_Context list1, dq_Free := dq_Free list1, dq_Head := dq_Head list1,
            dq_Tail := dq_Tail list1, dq_NodeCount := dq_NodeCount list1\<rparr>)"

section \<open>The lock-protected queue\<close>

text \<open>Each operation runs between \<^verbatim>\<open>pthread_mutex_lock\<close> and \<^verbatim>\<open>pthread_mutex_unlock\<close>, so it is one
  step of the model; \<^verbatim>\<open>QueueLength\<close> is the copy of the count that readers see without the lock.\<close>

record DSafeQueue =
  dsq_Queue :: DQueue
  dsq_QueueLength :: int

definition initializeDSafeQueue :: "DSafeQueue \<Rightarrow> ptr \<Rightarrow> DSafeQueue" where
  "initializeDSafeQueue l context = l\<lparr>dsq_Queue := initializeDQueue context\<rparr>"

definition createDSafeQueue :: "ptr \<Rightarrow> DSafeQueue" where
  "createDSafeQueue context =
     initializeDSafeQueue
       \<lparr>dsq_Queue = \<lparr>dq_Context = None, dq_Head = None, dq_Tail = None, dq_Free = None, dq_NodeCount = 0\<rparr>,
        dsq_QueueLength = 0\<rparr> context"

definition freeDSafeQueue :: "'a dheap \<Rightarrow> DSafeQueue \<Rightarrow> 'a dheap option" where
  "freeDSafeQueue h l = freeDQueue h (dsq_Queue l)"

definition cleanDSafeQueue :: "'a dheap \<Rightarrow> DSafeQueue \<Rightarrow> ('a dheap \<times> DSafeQueue) option" where
  "cleanDSafeQueue h l = do { (h, q) \<leftarrow> cleanDQueue h (dsq_Queue l); Some (h, l\<lparr>dsq_Queue := q\<rparr>) }"

definition insertDSafeQueueHeadNode ::
    "'a dheap \<Rightarrow> DSafeQueue \<Rightarrow> 'a option \<Rightarrow> ('a dheap \<times> DSafeQueue) option" where
  "insertDSafeQueueHeadNode h l data = do {
     (h, q) \<leftarrow> insertDQueueHeadNode h (dsq_Queue l) data;
     Some (h, l\<lparr>dsq_Queue := q, dsq_QueueLength := dq_NodeCount q\<rparr>) }"

definition insertDSafeQueueTailNode ::
    "'a dheap \<Rightarrow> DSafeQueue \<Rightarrow> 'a option \<Rightarrow> ('a dheap \<times> DSafeQueue) option" where
  "insertDSafeQueueTailNode h l data = do {
     (h, q) \<leftarrow> insertDQueueTailNode h (dsq_Queue l) data;
     Some (h, l\<lparr>dsq_Queue := q, dsq_QueueLength := dq_NodeCount q\<rparr>) }"

definition removeDSafeQueueHeadNode ::
    "'a dheap \<Rightarrow> DSafeQueue \<Rightarrow> ('a option \<times> 'a dheap \<times> DSafeQueue) option" where
  "removeDSafeQueueHeadNode h l = do {
     (res, h, q) \<leftarrow> removeDQueueHeadNode h (dsq_Queue l);
     Some (res, h, l\<lparr>dsq_Queue := q, dsq_QueueLength := dq_NodeCount q\<rparr>) }"

text \<open>One round of the loop of \<^verbatim>\<open>moveDQueueNodeOut\<close>: the data is removed from the source, the node
  just freed is handed over to the free list of the target, and the data is inserted there.\<close>

definition moveOneOut ::
    "'a dheap \<Rightarrow> DQueue \<Rightarrow> DQueue \<Rightarrow> bool \<Rightarrow> ('a dheap \<times> DQueue \<times> DQueue) option" where
  "moveOneOut h l target fromhead = do {
     (data, h, l) \<leftarrow> removeDQueueNode h l (if fromhead then dq_Head l else dq_Tail l);
     n \<leftarrow> dload h (dq_Free l);
     node \<leftarrow> Some (dq_Free l);
     l \<leftarrow> Some (l\<lparr>dq_Free := dqn_Next n\<rparr>);
     h \<leftarrow> dstore h node (\<lambda>m. m\<lparr>dqn_Prev := None, dqn_Data := None, dqn_Next := dq_Free target\<rparr>);
     target \<leftarrow> Some (target\<lparr>dq_Free := node\<rparr>);
     (h, target) \<leftarrow> (if fromhead then insertDQueueTailNode h target data
                      else insertDQueueHeadNode h target data);
     Some (h, l, target)
   }"

fun moveOutLoop ::
    "'a dheap \<Rightarrow> DQueue \<Rightarrow> DQueue \<Rightarrow> bool \<Rightarrow> nat \<Rightarrow> ('a dheap \<times> DQueue \<times> DQueue) option" where
  "moveOutLoop h l target fromhead 0 = Some (h, l, target)"
| "moveOutLoop h l target fromhead (Suc n) =
     (if dq_NodeCount l > 0
      then do {
        (h, l, target) \<leftarrow> moveOneOut h l target fromhead;
        moveOutLoop h l target fromhead n
      }
      else Some (h, l, target))"

definition moveDQueueNodeOut ::
    "'a dheap \<Rightarrow> DSafeQueue \<Rightarrow> DQueue \<Rightarrow> int \<Rightarrow> bool \<Rightarrow> ('a dheap \<times> DSafeQueue \<times> DQueue) option" where
  "moveDQueueNodeOut h l target mx fromhead = do {
     (h, q, target) \<leftarrow> moveOutLoop h (dsq_Queue l) target fromhead (nat mx);
     Some (h, l\<lparr>dsq_Queue := q, dsq_QueueLength := dq_NodeCount q\<rparr>, target)
   }"


section \<open>Representation\<close>

text \<open>A segment of the list, as the addresses and data of its nodes in order; \<open>hdp\<close> and \<open>lastp\<close> are
  the pointers to its first and last node.\<close>

type_synonym 'a seg = "(addr \<times> 'a option) list"

fun hdp :: "'a seg \<Rightarrow> ptr \<Rightarrow> ptr" where
  "hdp [] nx = nx"
| "hdp (x # xs) nx = Some (fst x)"

definition lastp :: "ptr \<Rightarrow> 'a seg \<Rightarrow> ptr" where
  "lastp pv xs = (if xs = [] then pv else Some (fst (last xs)))"

fun dll :: "(addr \<rightharpoonup> 'a DQueueNode) \<Rightarrow> ptr \<Rightarrow> 'a seg \<Rightarrow> ptr \<Rightarrow> bool" where
  "dll m pv [] nx = True"
| "dll m pv (x # xs) nx =
     (m (fst x) = Some \<lparr>dqn_Data = snd x, dqn_Next = hdp xs nx, dqn_Prev = pv\<rparr> \<and>
      dll m (Some (fst x)) xs nx)"

fun fchain :: "(addr \<rightharpoonup> 'a DQueueNode) \<Rightarrow> ptr \<Rightarrow> addr list \<Rightarrow> bool" where
  "fchain m p [] = (p = None)"
| "fchain m p (a # as) = (p = Some a \<and> (\<exists>n. m a = Some n \<and> fchain m (dqn_Next n) as))"

definition dq_rep :: "'a dheap \<Rightarrow> DQueue \<Rightarrow> 'a seg \<Rightarrow> addr list \<Rightarrow> bool" where
  "dq_rep h q xs fs \<longleftrightarrow>
     dll (cells h) None xs None \<and> fchain (cells h) (dq_Free q) fs \<and>
     dq_Head q = hdp xs None \<and> dq_Tail q = lastp None xs \<and>
     dq_NodeCount q = int (length xs) \<and>
     distinct (map fst xs @ fs) \<and> (\<forall>x \<in> set xs. fst x < brk h) \<and> (\<forall>a \<in> set fs. a < brk h)"

text \<open>The nodes a queue owns, and that an operation left every other cell alone.\<close>

definition footprint :: "'a seg \<Rightarrow> addr list \<Rightarrow> addr set" where
  "footprint xs fs = fst ` set xs \<union> set fs"

definition same_outside :: "addr set \<Rightarrow> 'a dheap \<Rightarrow> 'a dheap \<Rightarrow> bool" where
  "same_outside S h h' \<longleftrightarrow> brk h \<le> brk h' \<and> (\<forall>a. a < brk h \<and> a \<notin> S \<longrightarrow> cells h' a = cells h a)"

section \<open>Segment lemmas\<close>

lemma lastp_Nil [simp]: "lastp pv [] = pv"
  by (simp add: lastp_def)

lemma lastp_Cons [simp]: "lastp pv (x # xs) = lastp (Some (fst x)) xs"
  by (simp add: lastp_def)

lemma lastp_append [simp]: "lastp pv (xs @ ys) = lastp (lastp pv xs) ys"
  by (simp add: lastp_def)

lemma hdp_append [simp]: "hdp (xs @ ys) nx = hdp xs (hdp ys nx)"
  by (cases xs) auto

lemma dll_append [simp]:
  "dll m pv (xs @ ys) nx \<longleftrightarrow> dll m pv xs (hdp ys nx) \<and> dll m (lastp pv xs) ys nx"
  by (induction xs arbitrary: pv) auto

lemma dll_cong:
  "(\<And>a. a \<in> fst ` set xs \<Longrightarrow> m' a = m a) \<Longrightarrow> dll m' pv xs nx = dll m pv xs nx"
  by (induction xs arbitrary: pv) auto

lemma dll_upd [simp]: "a \<notin> fst ` set xs \<Longrightarrow> dll (m(a := v)) pv xs nx = dll m pv xs nx"
  by (rule dll_cong) auto

lemma fchain_cong: "(\<And>a. a \<in> set fs \<Longrightarrow> m' a = m a) \<Longrightarrow> fchain m' p fs = fchain m p fs"
  by (induction fs arbitrary: p) auto

lemma fchain_upd [simp]: "a \<notin> set fs \<Longrightarrow> fchain (m(a := v)) p fs = fchain m p fs"
  by (rule fchain_cong) auto

lemma fchain_None [simp]: "fchain m None fs \<longleftrightarrow> fs = []"
  by (cases fs) auto

lemma fchain_Some:
  "fchain m (Some a) fs \<longleftrightarrow> (\<exists>n as. fs = a # as \<and> m a = Some n \<and> fchain m (dqn_Next n) as)"
  by (cases fs) auto

lemmas heap_simps = dload_def dstore_def alloc_node_def free_node_def

lemma dq_rep_frame:
  assumes "dq_rep h q xs fs" and "same_outside S h h'" and "S \<inter> footprint xs fs = {}"
  shows "dq_rep h' q xs fs"
proof -
  have eq: "cells h' a = cells h a" if "a \<in> footprint xs fs" for a
  proof -
    have "a < brk h" "a \<notin> S"
      using assms that by (auto simp: dq_rep_def footprint_def)
    then show ?thesis
      using assms by (simp add: same_outside_def)
  qed
  then have "dll (cells h') None xs None = dll (cells h) None xs None"
    and "fchain (cells h') (dq_Free q) fs = fchain (cells h) (dq_Free q) fs"
    by (auto simp: footprint_def intro!: dll_cong fchain_cong)
  moreover have "\<forall>x \<in> set xs. fst x < brk h'" "\<forall>a \<in> set fs. a < brk h'"
    using assms unfolding dq_rep_def same_outside_def by (meson less_le_trans)+
  ultimately show ?thesis
    using assms(1) by (simp add: dq_rep_def)
qed

section \<open>The operations implement list operations\<close>

lemma initialize_rep: "dq_rep h (initializeDQueue c) [] []"
  by (simp add: dq_rep_def initializeDQueue_def)

lemma reuseOrAlloc_spec:
  assumes "dq_rep h q xs fs"
  obtains a h' q' fs' where
    "reuseOrAllocNode h q = Some (Some a, h', q')" "dq_rep h' q' xs fs'"
    "\<exists>d. cells h' a = Some \<lparr>dqn_Data = d, dqn_Next = None, dqn_Prev = None\<rparr>"
    "a \<notin> fst ` set xs" "a \<notin> set fs'" "a < brk h'" "set fs' \<subseteq> set fs"
    "a \<in> set fs \<or> a = brk h" "same_outside (footprint xs fs) h h'"
proof (cases fs)
  case Nil
  have fresh: "brk h \<notin> fst ` set xs"
    using assms by (auto simp: dq_rep_def)
  let ?h = "snd (alloc_node h)"
  have 1: "reuseOrAllocNode h q = Some (Some (brk h), ?h, q)"
    using assms Nil by (simp add: reuseOrAllocNode_def dq_rep_def heap_simps)
  have 2: "dq_rep ?h q xs []"
    using assms Nil fresh by (simp add: dq_rep_def heap_simps less_Suc_eq)
  have 3: "same_outside (footprint xs fs) h ?h"
    by (simp add: same_outside_def heap_simps)
  show ?thesis
    by (rule that [OF 1 2 _ _ _ _ _ _ 3]) (use fresh in \<open>simp_all add: heap_simps\<close>)
next
  case (Cons a as)
  from assms Cons obtain d nx pv where
    n: "cells h a = Some \<lparr>dqn_Data = d, dqn_Next = nx, dqn_Prev = pv\<rparr>" "dq_Free q = Some a"
    and tl: "fchain (cells h) nx as"
    by (auto simp: dq_rep_def) (metis DQueueNode.cases DQueueNode.select_convs(2))
  have xs: "a \<notin> fst ` set xs" "a \<notin> set as" "a < brk h"
    using assms Cons by (auto simp: dq_rep_def)
  let ?h = "h\<lparr>cells := (cells h)(a \<mapsto> \<lparr>dqn_Data = d, dqn_Next = None, dqn_Prev = None\<rparr>)\<rparr>"
  have 1: "reuseOrAllocNode h q = Some (Some a, ?h, q\<lparr>dq_Free := nx\<rparr>)"
    by (simp add: reuseOrAllocNode_def heap_simps n)
  have 2: "dq_rep ?h (q\<lparr>dq_Free := nx\<rparr>) xs as"
    using assms Cons xs tl by (simp add: dq_rep_def)
  have 3: "same_outside (footprint xs fs) h ?h"
    using Cons by (simp add: same_outside_def footprint_def)
  show ?thesis
    by (rule that [OF 1 2 _ _ _ _ _ _ 3]) (use Cons xs in \<open>auto\<close>)
qed

text \<open>What every operation that inserts keeps of the rest of the heap: the new nodes come from the
  queue's own free list or are fresh.\<close>

definition grows :: "'a dheap \<Rightarrow> 'a seg \<Rightarrow> addr list \<Rightarrow> 'a dheap \<Rightarrow> 'a seg \<Rightarrow> addr list \<Rightarrow> bool" where
  "grows h xs fs h' xs' fs' \<longleftrightarrow>
     same_outside (footprint xs fs) h h' \<and> footprint xs' fs' \<subseteq> footprint xs fs \<union> {brk h..}"

lemma insertHead_rep:
  assumes "dq_rep h q xs fs"
  obtains a h' q' fs' where "insertDQueueHeadNode h q d = Some (h', q')"
    "dq_rep h' q' ((a, d) # xs) fs'" "grows h xs fs h' ((a, d) # xs) fs'"
proof -
  from assms obtain a h1 q1 fs' d0 where
    1: "reuseOrAllocNode h q = Some (Some a, h1, q1)" and 2: "dq_rep h1 q1 xs fs'"
    and a: "cells h1 a = Some \<lparr>dqn_Data = d0, dqn_Next = None, dqn_Prev = None\<rparr>"
      "a \<notin> fst ` set xs" "a \<notin> set fs'" "a < brk h1" "set fs' \<subseteq> set fs" "a \<in> set fs \<or> a = brk h"
    and 3: "same_outside (footprint xs fs) h h1"
    by (blast elim: reuseOrAlloc_spec)
  have g: "footprint ((a, d) # xs) fs' \<subseteq> footprint xs fs \<union> {brk h..}"
    using a by (auto simp: footprint_def)
  show ?thesis
  proof (cases xs)
    case Nil
    let ?h = "h1\<lparr>cells := (cells h1)(a \<mapsto> \<lparr>dqn_Data = d, dqn_Next = None, dqn_Prev = None\<rparr>)\<rparr>"
    let ?q = "q1\<lparr>dq_Tail := Some a, dq_Head := Some a, dq_NodeCount := dq_NodeCount q1 + 1\<rparr>"
    have "insertDQueueHeadNode h q d = Some (?h, ?q)"
      using 2 Nil by (simp add: insertDQueueHeadNode_def 1 heap_simps a dq_rep_def)
    moreover have "dq_rep ?h ?q ((a, d) # xs) fs'"
      using 2 Nil a by (simp add: dq_rep_def)
    moreover have "grows h xs fs ?h ((a, d) # xs) fs'"
      using 3 g a by (auto simp: grows_def same_outside_def footprint_def)
    ultimately show ?thesis by (rule that)
  next
    case (Cons x ys)
    let ?h = "h1\<lparr>cells := (cells h1)
        (a \<mapsto> \<lparr>dqn_Data = d, dqn_Next = Some (fst x), dqn_Prev = None\<rparr>,
         fst x \<mapsto> \<lparr>dqn_Data = snd x, dqn_Next = hdp ys None, dqn_Prev = Some a\<rparr>)\<rparr>"
    let ?q = "q1\<lparr>dq_Head := Some a, dq_NodeCount := dq_NodeCount q1 + 1\<rparr>"
    have "insertDQueueHeadNode h q d = Some (?h, ?q)"
      using 2 Cons a by (simp add: insertDQueueHeadNode_def 1 heap_simps a dq_rep_def)
    moreover have "dq_rep ?h ?q ((a, d) # xs) fs'"
      using 2 Cons a by (auto simp: dq_rep_def)
    moreover have "grows h xs fs ?h ((a, d) # xs) fs'"
      using 3 g a Cons by (auto simp: grows_def same_outside_def footprint_def)
    ultimately show ?thesis by (rule that)
  qed
qed

lemma insertTail_rep:
  assumes "dq_rep h q xs fs"
  obtains a h' q' fs' where "insertDQueueTailNode h q d = Some (h', q')"
    "dq_rep h' q' (xs @ [(a, d)]) fs'" "grows h xs fs h' (xs @ [(a, d)]) fs'"
proof -
  from assms obtain a h1 q1 fs' d0 where
    1: "reuseOrAllocNode h q = Some (Some a, h1, q1)" and 2: "dq_rep h1 q1 xs fs'"
    and a: "cells h1 a = Some \<lparr>dqn_Data = d0, dqn_Next = None, dqn_Prev = None\<rparr>"
      "a \<notin> fst ` set xs" "a \<notin> set fs'" "a < brk h1" "set fs' \<subseteq> set fs" "a \<in> set fs \<or> a = brk h"
    and 3: "same_outside (footprint xs fs) h h1"
    by (blast elim: reuseOrAlloc_spec)
  have g: "footprint (xs @ [(a, d)]) fs' \<subseteq> footprint xs fs \<union> {brk h..}"
    using a by (auto simp: footprint_def)
  show ?thesis
  proof (cases xs rule: rev_cases)
    case Nil
    let ?h = "h1\<lparr>cells := (cells h1)(a \<mapsto> \<lparr>dqn_Data = d, dqn_Next = None, dqn_Prev = None\<rparr>)\<rparr>"
    let ?q = "q1\<lparr>dq_Head := Some a, dq_Tail := Some a, dq_NodeCount := dq_NodeCount q1 + 1\<rparr>"
    have "insertDQueueTailNode h q d = Some (?h, ?q)"
      using 2 Nil by (simp add: insertDQueueTailNode_def 1 heap_simps a dq_rep_def)
    moreover have "dq_rep ?h ?q (xs @ [(a, d)]) fs'"
      using 2 Nil a by (simp add: dq_rep_def)
    moreover have "grows h xs fs ?h (xs @ [(a, d)]) fs'"
      using 3 g a by (auto simp: grows_def same_outside_def footprint_def)
    ultimately show ?thesis by (rule that)
  next
    case (snoc ys x)
    let ?h = "h1\<lparr>cells := (cells h1)
        (fst x \<mapsto> \<lparr>dqn_Data = snd x, dqn_Next = Some a, dqn_Prev = lastp None ys\<rparr>,
         a \<mapsto> \<lparr>dqn_Data = d, dqn_Next = None, dqn_Prev = Some (fst x)\<rparr>)\<rparr>"
    let ?q = "q1\<lparr>dq_Tail := Some a, dq_NodeCount := dq_NodeCount q1 + 1\<rparr>"
    have "insertDQueueTailNode h q d = Some (?h, ?q)"
      using 2 snoc a by (simp add: insertDQueueTailNode_def 1 heap_simps a dq_rep_def)
    moreover have "dq_rep ?h ?q (xs @ [(a, d)]) fs'"
      using 2 snoc a by (auto simp: dq_rep_def)
    moreover have "grows h xs fs ?h (xs @ [(a, d)]) fs'"
      using 3 g a snoc by (auto simp: grows_def same_outside_def footprint_def)
    ultimately show ?thesis by (rule that)
  qed
qed

definition shrinks :: "'a dheap \<Rightarrow> 'a seg \<Rightarrow> addr list \<Rightarrow> 'a dheap \<Rightarrow> 'a seg \<Rightarrow> addr list \<Rightarrow> bool" where
  "shrinks h xs fs h' xs' fs' \<longleftrightarrow>
     same_outside (footprint xs fs) h h' \<and> footprint xs' fs' \<subseteq> footprint xs fs \<and> brk h' = brk h"

lemma removeNode_rep:
  assumes "dq_rep h q (xs @ (a, d) # ys) fs"
  obtains h' q' where "removeDQueueNode h q (Some a) = Some (d, h', q')"
    "dq_rep h' q' (xs @ ys) (a # fs)" "shrinks h (xs @ (a, d) # ys) fs h' (xs @ ys) (a # fs)"
proof (cases xs rule: rev_cases)
  case Nil
  show ?thesis
  proof (cases ys)
    case Nil
    show ?thesis
      by (rule that) (use assms \<open>xs = []\<close> Nil in \<open>auto simp: removeDQueueNode_def heap_simps
          dq_rep_def shrinks_def same_outside_def footprint_def\<close>)
  next
    case (Cons y zs)
    show ?thesis
      by (rule that) (use assms \<open>xs = []\<close> Cons in \<open>auto simp: removeDQueueNode_def heap_simps
          dq_rep_def shrinks_def same_outside_def footprint_def\<close>)
  qed
next
  case (snoc us u)
  show ?thesis
  proof (cases ys)
    case Nil
    show ?thesis
      by (rule that) (use assms snoc Nil in \<open>auto simp: removeDQueueNode_def heap_simps
          dq_rep_def shrinks_def same_outside_def footprint_def\<close>)
  next
    case (Cons y zs)
    let ?h = "h\<lparr>cells := (cells h)
        (fst u \<mapsto> \<lparr>dqn_Data = snd u, dqn_Next = Some (fst y), dqn_Prev = lastp None us\<rparr>,
         fst y \<mapsto> \<lparr>dqn_Data = snd y, dqn_Next = hdp zs None, dqn_Prev = Some (fst u)\<rparr>,
         a \<mapsto> \<lparr>dqn_Data = None, dqn_Next = dq_Free q, dqn_Prev = None\<rparr>)\<rparr>"
    let ?q = "q\<lparr>dq_NodeCount := dq_NodeCount q - 1, dq_Free := Some a\<rparr>"
    have ne: "fst u \<noteq> a" "fst u \<noteq> fst y" "a \<noteq> fst y"
      using assms snoc Cons by (auto simp: dq_rep_def)
    have "removeDQueueNode h q (Some a) = Some (d, ?h, ?q)"
      using assms snoc Cons ne
      by (simp add: removeDQueueNode_def heap_simps dq_rep_def fun_upd_twist)
    moreover have "dq_rep ?h ?q (xs @ ys) (a # fs)"
      using assms snoc Cons ne by (simp add: dq_rep_def ball_Un Int_Un_distrib)
    moreover have "shrinks h (xs @ (a, d) # ys) fs ?h (xs @ ys) (a # fs)"
      using snoc Cons by (auto simp: shrinks_def same_outside_def footprint_def)
    ultimately show ?thesis by (rule that)
  qed
qed

lemma removeHead_rep:
  assumes "dq_rep h q ((a, d) # xs) fs"
  obtains h' q' where "removeDQueueHeadNode h q = Some (d, h', q')"
    "dq_rep h' q' xs (a # fs)" "shrinks h ((a, d) # xs) fs h' xs (a # fs)"
proof -
  have "dq_rep h q ([] @ (a, d) # xs) fs"
    using assms by simp
  then obtain h' q' where 1: "removeDQueueNode h q (Some a) = Some (d, h', q')"
    and 2: "dq_rep h' q' xs (a # fs)" "shrinks h ((a, d) # xs) fs h' xs (a # fs)"
    by (rule removeNode_rep) simp
  have "removeDQueueHeadNode h q = Some (d, h', q')"
    using assms 1 by (simp add: removeDQueueHeadNode_def dq_rep_def)
  with 2 show ?thesis by (blast intro: that)
qed

lemma removeTail_rep:
  assumes "dq_rep h q (xs @ [(a, d)]) fs"
  obtains h' q' where "removeDQueueTailNode h q = Some (d, h', q')"
    "dq_rep h' q' xs (a # fs)" "shrinks h (xs @ [(a, d)]) fs h' xs (a # fs)"
proof -
  from assms obtain h' q' where 1: "removeDQueueNode h q (Some a) = Some (d, h', q')"
    and 2: "dq_rep h' q' xs (a # fs)" "shrinks h (xs @ [(a, d)]) fs h' xs (a # fs)"
    by (rule removeNode_rep) simp
  have "removeDQueueTailNode h q = Some (d, h', q')"
    using assms 1 by (simp add: removeDQueueTailNode_def dq_rep_def)
  with 2 show ?thesis by (blast intro: that)
qed

lemma walkNext_dll:
  "dll (cells h) pv xs None \<Longrightarrow> i \<le> length xs \<Longrightarrow> walkNext h (hdp xs None) i = Some (hdp (drop i xs) None)"
proof (induction i arbitrary: xs pv)
  case (Suc i)
  then obtain x ys where "xs = x # ys" by (cases xs) auto
  with Suc show ?case by (auto simp: dload_def)
qed simp

lemma moveAllToFree_spec:
  assumes "dll (cells h) pv xs None" "fchain (cells h) (dq_Free q) fs" "distinct (map fst xs @ fs)"
  shows "\<exists>h' q'. moveAllToFree h q (hdp xs None) = Some (h', q') \<and>
           fchain (cells h') (dq_Free q') (rev (map fst xs) @ fs) \<and> brk h' = brk h \<and>
           same_outside (footprint xs fs) h h'"
  using assms
proof (induction xs arbitrary: h q pv fs)
  case Nil
  then show ?case by (subst moveAllToFree.simps) (simp add: same_outside_def)
next
  case (Cons x xs)
  let ?h = "h\<lparr>cells := (cells h)(fst x \<mapsto> \<lparr>dqn_Data = None, dqn_Next = dq_Free q, dqn_Prev = None\<rparr>)\<rparr>"
  let ?q = "q\<lparr>dq_Free := Some (fst x)\<rparr>"
  have "dll (cells ?h) (Some (fst x)) xs None" "fchain (cells ?h) (dq_Free ?q) (fst x # fs)"
    "distinct (map fst xs @ fst x # fs)"
    using Cons.prems by auto
  from Cons.IH [OF this] obtain h' q' where
    1: "moveAllToFree ?h ?q (hdp xs None) = Some (h', q')"
    and 2: "fchain (cells h') (dq_Free q') (rev (map fst xs) @ fst x # fs)" "brk h' = brk ?h"
      "same_outside (footprint xs (fst x # fs)) ?h h'"
    by blast
  have "moveAllToFree h q (hdp (x # xs) None) = Some (h', q')"
    using Cons.prems 1 by (subst moveAllToFree.simps) (simp add: heap_simps)
  with 2 show ?case by (auto simp: same_outside_def footprint_def)
qed

lemma removeAll_rep:
  assumes "dq_rep h q xs fs"
  obtains h' q' where "removeAllDQueueNodes h q = Some (h', q')"
    "dq_rep h' q' [] (rev (map fst xs) @ fs)" "same_outside (footprint xs fs) h h'" "brk h' = brk h"
proof (cases "xs = []")
  case True
  with assms show ?thesis
    by (intro that [of h q]) (auto simp: removeAllDQueueNodes_def dq_rep_def same_outside_def)
next
  case False
  from assms obtain h' q' where
    1: "moveAllToFree h q (dq_Head q) = Some (h', q')"
      "fchain (cells h') (dq_Free q') (rev (map fst xs) @ fs)" "brk h' = brk h"
      "same_outside (footprint xs fs) h h'"
    using moveAllToFree_spec [of h None xs q fs] by (auto simp: dq_rep_def)
  show ?thesis
    by (rule that [of h' "q'\<lparr>dq_NodeCount := 0, dq_Head := None, dq_Tail := None\<rparr>"])
      (use assms False 1 in \<open>auto simp: removeAllDQueueNodes_def dq_rep_def\<close>)
qed

lemma cleanDQueue_spec:
  assumes "fchain (cells h) (dq_Free q) fs" "distinct fs"
  shows "\<exists>h'. cleanDQueue h q = Some (h', q\<lparr>dq_Free := None\<rparr>) \<and> brk h' = brk h \<and>
           cells h' = (\<lambda>a. if a \<in> set fs then None else cells h a)"
  using assms
proof (induction fs arbitrary: h q)
  case Nil
  then show ?case by (subst cleanDQueue.simps) (cases q, simp)
next
  case (Cons a fs)
  then obtain n where n: "cells h a = Some n" "dq_Free q = Some a" "fchain (cells h) (dqn_Next n) fs"
    by auto
  let ?h = "h\<lparr>cells := (cells h)(a := None)\<rparr>"
  have "fchain (cells ?h) (dq_Free (q\<lparr>dq_Free := dqn_Next n\<rparr>)) fs" "distinct fs"
    using Cons.prems n by auto
  from Cons.IH [OF this] obtain h' where
    "cleanDQueue ?h (q\<lparr>dq_Free := dqn_Next n\<rparr>) = Some (h', q\<lparr>dq_Free := None\<rparr>)"
    "brk h' = brk h" "cells h' = (\<lambda>b. if b \<in> set fs then None else cells ?h b)"
    by auto
  then show ?case
    using n by (subst cleanDQueue.simps) (auto simp: heap_simps)
qed

lemma clean_rep:
  assumes "dq_rep h q xs fs"
  obtains h' q' where "cleanDQueue h q = Some (h', q')" "dq_rep h' q' xs []"
    "\<forall>a \<in> set fs. cells h' a = None" "same_outside (set fs) h h'"
proof -
  obtain h' where 1: "cleanDQueue h q = Some (h', q\<lparr>dq_Free := None\<rparr>)" "brk h' = brk h"
    "cells h' = (\<lambda>a. if a \<in> set fs then None else cells h a)"
    using cleanDQueue_spec [of h q fs] assms by (auto simp: dq_rep_def)
  have "dll (cells h') None xs None"
    using assms 1(3) by (subst dll_cong [of xs _ "cells h"]) (auto simp: dq_rep_def)
  then show ?thesis
    by (intro that [of h' "q\<lparr>dq_Free := None\<rparr>"])
      (use assms 1 in \<open>auto simp: dq_rep_def same_outside_def\<close>)
qed

section \<open>Two queues in one heap\<close>

definition two_rep :: "'a dheap \<Rightarrow> DQueue \<Rightarrow> 'a option list \<Rightarrow> DQueue \<Rightarrow> 'a option list \<Rightarrow> bool" where
  "two_rep h l xs t ys \<longleftrightarrow>
     (\<exists>sx fx sy fy. dq_rep h l sx fx \<and> dq_rep h t sy fy \<and>
        footprint sx fx \<inter> footprint sy fy = {} \<and> map snd sx = xs \<and> map snd sy = ys)"

lemma footprint_simps [simp]:
  "footprint [] [] = {}"
  "footprint (x # xs) fs = insert (fst x) (footprint xs fs)"
  "footprint xs (f # fs) = insert f (footprint xs fs)"
  "footprint (xs @ ys) fs = footprint xs fs \<union> footprint ys []"
  by (auto simp: footprint_def)

lemma footprint_below: "dq_rep h q xs fs \<Longrightarrow> a \<in> footprint xs fs \<Longrightarrow> a < brk h"
  by (auto simp: dq_rep_def footprint_def)

lemma node_update_all [simp]:
  "n\<lparr>dqn_Prev := p, dqn_Data := d, dqn_Next := x\<rparr> = \<lparr>dqn_Data = d, dqn_Next = x, dqn_Prev = p\<rparr>"
  by (cases n) simp

text \<open>Handing a free node over from one queue to the other.\<close>

lemma handover_rep:
  assumes l: "dq_rep h l xs (a # fs)" and t: "dq_rep h t ys gs"
    and dj: "footprint xs (a # fs) \<inter> footprint ys gs = {}"
  defines "h' \<equiv> h\<lparr>cells := (cells h)(a \<mapsto> \<lparr>dqn_Data = None, dqn_Next = dq_Free t, dqn_Prev = None\<rparr>)\<rparr>"
  shows "\<exists>n. dload h (dq_Free l) = Some n \<and> dq_Free l = Some a \<and>
      dstore h (Some a) (\<lambda>m. m\<lparr>dqn_Prev := None, dqn_Data := None, dqn_Next := dq_Free t\<rparr>) = Some h' \<and>
      dq_rep h' (l\<lparr>dq_Free := dqn_Next n\<rparr>) xs fs \<and> dq_rep h' (t\<lparr>dq_Free := Some a\<rparr>) ys (a # gs)"
  using assms by (auto simp: dq_rep_def heap_simps footprint_def)


lemma transfer_rep:
  assumes l: "dq_rep h l (us @ (a, x) # vs) fx" and t: "dq_rep h t sy fy"
    and dj: "footprint (us @ (a, x) # vs) fx \<inter> footprint sy fy = {}"
  obtains h1 l1 n h2 where "removeDQueueNode h l (Some a) = Some (x, h1, l1)"
    "dload h1 (dq_Free l1) = Some n" "dq_Free l1 = Some a"
    "dstore h1 (Some a) (\<lambda>m. m\<lparr>dqn_Prev := None, dqn_Data := None, dqn_Next := dq_Free t\<rparr>) = Some h2"
    "dq_rep h2 (l1\<lparr>dq_Free := dqn_Next n\<rparr>) (us @ vs) fx" "dq_rep h2 (t\<lparr>dq_Free := Some a\<rparr>) sy (a # fy)"
    "footprint (us @ vs) fx \<inter> footprint sy (a # fy) = {}"
proof -
  obtain h1 l1 where 1: "removeDQueueNode h l (Some a) = Some (x, h1, l1)"
    "dq_rep h1 l1 (us @ vs) (a # fx)" "shrinks h (us @ (a, x) # vs) fx h1 (us @ vs) (a # fx)"
    using l by (rule removeNode_rep)
  have t1: "dq_rep h1 t sy fy"
    using t 1(3) dj unfolding shrinks_def by (blast intro: dq_rep_frame)
  have dj1: "footprint (us @ vs) (a # fx) \<inter> footprint sy fy = {}"
    using dj by (auto simp: footprint_def)
  have a: "a \<notin> footprint (us @ vs) fx"
    using l by (auto simp: dq_rep_def footprint_def)
  then have dj2: "footprint (us @ vs) fx \<inter> footprint sy (a # fy) = {}"
    using dj1 by (auto simp: footprint_def)
  from handover_rep [OF 1(2) t1 dj1] 1(1) dj2 show ?thesis
    by (blast intro: that)
qed

text \<open>An insertion into one of two separate queues keeps them separate.\<close>

lemma grows_separate:
  assumes l: "dq_rep h l sx fx" and g: "grows h sy fy h' sy' fy'"
    and dj: "footprint sx fx \<inter> footprint sy fy = {}"
  shows "dq_rep h' l sx fx" "footprint sx fx \<inter> footprint sy' fy' = {}"
proof -
  show "dq_rep h' l sx fx"
    using l g dj unfolding grows_def by (blast intro: dq_rep_frame)
  have "footprint sx fx \<inter> {brk h..} = {}"
    using footprint_below [OF l] by fastforce
  with g dj show "footprint sx fx \<inter> footprint sy' fy' = {}"
    unfolding grows_def by blast
qed

lemma moveOneOut_head:
  assumes "two_rep h l (x # xs) t ys"
  shows "\<exists>h' l' t'. moveOneOut h l t True = Some (h', l', t') \<and> two_rep h' l' xs t' (ys @ [x])"
proof -
  from assms obtain s fx sy fy where l: "dq_rep h l s fx" and t: "dq_rep h t sy fy"
    and dj: "footprint s fx \<inter> footprint sy fy = {}" and xs: "map snd s = x # xs" "map snd sy = ys"
    by (auto simp: two_rep_def)
  then obtain a sx where s: "s = [] @ (a, x) # sx" "map snd sx = xs" by (cases s) auto
  obtain h1 l1 n h2 where 1: "removeDQueueNode h l (Some a) = Some (x, h1, l1)"
    "dload h1 (dq_Free l1) = Some n" "dq_Free l1 = Some a"
    "dstore h1 (Some a) (\<lambda>m. m\<lparr>dqn_Prev := None, dqn_Data := None, dqn_Next := dq_Free t\<rparr>) = Some h2"
    and l2: "dq_rep h2 (l1\<lparr>dq_Free := dqn_Next n\<rparr>) sx fx"
    and t2: "dq_rep h2 (t\<lparr>dq_Free := Some a\<rparr>) sy (a # fy)"
    and dj2: "footprint sx fx \<inter> footprint sy (a # fy) = {}"
    using transfer_rep [OF l [unfolded s] t dj [unfolded s]] by (metis append_Nil)
  from t2 obtain b h3 t3 fy' where
    3: "insertDQueueTailNode h2 (t\<lparr>dq_Free := Some a\<rparr>) x = Some (h3, t3)"
      "dq_rep h3 t3 (sy @ [(b, x)]) fy'" "grows h2 sy (a # fy) h3 (sy @ [(b, x)]) fy'"
    by (rule insertTail_rep)
  have "moveOneOut h l t True = Some (h3, l1\<lparr>dq_Free := dqn_Next n\<rparr>, t3)"
    using l s 1 3(1) by (simp add: moveOneOut_def dq_rep_def)
  moreover have "two_rep h3 (l1\<lparr>dq_Free := dqn_Next n\<rparr>) xs t3 (ys @ [x])"
    unfolding two_rep_def using grows_separate [OF l2 3(3) dj2] 3(2) s xs
    by (intro exI [of _ sx] exI [of _ fx] exI [of _ "sy @ [(b, x)]"] exI [of _ fy']) simp
  ultimately show ?thesis by blast
qed

lemma moveOneOut_tail:
  assumes "two_rep h l (xs @ [x]) t ys"
  shows "\<exists>h' l' t'. moveOneOut h l t False = Some (h', l', t') \<and> two_rep h' l' xs t' (x # ys)"
proof -
  from assms obtain s fx sy fy where l: "dq_rep h l s fx" and t: "dq_rep h t sy fy"
    and dj: "footprint s fx \<inter> footprint sy fy = {}" and xs: "map snd s = xs @ [x]" "map snd sy = ys"
    by (auto simp: two_rep_def)
  then obtain a sx where s: "s = sx @ (a, x) # []" "map snd sx = xs"
    by (cases s rule: rev_cases) auto
  obtain h1 l1 n h2 where 1: "removeDQueueNode h l (Some a) = Some (x, h1, l1)"
    "dload h1 (dq_Free l1) = Some n" "dq_Free l1 = Some a"
    "dstore h1 (Some a) (\<lambda>m. m\<lparr>dqn_Prev := None, dqn_Data := None, dqn_Next := dq_Free t\<rparr>) = Some h2"
    and l2: "dq_rep h2 (l1\<lparr>dq_Free := dqn_Next n\<rparr>) sx fx"
    and t2: "dq_rep h2 (t\<lparr>dq_Free := Some a\<rparr>) sy (a # fy)"
    and dj2: "footprint sx fx \<inter> footprint sy (a # fy) = {}"
    using transfer_rep [OF l [unfolded s] t dj [unfolded s]] by (metis append_Nil2)
  from t2 obtain b h3 t3 fy' where
    3: "insertDQueueHeadNode h2 (t\<lparr>dq_Free := Some a\<rparr>) x = Some (h3, t3)"
      "dq_rep h3 t3 ((b, x) # sy) fy'" "grows h2 sy (a # fy) h3 ((b, x) # sy) fy'"
    by (rule insertHead_rep)
  have "moveOneOut h l t False = Some (h3, l1\<lparr>dq_Free := dqn_Next n\<rparr>, t3)"
    using l s 1 3(1) by (simp add: moveOneOut_def dq_rep_def)
  moreover have "two_rep h3 (l1\<lparr>dq_Free := dqn_Next n\<rparr>) xs t3 (x # ys)"
    unfolding two_rep_def using grows_separate [OF l2 3(3) dj2] 3(2) s xs
    by (intro exI [of _ sx] exI [of _ fx] exI [of _ "(b, x) # sy"] exI [of _ fy']) simp
  ultimately show ?thesis by blast
qed

lemma two_rep_count: "two_rep h l xs t ys \<Longrightarrow> dq_NodeCount l = int (length xs)"
  by (auto simp: two_rep_def dq_rep_def)

lemma moveOutLoop_head:
  "two_rep h l xs t ys \<Longrightarrow>
     \<exists>h' l' t'. moveOutLoop h l t True n = Some (h', l', t') \<and> two_rep h' l' (drop n xs) t' (ys @ take n xs)"
proof (induction n arbitrary: h l t xs ys)
  case (Suc n)
  show ?case
  proof (cases xs)
    case Nil
    with Suc.prems show ?thesis using two_rep_count [OF Suc.prems] by simp
  next
    case (Cons x xs')
    with Suc.prems moveOneOut_head obtain h1 l1 t1 where
      "moveOneOut h l t True = Some (h1, l1, t1)" "two_rep h1 l1 xs' t1 (ys @ [x])" by blast
    with Suc.IH [of h1 l1 xs' t1 "ys @ [x]"] Cons two_rep_count [OF Suc.prems] show ?thesis by auto
  qed
qed simp

lemma moveOutLoop_tail:
  "two_rep h l xs t ys \<Longrightarrow>
     \<exists>h' l' t'. moveOutLoop h l t False n = Some (h', l', t') \<and>
       two_rep h' l' (take (length xs - n) xs) t' (drop (length xs - n) xs @ ys)"
proof (induction n arbitrary: h l t xs ys)
  case (Suc n)
  show ?case
  proof (cases xs rule: rev_cases)
    case Nil
    with Suc.prems show ?thesis using two_rep_count [OF Suc.prems] by simp
  next
    case (snoc xs' x)
    with Suc.prems moveOneOut_tail obtain h1 l1 t1 where
      "moveOneOut h l t False = Some (h1, l1, t1)" "two_rep h1 l1 xs' t1 (x # ys)" by blast
    with Suc.IH [of h1 l1 xs' t1 "x # ys"] snoc two_rep_count [OF Suc.prems] show ?thesis by auto
  qed
qed simp

section \<open>The interface of a queue\<close>

locale fifo_queue =
  fixes ins_tail :: "'s \<Rightarrow> 'a \<Rightarrow> 's option"
    and rem_head :: "'s \<Rightarrow> ('a \<times> 's) option"
    and holds :: "'s \<Rightarrow> 'a list \<Rightarrow> bool"
  assumes ins_tail_law: "holds s xs \<Longrightarrow> \<exists>s'. ins_tail s x = Some s' \<and> holds s' (xs @ [x])"
    and rem_head_law: "holds s (x # xs) \<Longrightarrow> \<exists>s'. rem_head s = Some (x, s') \<and> holds s' xs"
begin

lemma enqueue_all: "holds s ys \<Longrightarrow> \<exists>s'. fold_opt ins_tail s xs = Some s' \<and> holds s' (ys @ xs)"
proof (induction xs arbitrary: s ys)
  case (Cons x xs)
  from ins_tail_law [OF Cons.prems, of x] obtain s1 where "ins_tail s x = Some s1" "holds s1 (ys @ [x])"
    by blast
  with Cons.IH [of s1 "ys @ [x]"] show ?case by auto
qed simp

lemma drain_heads: "holds s (xs @ ys) \<Longrightarrow> \<exists>s'. take_opt rem_head (length xs) s = Some (xs, s') \<and> holds s' ys"
proof (induction xs arbitrary: s)
  case (Cons x xs)
  then obtain s1 where "rem_head s = Some (x, s1)" "holds s1 (xs @ ys)"
    using rem_head_law [of s x "xs @ ys"] by auto
  with Cons.IH [of s1] show ?case by auto
qed simp

lemma first_in_first_out:
  assumes "holds s []"
  shows "\<exists>s1 s2. fold_opt ins_tail s xs = Some s1 \<and> take_opt rem_head (length xs) s1 = Some (xs, s2) \<and> holds s2 []"
  using enqueue_all [OF assms, of xs] drain_heads [of _ xs "[]"] by auto

end

locale deque = fifo_queue ins_tail rem_head holds
  for ins_tail :: "'s \<Rightarrow> 'a \<Rightarrow> 's option"
    and rem_head :: "'s \<Rightarrow> ('a \<times> 's) option"
    and holds :: "'s \<Rightarrow> 'a list \<Rightarrow> bool" +
  fixes ins_head :: "'s \<Rightarrow> 'a \<Rightarrow> 's option"
    and rem_tail :: "'s \<Rightarrow> ('a \<times> 's) option"
  assumes ins_head_law: "holds s xs \<Longrightarrow> \<exists>s'. ins_head s x = Some s' \<and> holds s' (x # xs)"
    and rem_tail_law: "holds s (xs @ [x]) \<Longrightarrow> \<exists>s'. rem_tail s = Some (x, s') \<and> holds s' xs"
begin

lemma push_all: "holds s ys \<Longrightarrow> \<exists>s'. fold_opt ins_head s xs = Some s' \<and> holds s' (rev xs @ ys)"
proof (induction xs arbitrary: s ys)
  case (Cons x xs)
  from ins_head_law [OF Cons.prems, of x] obtain s1 where "ins_head s x = Some s1" "holds s1 (x # ys)"
    by blast
  with Cons.IH [of s1 "x # ys"] show ?case by auto
qed simp

lemma drain_tails: "holds s (ys @ rev xs) \<Longrightarrow> \<exists>s'. take_opt rem_tail (length xs) s = Some (xs, s') \<and> holds s' ys"
proof (induction xs arbitrary: s)
  case (Cons x xs)
  then obtain s1 where "rem_tail s = Some (x, s1)" "holds s1 (ys @ rev xs)"
    using rem_tail_law [of s "ys @ rev xs" x] by auto
  with Cons.IH [of s1] show ?case by auto
qed simp

text \<open>Pushing at the head what was taken from the tail rebuilds the order: the drain loop of the
  dispatcher (\<^verbatim>\<open>removeDQueueTailNode\<close> then \<^verbatim>\<open>insertDQueueHeadNode\<close>) moves a list unchanged.\<close>

lemma tail_to_head:
  assumes "holds s xs" "holds t ys"
  shows "\<exists>s' t'. take_opt rem_tail (length xs) s = Some (rev xs, s') \<and> holds s' [] \<and>
    fold_opt ins_head t (rev xs) = Some t' \<and> holds t' (xs @ ys)"
  using drain_tails [of s "[]" "rev xs"] push_all [OF assms(2), of "rev xs"] assms(1) by auto

end

text \<open>The states of the two queue types, and the data they hold.\<close>

fun dq_holds :: "'a dheap \<times> DQueue \<Rightarrow> 'a option list \<Rightarrow> bool" where
  "dq_holds (h, q) xs \<longleftrightarrow> (\<exists>s fs. dq_rep h q s fs \<and> map snd s = xs)"

fun dsq_holds :: "'a dheap \<times> DSafeQueue \<Rightarrow> 'a option list \<Rightarrow> bool" where
  "dsq_holds (h, l) xs \<longleftrightarrow> dq_holds (h, dsq_Queue l) xs"

lemma dq_ins_tail_holds:
  "dq_holds s xs \<Longrightarrow> \<exists>s'. case_prod insertDQueueTailNode s x = Some s' \<and> dq_holds s' (xs @ [x])"
  by (cases s) (force elim: insertTail_rep)

lemma dq_ins_head_holds:
  "dq_holds s xs \<Longrightarrow> \<exists>s'. case_prod insertDQueueHeadNode s x = Some s' \<and> dq_holds s' (x # xs)"
  by (cases s) (force elim: insertHead_rep)

lemma dq_rem_head_holds:
  "dq_holds s (x # xs) \<Longrightarrow> \<exists>s'. case_prod removeDQueueHeadNode s = Some (x, s') \<and> dq_holds s' xs"
  by (cases s) (auto simp: map_eq_Cons_conv elim!: removeHead_rep)

lemma dq_rem_tail_holds:
  "dq_holds s (xs @ [x]) \<Longrightarrow> \<exists>s'. case_prod removeDQueueTailNode s = Some (x, s') \<and> dq_holds s' xs"
  by (cases s) (fastforce simp: map_eq_append_conv elim!: removeTail_rep)

interpretation dq: deque "case_prod insertDQueueTailNode" "case_prod removeDQueueHeadNode" dq_holds
    "case_prod insertDQueueHeadNode" "case_prod removeDQueueTailNode"
  by unfold_locales
    (rule dq_ins_tail_holds dq_ins_head_holds dq_rem_head_holds dq_rem_tail_holds, assumption)+

lemma dsq_ins_tail_holds:
  assumes "dsq_holds s xs"
  shows "\<exists>s'. case_prod insertDSafeQueueTailNode s x = Some s' \<and> dsq_holds s' (xs @ [x])"
proof -
  obtain h l where s: "s = (h, l)" by (cases s)
  with assms dq_ins_tail_holds [of "(h, dsq_Queue l)" xs x] obtain h' q' where
    "insertDQueueTailNode h (dsq_Queue l) x = Some (h', q')" "dq_holds (h', q') (xs @ [x])"
    by auto
  with s show ?thesis by (simp add: insertDSafeQueueTailNode_def)
qed

lemma dsq_rem_head_holds:
  assumes "dsq_holds s (x # xs)"
  shows "\<exists>s'. case_prod removeDSafeQueueHeadNode s = Some (x, s') \<and> dsq_holds s' xs"
proof -
  obtain h l where s: "s = (h, l)" by (cases s)
  with assms dq_rem_head_holds [of "(h, dsq_Queue l)" x xs] obtain h' q' where
    "removeDQueueHeadNode h (dsq_Queue l) = Some (x, h', q')" "dq_holds (h', q') xs"
    by auto
  with s show ?thesis by (simp add: removeDSafeQueueHeadNode_def)
qed

interpretation dsq: fifo_queue "case_prod insertDSafeQueueTailNode" "case_prod removeDSafeQueueHeadNode"
    dsq_holds
  by unfold_locales (rule dsq_ins_tail_holds dsq_rem_head_holds, assumption)+

section \<open>Properties\<close>

text \<open>A heap with two queues used by the witnesses: the first holds the data 10 and 20 in the nodes at
  0 and 1 and has the free node 2, the second holds 30 in the node at 3.\<close>

definition sample_heap :: "nat dheap" where
  "sample_heap = \<lparr>cells = [
     0 \<mapsto> \<lparr>dqn_Data = Some 10, dqn_Next = Some 1, dqn_Prev = None\<rparr>,
     1 \<mapsto> \<lparr>dqn_Data = Some 20, dqn_Next = None, dqn_Prev = Some 0\<rparr>,
     2 \<mapsto> \<lparr>dqn_Data = None, dqn_Next = None, dqn_Prev = None\<rparr>,
     3 \<mapsto> \<lparr>dqn_Data = Some 30, dqn_Next = None, dqn_Prev = None\<rparr>], brk = 4\<rparr>"

definition sample_q1 :: DQueue where
  "sample_q1 = \<lparr>dq_Context = Some 0, dq_Head = Some 0, dq_Tail = Some 1, dq_Free = Some 2, dq_NodeCount = 2\<rparr>"

definition sample_q2 :: DQueue where
  "sample_q2 = \<lparr>dq_Context = Some 0, dq_Head = Some 3, dq_Tail = Some 3, dq_Free = None, dq_NodeCount = 1\<rparr>"

lemma sample_rep1: "dq_rep sample_heap sample_q1 [(0, Some 10), (1, Some 20)] [2]"
  by (simp add: dq_rep_def sample_heap_def sample_q1_def)

lemma sample_rep2: "dq_rep sample_heap sample_q2 [(3, Some 30)] []"
  by (simp add: dq_rep_def sample_heap_def sample_q2_def)

lemma sample_two: "two_rep sample_heap sample_q1 [Some 10, Some 20] sample_q2 [Some 30]"
proof -
  have "footprint [(0, Some (10::nat)), (1, Some 20)] [2] \<inter> footprint [(3, Some (30::nat))] [] = {}"
    by simp
  with sample_rep1 sample_rep2 show ?thesis unfolding two_rep_def by fastforce
qed

text \<open>C34: Removing a node at any position of a represented queue never dereferences a bad pointer,
  returns the datum of that node, leaves the other nodes linked in the same order with the node on top
  of the free list, and changes no cell outside the queue's own nodes, so that every other queue of the
  heap still represents what it did.\<close>

theorem removeDQueueNode_correct:
  assumes "dq_rep h q (xs @ (a, d) # ys) fs"
  shows "\<exists>h' q'. removeDQueueNode h q (Some a) = Some (d, h', q') \<and> dq_rep h' q' (xs @ ys) (a # fs) \<and>
    (\<forall>q2 zs gs. dq_rep h q2 zs gs \<and> footprint (xs @ (a, d) # ys) fs \<inter> footprint zs gs = {} \<longrightarrow>
       dq_rep h' q2 zs gs)"
  using assms by (rule removeNode_rep) (auto simp: shrinks_def intro: dq_rep_frame)

theorem removeDQueueNode_correct_witness:
  "\<exists>h' q'. removeDQueueNode sample_heap sample_q1 (Some 1) = Some (Some 20, h', q') \<and>
     dq_rep h' q' [(0, Some 10)] [1, 2] \<and> dq_rep h' sample_q2 [(3, Some 30)] []"
proof -
  have "dq_rep sample_heap sample_q1 ([(0, Some 10)] @ (1, Some 20) # []) [2]"
    using sample_rep1 by simp
  from removeDQueueNode_correct [OF this] show ?thesis
    using sample_rep2 by (fastforce simp: footprint_def)
qed

text \<open>The lock-protected queue is first-in first-out: data inserted at the tail of a queue, after what
  it already holds, come out of \<^verbatim>\<open>removeDSafeQueueHeadNode\<close> in the order of insertion, all of them, and
  leave the queue empty.\<close>

theorem DSafeQueue_fifo:
  assumes "dsq_holds s ys"
  shows "\<exists>s1 s2. fold_opt (case_prod insertDSafeQueueTailNode) s xs = Some s1 \<and>
    take_opt (case_prod removeDSafeQueueHeadNode) (length (ys @ xs)) s1 = Some (ys @ xs, s2) \<and> dsq_holds s2 []"
  using dsq.enqueue_all [OF assms, of xs] dsq.drain_heads [of _ "ys @ xs" "[]"] by (metis append_Nil2)

theorem DSafeQueue_fifo_witness:
  "\<exists>s1 s2. fold_opt (case_prod insertDSafeQueueTailNode)
       (sample_heap, \<lparr>dsq_Queue = sample_q1, dsq_QueueLength = 2\<rparr>) [Some 7, None] = Some s1 \<and>
     take_opt (case_prod removeDSafeQueueHeadNode) 4 s1 = Some ([Some 10, Some 20, Some 7, None], s2)"
proof -
  have "dsq_holds (sample_heap, \<lparr>dsq_Queue = sample_q1, dsq_QueueLength = 2\<rparr>) [Some 10, Some 20]"
    using sample_rep1 by force
  from DSafeQueue_fifo [OF this, of "[Some 7, None]"] show ?thesis by (auto simp: eval_nat_numeral)
qed

text \<open>C35: \<^verbatim>\<open>moveDQueueNodeOut\<close> with a limit \<open>mx\<close> moves the first \<open>mx\<close> data of the source behind those
  of the target when it runs from the head, and the last \<open>mx\<close> before them when it runs from the tail,
  in both cases in their order; it never fails, the two queues stay disjoint, and the length published
  for lock-free readers is that of what remains.\<close>

theorem moveDQueueNodeOut_correct:
  assumes "two_rep h (dsq_Queue l) xs t ys"
  shows "\<exists>h' l' t'. moveDQueueNodeOut h l t mx fromhead = Some (h', l', t') \<and>
    (if fromhead then two_rep h' (dsq_Queue l') (drop (nat mx) xs) t' (ys @ take (nat mx) xs)
     else two_rep h' (dsq_Queue l') (take (length xs - nat mx) xs) t' (drop (length xs - nat mx) xs @ ys)) \<and>
    dsq_QueueLength l' = int (length xs - nat mx)"
  using moveOutLoop_head [OF assms, of "nat mx"] moveOutLoop_tail [OF assms, of "nat mx"]
  by (cases fromhead) (fastforce simp: moveDQueueNodeOut_def min_def dest: two_rep_count)+

theorem moveDQueueNodeOut_correct_witness:
  "\<exists>h' l' t'. moveDQueueNodeOut sample_heap \<lparr>dsq_Queue = sample_q1, dsq_QueueLength = 2\<rparr> sample_q2 1 True
     = Some (h', l', t') \<and> two_rep h' (dsq_Queue l') [Some 20] t' [Some 30, Some 10] \<and> dsq_QueueLength l' = 1"
  using moveDQueueNodeOut_correct [of sample_heap "\<lparr>dsq_Queue = sample_q1, dsq_QueueLength = 2\<rparr>"
      "[Some 10, Some 20]" sample_q2 "[Some 30]" 1 True] sample_two by simp

text \<open>Emptying a queue with \<^verbatim>\<open>removeAllDQueueNodes\<close> and then releasing its free list with
  \<^verbatim>\<open>cleanDQueue\<close> terminates, frees every node the queue ever held (in use or cached) exactly once,
  leaves an empty usable queue, and touches nothing else.\<close>

theorem removeAll_cleanDQueue_no_leak:
  assumes "dq_rep h q xs fs"
  shows "\<exists>h1 q1 h2 q2. removeAllDQueueNodes h q = Some (h1, q1) \<and> cleanDQueue h1 q1 = Some (h2, q2) \<and>
    dq_rep h2 q2 [] [] \<and> (\<forall>a \<in> footprint xs fs. cells h2 a = None) \<and> same_outside (footprint xs fs) h h2"
proof -
  from assms obtain h1 q1 where 1: "removeAllDQueueNodes h q = Some (h1, q1)"
    "dq_rep h1 q1 [] (rev (map fst xs) @ fs)" "same_outside (footprint xs fs) h h1" "brk h1 = brk h"
    by (rule removeAll_rep)
  from 1(2) obtain h2 q2 where 2: "cleanDQueue h1 q1 = Some (h2, q2)" "dq_rep h2 q2 [] []"
    "\<forall>a \<in> set (rev (map fst xs) @ fs). cells h2 a = None" "same_outside (set (rev (map fst xs) @ fs)) h1 h2"
    by (rule clean_rep)
  moreover have "same_outside (footprint xs fs) h h2"
    using 1(3,4) 2(4) by (auto simp: same_outside_def footprint_def)
  ultimately show ?thesis using 1 by (auto simp: footprint_def)
qed

theorem removeAll_cleanDQueue_no_leak_witness:
  "\<exists>h1 q1 h2 q2. removeAllDQueueNodes sample_heap sample_q1 = Some (h1, q1) \<and>
     cleanDQueue h1 q1 = Some (h2, q2) \<and> dq_rep h2 q2 [] [] \<and>
     cells h2 0 = None \<and> cells h2 1 = None \<and> cells h2 2 = None"
  using removeAll_cleanDQueue_no_leak [OF sample_rep1] by (auto simp: footprint_def)


end
