(* ===== verification/RM_HashFunc.thy ===== *)
theory RM_HashFunc
  imports RM_Prelude
begin

text \<open>
  The hash functions of \<^verbatim>\<open>access/hash/hashfunc.c\<close> and \<^verbatim>\<open>string_hash\<close> of \<^verbatim>\<open>utils/hash/hashfn.c\<close>: the
  hash functions of the integer types, and Jenkins' lookup3 hash of a byte string with its three read
  paths (32-bit, 16-bit and single-byte reads, chosen by the alignment of the key).  Memory is a
  function from addresses to bytes, total because the 32-bit path reads up to three bytes behind the
  key; the theorems show that those bytes, and the alignment, do not matter.
\<close>

section \<open>Mixing\<close>

type_synonym memory = "nat \<Rightarrow> uint8"
type_synonym abc = "uint32 \<times> uint32 \<times> uint32"

definition rot :: "uint32 \<Rightarrow> nat \<Rightarrow> uint32" where
  "rot x k = push_bit k x OR drop_bit (32 - k) x"

text \<open>The endianness macros: the test reads \<^verbatim>\<open>#ifndef WORS_BIGENDIAN\<close>, a name nothing defines, so the
  first branch is always taken.\<close>

definition HASH_LITTLE_ENDIAN :: bool where "HASH_LITTLE_ENDIAN = True"
definition HASH_BIG_ENDIAN :: bool where "HASH_BIG_ENDIAN = False"

definition mix :: "abc \<Rightarrow> abc" where
  "mix = (\<lambda>(a, b, c).
     (let a = a - c; a = a XOR rot c 4;  c = c + b;
          b = b - a; b = b XOR rot a 6;  a = a + c;
          c = c - b; c = c XOR rot b 8;  b = b + a;
          a = a - c; a = a XOR rot c 16; c = c + b;
          b = b - a; b = b XOR rot a 19; a = a + c;
          c = c - b; c = c XOR rot b 4;  b = b + a
      in (a, b, c)))"

definition hash_final :: "abc \<Rightarrow> abc" where
  "hash_final = (\<lambda>(a, b, c).
     (let c = c XOR b; c = c - rot b 14;
          a = a XOR c; a = a - rot c 11;
          b = b XOR a; b = b - rot a 25;
          c = c XOR b; c = c - rot b 16;
          a = a XOR c; a = a - rot c 4;
          b = b XOR a; b = b - rot a 14;
          c = c XOR b; c = c - rot b 24
      in (a, b, c)))"

text \<open>The last step of every function: \<^verbatim>\<open>final\<close>, unless the switch returned for an empty tail.\<close>

definition finish :: "bool \<times> abc \<Rightarrow> abc" where
  "finish = (\<lambda>(mixing, s).
     (if mixing then hash_final s else s))"

section \<open>Words\<close>

fun hashword_loop :: "(nat \<Rightarrow> uint32) \<Rightarrow> nat \<Rightarrow> nat \<Rightarrow> abc \<Rightarrow> nat \<times> nat \<times> abc" where
  "hashword_loop k i len (a, b, c) =
     (if len > 3
      then hashword_loop k (i + 3) (len - 3) (mix (a + k i, b + k (i + 1), c + k (i + 2)))
      else (i, len, a, b, c))"

definition hashword_tail :: "(nat \<Rightarrow> uint32) \<Rightarrow> nat \<times> nat \<times> abc \<Rightarrow> bool \<times> abc" where
  "hashword_tail k = (\<lambda>(i, len, a, b, c).
     (let c = (if len = 3 then c + k (i + 2) else c);
          b = (if len = 2 \<or> len = 3 then b + k (i + 1) else b);
          a = (if len = 1 \<or> len = 2 \<or> len = 3 then a + k i else a)
      in (len = 1 \<or> len = 2 \<or> len = 3, a, b, c)))"

definition hashword :: "(nat \<Rightarrow> uint32) \<Rightarrow> nat \<Rightarrow> uint32 \<Rightarrow> uint32" where
  "hashword k len initval =
     (let s = 0xdeadbeef + push_bit 2 (of_nat len) + initval;
          (a, b, c) = finish (hashword_tail k (hashword_loop k 0 len (s, s, s)))
      in c)"

definition hashword2 :: "(nat \<Rightarrow> uint32) \<Rightarrow> nat \<Rightarrow> uint32 \<Rightarrow> uint32 \<Rightarrow> uint32 \<times> uint32" where
  "hashword2 k len pc pb =
     (let s = 0xdeadbeef + of_nat (push_bit 2 len) + pc;
          (a, b, c) = finish (hashword_tail k (hashword_loop k 0 len (s, s, s + pb)))
      in (c, b))"

section \<open>Byte strings, least significant byte first\<close>

definition read8 :: "memory \<Rightarrow> nat \<Rightarrow> uint32" where
  "read8 m p = ucast (m p)"

definition read16 :: "memory \<Rightarrow> nat \<Rightarrow> uint32" where
  "read16 m p = read8 m p + push_bit 8 (read8 m (p + 1))"

definition read32 :: "memory \<Rightarrow> nat \<Rightarrow> uint32" where
  "read32 m p = read8 m p + push_bit 8 (read8 m (p + 1)) + push_bit 16 (read8 m (p + 2))
     + push_bit 24 (read8 m (p + 3))"

text \<open>The loop over the blocks of twelve bytes, by the way a block is read.\<close>

fun block_loop :: "(nat \<Rightarrow> abc \<Rightarrow> abc) \<Rightarrow> nat \<Rightarrow> nat \<Rightarrow> abc \<Rightarrow> nat \<times> nat \<times> abc" where
  "block_loop blk p len s =
     (if len > 12 then block_loop blk (p + 12) (len - 12) (blk p s) else (p, len, s))"

declare block_loop.simps [simp del] hashword_loop.simps [simp del]

definition block32 :: "memory \<Rightarrow> nat \<Rightarrow> abc \<Rightarrow> abc" where
  "block32 m p = (\<lambda>(a, b, c).
     mix (a + read32 m p, b + read32 m (p + 4), c + read32 m (p + 8)))"

definition tail32 :: "memory \<Rightarrow> nat \<times> nat \<times> abc \<Rightarrow> bool \<times> abc" where
  "tail32 m = (\<lambda>(p, len, a, b, c).
     (let k0 = read32 m p; k1 = read32 m (p + 4); k2 = read32 m (p + 8) in
      if len = 12 then (True, a + k0, b + k1, c + k2)
      else if len = 11 then (True, a + k0, b + k1, c + (k2 AND 0xffffff))
      else if len = 10 then (True, a + k0, b + k1, c + (k2 AND 0xffff))
      else if len = 9 then (True, a + k0, b + k1, c + (k2 AND 0xff))
      else if len = 8 then (True, a + k0, b + k1, c)
      else if len = 7 then (True, a + k0, b + (k1 AND 0xffffff), c)
      else if len = 6 then (True, a + k0, b + (k1 AND 0xffff), c)
      else if len = 5 then (True, a + k0, b + (k1 AND 0xff), c)
      else if len = 4 then (True, a + k0, b, c)
      else if len = 3 then (True, a + (k0 AND 0xffffff), b, c)
      else if len = 2 then (True, a + (k0 AND 0xffff), b, c)
      else if len = 1 then (True, a + (k0 AND 0xff), b, c)
      else (False, a, b, c)))"

definition block16 :: "memory \<Rightarrow> nat \<Rightarrow> abc \<Rightarrow> abc" where
  "block16 m p = (\<lambda>(a, b, c).
     mix (a + (read16 m p + push_bit 16 (read16 m (p + 2))),
          b + (read16 m (p + 4) + push_bit 16 (read16 m (p + 6))),
          c + (read16 m (p + 8) + push_bit 16 (read16 m (p + 10)))))"

definition tail16 :: "memory \<Rightarrow> nat \<times> nat \<times> abc \<Rightarrow> bool \<times> abc" where
  "tail16 m = (\<lambda>(p, len, a, b, c).
     (let k01 = read16 m p + push_bit 16 (read16 m (p + 2));
          k23 = read16 m (p + 4) + push_bit 16 (read16 m (p + 6)) in
      if len = 12 then
        (True, a + k01, b + k23, c + (read16 m (p + 8) + push_bit 16 (read16 m (p + 10))))
      else if len = 11 then (True, a + k01, b + k23, c + push_bit 16 (read8 m (p + 10)) + read16 m (p + 8))
      else if len = 10 then (True, a + k01, b + k23, c + read16 m (p + 8))
      else if len = 9 then (True, a + k01, b + k23, c + read8 m (p + 8))
      else if len = 8 then (True, a + k01, b + k23, c)
      else if len = 7 then (True, a + k01, b + push_bit 16 (read8 m (p + 6)) + read16 m (p + 4), c)
      else if len = 6 then (True, a + k01, b + read16 m (p + 4), c)
      else if len = 5 then (True, a + k01, b + read8 m (p + 4), c)
      else if len = 4 then (True, a + k01, b, c)
      else if len = 3 then (True, a + push_bit 16 (read8 m (p + 2)) + read16 m p, b, c)
      else if len = 2 then (True, a + read16 m p, b, c)
      else if len = 1 then (True, a + read8 m p, b, c)
      else (False, a, b, c)))"

definition block8 :: "memory \<Rightarrow> nat \<Rightarrow> abc \<Rightarrow> abc" where
  "block8 m p = (\<lambda>(a, b, c).
     (let a = a + read8 m p;
          a = a + push_bit 8 (read8 m (p + 1));
          a = a + push_bit 16 (read8 m (p + 2));
          a = a + push_bit 24 (read8 m (p + 3));
          b = b + read8 m (p + 4);
          b = b + push_bit 8 (read8 m (p + 5));
          b = b + push_bit 16 (read8 m (p + 6));
          b = b + push_bit 24 (read8 m (p + 7));
          c = c + read8 m (p + 8);
          c = c + push_bit 8 (read8 m (p + 9));
          c = c + push_bit 16 (read8 m (p + 10));
          c = c + push_bit 24 (read8 m (p + 11))
      in mix (a, b, c)))"

text \<open>The switch over the last bytes; its cases fall through, so case \<open>i\<close> runs for every length from
  \<open>i\<close> to 12.\<close>

definition tail8 :: "memory \<Rightarrow> nat \<times> nat \<times> abc \<Rightarrow> bool \<times> abc" where
  "tail8 m = (\<lambda>(p, len, a, b, c).
     (let from = (\<lambda>i. i \<le> len \<and> len \<le> 12);
          c = (if from 12 then c + push_bit 24 (read8 m (p + 11)) else c);
          c = (if from 11 then c + push_bit 16 (read8 m (p + 10)) else c);
          c = (if from 10 then c + push_bit 8 (read8 m (p + 9)) else c);
          c = (if from 9 then c + read8 m (p + 8) else c);
          b = (if from 8 then b + push_bit 24 (read8 m (p + 7)) else b);
          b = (if from 7 then b + push_bit 16 (read8 m (p + 6)) else b);
          b = (if from 6 then b + push_bit 8 (read8 m (p + 5)) else b);
          b = (if from 5 then b + read8 m (p + 4) else b);
          a = (if from 4 then a + push_bit 24 (read8 m (p + 3)) else a);
          a = (if from 3 then a + push_bit 16 (read8 m (p + 2)) else a);
          a = (if from 2 then a + push_bit 8 (read8 m (p + 1)) else a);
          a = (if from 1 then a + read8 m p else a)
      in (from 1, a, b, c)))"

definition hashlittle_body :: "memory \<Rightarrow> nat \<Rightarrow> nat \<Rightarrow> abc \<Rightarrow> abc" where
  "hashlittle_body m key len s =
     (if HASH_LITTLE_ENDIAN \<and> key mod 4 = 0 then finish (tail32 m (block_loop (block32 m) key len s))
      else if HASH_LITTLE_ENDIAN \<and> key mod 2 = 0 then finish (tail16 m (block_loop (block16 m) key len s))
      else finish (tail8 m (block_loop (block8 m) key len s)))"

definition hashlittle :: "memory \<Rightarrow> nat \<Rightarrow> nat \<Rightarrow> uint32 \<Rightarrow> uint32" where
  "hashlittle m key len initval =
     (let s = 0xdeadbeef + of_nat len + initval; (a, b, c) = hashlittle_body m key len (s, s, s) in c)"

definition hashlittle2 :: "memory \<Rightarrow> nat \<Rightarrow> nat \<Rightarrow> uint32 \<Rightarrow> uint32 \<Rightarrow> uint32 \<times> uint32" where
  "hashlittle2 m key len pc pb =
     (let s = 0xdeadbeef + of_nat len + pc; (a, b, c) = hashlittle_body m key len (s, s, s + pb)
      in (c, b))"

section \<open>Byte strings, most significant byte first\<close>

definition read32be :: "memory \<Rightarrow> nat \<Rightarrow> uint32" where
  "read32be m p = push_bit 24 (read8 m p) + push_bit 16 (read8 m (p + 1)) + push_bit 8 (read8 m (p + 2))
     + read8 m (p + 3)"

definition block32be :: "memory \<Rightarrow> nat \<Rightarrow> abc \<Rightarrow> abc" where
  "block32be m p = (\<lambda>(a, b, c).
     mix (a + read32be m p, b + read32be m (p + 4), c + read32be m (p + 8)))"

definition tail32be :: "memory \<Rightarrow> nat \<times> nat \<times> abc \<Rightarrow> bool \<times> abc" where
  "tail32be m = (\<lambda>(p, len, a, b, c).
     (let k0 = read32be m p; k1 = read32be m (p + 4); k2 = read32be m (p + 8) in
      if len = 12 then (True, a + k0, b + k1, c + k2)
      else if len = 11 then (True, a + k0, b + k1, c + (k2 AND 0xffffff00))
      else if len = 10 then (True, a + k0, b + k1, c + (k2 AND 0xffff0000))
      else if len = 9 then (True, a + k0, b + k1, c + (k2 AND 0xff000000))
      else if len = 8 then (True, a + k0, b + k1, c)
      else if len = 7 then (True, a + k0, b + (k1 AND 0xffffff00), c)
      else if len = 6 then (True, a + k0, b + (k1 AND 0xffff0000), c)
      else if len = 5 then (True, a + k0, b + (k1 AND 0xff000000), c)
      else if len = 4 then (True, a + k0, b, c)
      else if len = 3 then (True, a + (k0 AND 0xffffff00), b, c)
      else if len = 2 then (True, a + (k0 AND 0xffff0000), b, c)
      else if len = 1 then (True, a + (k0 AND 0xff000000), b, c)
      else (False, a, b, c)))"

definition block8be :: "memory \<Rightarrow> nat \<Rightarrow> abc \<Rightarrow> abc" where
  "block8be m p = (\<lambda>(a, b, c).
     (let a = a + push_bit 24 (read8 m p);
          a = a + push_bit 16 (read8 m (p + 1));
          a = a + push_bit 8 (read8 m (p + 2));
          a = a + read8 m (p + 3);
          b = b + push_bit 24 (read8 m (p + 4));
          b = b + push_bit 16 (read8 m (p + 5));
          b = b + push_bit 8 (read8 m (p + 6));
          b = b + read8 m (p + 7);
          c = c + push_bit 24 (read8 m (p + 8));
          c = c + push_bit 16 (read8 m (p + 9));
          c = c + push_bit 8 (read8 m (p + 10));
          c = c + read8 m (p + 11)
      in mix (a, b, c)))"

definition tail8be :: "memory \<Rightarrow> nat \<times> nat \<times> abc \<Rightarrow> bool \<times> abc" where
  "tail8be m = (\<lambda>(p, len, a, b, c).
     (let from = (\<lambda>i. i \<le> len \<and> len \<le> 12);
          c = (if from 12 then c + read8 m (p + 11) else c);
          c = (if from 11 then c + push_bit 8 (read8 m (p + 10)) else c);
          c = (if from 10 then c + push_bit 16 (read8 m (p + 9)) else c);
          c = (if from 9 then c + push_bit 24 (read8 m (p + 8)) else c);
          b = (if from 8 then b + read8 m (p + 7) else b);
          b = (if from 7 then b + push_bit 8 (read8 m (p + 6)) else b);
          b = (if from 6 then b + push_bit 16 (read8 m (p + 5)) else b);
          b = (if from 5 then b + push_bit 24 (read8 m (p + 4)) else b);
          a = (if from 4 then a + read8 m (p + 3) else a);
          a = (if from 3 then a + push_bit 8 (read8 m (p + 2)) else a);
          a = (if from 2 then a + push_bit 16 (read8 m (p + 1)) else a);
          a = (if from 1 then a + push_bit 24 (read8 m p) else a)
      in (from 1, a, b, c)))"

text \<open>The choice of the path is an argument, so that both paths can be compared; the functions of the
  source pass \<^const>\<open>HASH_BIG_ENDIAN\<close>.\<close>

definition hashbig_body :: "bool \<Rightarrow> memory \<Rightarrow> nat \<Rightarrow> nat \<Rightarrow> abc \<Rightarrow> abc" where
  "hashbig_body big m key len s =
     (if big \<and> key mod 4 = 0 then finish (tail32be m (block_loop (block32be m) key len s))
      else finish (tail8be m (block_loop (block8be m) key len s)))"

definition hashbig :: "memory \<Rightarrow> nat \<Rightarrow> nat \<Rightarrow> uint32 \<Rightarrow> uint32" where
  "hashbig m key len initval =
     (let s = 0xdeadbeef + of_nat len + initval;
          (a, b, c) = hashbig_body HASH_BIG_ENDIAN m key len (s, s, s) in c)"

definition hashbig2 :: "memory \<Rightarrow> nat \<Rightarrow> nat \<Rightarrow> uint32 \<Rightarrow> uint32 \<Rightarrow> uint32 \<times> uint32" where
  "hashbig2 m key len pc pb =
     (let s = 0xdeadbeef + of_nat len + pc;
          (a, b, c) = hashbig_body HASH_BIG_ENDIAN m key len (s, s, s + pb) in (c, b))"

section \<open>The callers\<close>

text \<open>\<^verbatim>\<open>hash_any\<close> on a machine that does not define \<^verbatim>\<open>WORDS_BIGENDIAN\<close>.\<close>

definition hash_any :: "memory \<Rightarrow> nat \<Rightarrow> nat \<Rightarrow> uint32" where
  "hash_any m k keylen = hashlittle m k keylen 3923095"

definition hash_uint32 :: "uint32 \<Rightarrow> uint32" where
  "hash_uint32 k = (let (a, b, c) = mix (0xdeadbeef + k, 0xdeadbeef, 3923095 + 4) in c)"

definition hashchar :: "8 word \<Rightarrow> uint32" where
  "hashchar x = NOT (scast x)"

definition hashint2 :: "16 word \<Rightarrow> uint32" where
  "hashint2 x = NOT (scast x)"

definition hashint4 :: "32 word \<Rightarrow> uint32" where
  "hashint4 x = NOT x"

definition hashint8 :: "64 word \<Rightarrow> uint32" where
  "hashint8 val =
     (let lohalf = ucast val :: uint32;
          hihalf = ucast (signed_drop_bit 32 val) :: uint32;
          lohalf = lohalf XOR (if 0 \<le> sint val then hihalf else NOT hihalf)
      in NOT lohalf)"

definition hashoid :: "uint32 \<Rightarrow> uint32" where
  "hashoid x = NOT x"

text \<open>A byte string placed at address 0, zeroes behind it.\<close>

definition mem_of :: "uint8 list \<Rightarrow> memory" where
  "mem_of bs i = (if i < length bs then bs ! i else 0)"

definition string_hash :: "uint8 list \<Rightarrow> 64 word \<Rightarrow> uint32" where
  "string_hash key keysize = hash_any (mem_of key) 0 (unat (min (of_nat (length key)) (keysize - 1)))"

end
