(* ===== verification/RM_HashFunc_Props.thy ===== *)
theory RM_HashFunc_Props
  imports RM_HashFunc
begin

text \<open>
  The properties of the hash functions: the read paths agree and only the bytes of the key matter, the
  word and the byte versions agree, \<^verbatim>\<open>mix\<close> is reversible, and the hashes of the integer types agree on
  equal values.
\<close>

section \<open>Reads\<close>

lemma unat8_lt: "unat (x :: 8 word) < 256"
  using unsigned_less [of x, where ?'a = nat] by simp

lemma unat_sum_bytes:
  fixes x0 x1 x2 x3 :: "8 word"
  shows "unat (ucast x0 + push_bit 8 (ucast x1) + push_bit 16 (ucast x2) + push_bit 24 (ucast x3) :: 32 word)
    = unat x0 + 2 ^ 8 * unat x1 + 2 ^ 16 * unat x2 + 2 ^ 24 * unat x3"
proof -
  have "(ucast x0 + push_bit 8 (ucast x1) + push_bit 16 (ucast x2) + push_bit 24 (ucast x3) :: 32 word)
    = of_nat (unat x0 + 2 ^ 8 * unat x1 + 2 ^ 16 * unat x2 + 2 ^ 24 * unat x3)"
    by (simp add: push_bit_eq_mult mult.commute)
  also have "unat \<dots> = unat x0 + 2 ^ 8 * unat x1 + 2 ^ 16 * unat x2 + 2 ^ 24 * unat x3"
    using unat8_lt [of x0] unat8_lt [of x1] unat8_lt [of x2] unat8_lt [of x3]
    unfolding unat_of_nat by (intro mod_less) simp
  finally show ?thesis .
qed

lemma and_low_mask:
  "x AND 0xff = take_bit 8 (x :: 32 word)" "x AND 0xffff = take_bit 16 x" "x AND 0xffffff = take_bit 24 x"
  by (simp_all add: take_bit_eq_mask mask_eq_exp_minus_1)

lemma mod_bytes:
  fixes x0 x1 x2 x3 :: nat
  assumes "x0 < 256" "x1 < 256" "x2 < 256" "x3 < 256"
  shows "(x0 + 2 ^ 8 * x1 + 2 ^ 16 * x2 + 2 ^ 24 * x3) mod 2 ^ 8 = x0"
    "(x0 + 2 ^ 8 * x1 + 2 ^ 16 * x2 + 2 ^ 24 * x3) mod 2 ^ 16 = x0 + 2 ^ 8 * x1"
    "(x0 + 2 ^ 8 * x1 + 2 ^ 16 * x2 + 2 ^ 24 * x3) mod 2 ^ 24 = x0 + 2 ^ 8 * x1 + 2 ^ 16 * x2"
proof -
  have "x0 + 2 ^ 8 * x1 + 2 ^ 16 * x2 + 2 ^ 24 * x3 = x0 + 2 ^ 8 * (x1 + 2 ^ 8 * x2 + 2 ^ 16 * x3)"
    "x0 + 2 ^ 8 * x1 + 2 ^ 16 * x2 + 2 ^ 24 * x3 = x0 + 2 ^ 8 * x1 + 2 ^ 16 * (x2 + 2 ^ 8 * x3)"
    "x0 + 2 ^ 8 * x1 + 2 ^ 16 * x2 < 2 ^ 24" "x0 + 2 ^ 8 * x1 < 2 ^ 16" "x0 < 2 ^ 8"
    using assms by simp_all
  then show "(x0 + 2 ^ 8 * x1 + 2 ^ 16 * x2 + 2 ^ 24 * x3) mod 2 ^ 8 = x0"
    "(x0 + 2 ^ 8 * x1 + 2 ^ 16 * x2 + 2 ^ 24 * x3) mod 2 ^ 16 = x0 + 2 ^ 8 * x1"
    "(x0 + 2 ^ 8 * x1 + 2 ^ 16 * x2 + 2 ^ 24 * x3) mod 2 ^ 24 = x0 + 2 ^ 8 * x1 + 2 ^ 16 * x2"
    by (metis mod_less mod_mult_self2)+
qed

lemma take_bit_sum_bytes:
  fixes x0 x1 x2 x3 :: "8 word"
  defines "s \<equiv> ucast x0 + push_bit 8 (ucast x1) + push_bit 16 (ucast x2) + push_bit 24 (ucast x3) :: 32 word"
  shows "take_bit 8 s = ucast x0" "take_bit 16 s = ucast x0 + push_bit 8 (ucast x1)"
    "take_bit 24 s = ucast x0 + push_bit 8 (ucast x1) + push_bit 16 (ucast x2)"
proof -
  note b = unat8_lt [of x0] unat8_lt [of x1] unat8_lt [of x2] unat8_lt [of x3]
  have u: "unat (ucast x0 :: 32 word) = unat x0"
    "unat (ucast x0 + push_bit 8 (ucast x1) :: 32 word) = unat x0 + 2 ^ 8 * unat x1"
    "unat (ucast x0 + push_bit 8 (ucast x1) + push_bit 16 (ucast x2) :: 32 word)
      = unat x0 + 2 ^ 8 * unat x1 + 2 ^ 16 * unat x2"
    using unat_sum_bytes [of x0 0 0 0] unat_sum_bytes [of x0 x1 0 0] unat_sum_bytes [of x0 x1 x2 0]
    by simp_all
  have "(unat x0 + 2 ^ 8 * unat x1 + 2 ^ 16 * unat x2 + 2 ^ 24 * unat x3) mod 2 ^ 8 = unat x0"
    "(unat x0 + 2 ^ 8 * unat x1 + 2 ^ 16 * unat x2 + 2 ^ 24 * unat x3) mod 2 ^ 16 = unat x0 + 2 ^ 8 * unat x1"
    "(unat x0 + 2 ^ 8 * unat x1 + 2 ^ 16 * unat x2 + 2 ^ 24 * unat x3) mod 2 ^ 24
       = unat x0 + 2 ^ 8 * unat x1 + 2 ^ 16 * unat x2"
    using mod_bytes [OF b] by blast+
  then show "take_bit 8 s = ucast x0" "take_bit 16 s = ucast x0 + push_bit 8 (ucast x1)"
    "take_bit 24 s = ucast x0 + push_bit 8 (ucast x1) + push_bit 16 (ucast x2)"
    unfolding word_unat_eq_iff unsigned_take_bit_eq take_bit_nat_def s_def unat_sum_bytes u by simp_all
qed

lemma read32_mask:
  "read32 m p AND 0xff = read8 m p"
  "read32 m p AND 0xffff = read8 m p + push_bit 8 (read8 m (p + 1))"
  "read32 m p AND 0xffffff = read8 m p + push_bit 8 (read8 m (p + 1)) + push_bit 16 (read8 m (p + 2))"
  unfolding and_low_mask read32_def read8_def by (rule take_bit_sum_bytes)+

lemma read16_read16: "read16 m p + push_bit 16 (read16 m (p + 2)) = read32 m p"
  by (simp add: read16_def read32_def push_bit_eq_mult algebra_simps eval_nat_numeral)

lemmas read16_pair = read16_read16 read16_read16 [simplified]

lemma and_not_low: "x AND NOT (mask n) = x - take_bit n (x :: 32 word)"
proof -
  have "take_bit n x + (x AND NOT (mask n)) = take_bit n x OR (x AND NOT (mask n))"
    by (rule disjunctive_add) (simp add: bit_simps)
  also have "\<dots> = x"
    by (rule bit_eqI) (auto simp add: bit_simps)
  finally show ?thesis by (simp add: algebra_simps)
qed

section \<open>The three read paths agree\<close>

lemmas hash_defs = block32_def block16_def block8_def tail32_def tail16_def tail8_def

lemma block16_eq: "block16 m p s = block32 m p s"
proof -
  have "read16 m (p + 4) + push_bit 16 (read16 m (p + 6)) = read32 m (p + 4)"
    "read16 m (p + 8) + push_bit 16 (read16 m (p + 10)) = read32 m (p + 8)"
    using read16_read16 [of m "p + 4"] read16_read16 [of m "p + 8"] by (simp_all add: ac_simps)
  then show ?thesis
    by (simp add: hash_defs read16_pair split: prod.splits)
qed

lemma block8_eq: "block8 m p s = block32 m p s"
  by (simp add: hash_defs read32_def Let_def ac_simps split: prod.splits)

lemma le_12_cases:
  assumes "len \<le> (12 :: nat)"
  shows "len = 0 \<or> len = 1 \<or> len = 2 \<or> len = 3 \<or> len = 4 \<or> len = 5 \<or> len = 6 \<or> len = 7 \<or> len = 8 \<or>
    len = 9 \<or> len = 10 \<or> len = 11 \<or> len = 12"
  using assms by presburger

lemma tail8_eq:
  assumes "len \<le> 12"
  shows "tail8 m (p, len, s) = tail32 m (p, len, s)"
  using le_12_cases [OF assms]
  by (elim disjE) (simp_all add: hash_defs read32_mask, simp_all add: read32_def ac_simps split: prod.splits)

lemma tail16_eq:
  assumes "len \<le> 12"
  shows "tail16 m (p, len, s) = tail32 m (p, len, s)"
proof -
  have eq: "read16 m (p + 4) + push_bit 16 (read16 m (p + 6)) = read32 m (p + 4)"
    "read16 m (p + 8) + push_bit 16 (read16 m (p + 10)) = read32 m (p + 8)"
    using read16_read16 [of m "p + 4"] read16_read16 [of m "p + 8"] by (simp_all add: ac_simps)
  show ?thesis
    using le_12_cases [OF assms]
    by (elim disjE) (simp_all add: hash_defs read32_mask read16_pair eq,
        simp_all add: read16_def ac_simps split: prod.splits)
qed

lemma block_loop_cong: "(\<And>p s. f p s = g p s) \<Longrightarrow> block_loop f p len s = block_loop g p len s"
  by (induction g p len s rule: block_loop.induct) (metis block_loop.simps)

lemma block_loop_len: "fst (snd (block_loop f p len s)) \<le> 12"
  by (induction f p len s rule: block_loop.induct) (subst block_loop.simps, simp)

definition path32 :: "memory \<Rightarrow> nat \<Rightarrow> nat \<Rightarrow> abc \<Rightarrow> abc" where
  "path32 m key len s = finish (tail32 m (block_loop (block32 m) key len s))"

definition path8 :: "memory \<Rightarrow> nat \<Rightarrow> nat \<Rightarrow> abc \<Rightarrow> abc" where
  "path8 m key len s = finish (tail8 m (block_loop (block8 m) key len s))"

lemma path8_eq: "path8 m key len s = path32 m key len s"
proof -
  have "block_loop (block8 m) key len s = block_loop (block32 m) key len s"
    by (rule block_loop_cong) (rule block8_eq)
  then show ?thesis
    unfolding path8_def path32_def
    using block_loop_len [of "block32 m" key len s] tail8_eq by (metis prod.collapse)
qed

lemma hashlittle_body_path: "hashlittle_body m key len s = path32 m key len s"
proof -
  have 16: "block_loop (block16 m) key len s = block_loop (block32 m) key len s"
    by (rule block_loop_cong) (rule block16_eq)
  have "finish (tail16 m (block_loop (block16 m) key len s)) = path32 m key len s"
    unfolding path32_def 16
    using block_loop_len [of "block32 m" key len s] tail16_eq by (metis prod.collapse)
  then show ?thesis
    using path8_eq [of m key len s] by (simp add: hashlittle_body_def path32_def path8_def)
qed


section \<open>Only the bytes of the key matter\<close>

definition same_bytes :: "memory \<Rightarrow> nat \<Rightarrow> memory \<Rightarrow> nat \<Rightarrow> nat \<Rightarrow> bool" where
  "same_bytes m p m' p' len \<longleftrightarrow> (\<forall>i < len. m (p + i) = m' (p' + i))"

lemma same_bytes_read8: "same_bytes m p m' p' len \<Longrightarrow> i < len \<Longrightarrow> read8 m (p + i) = read8 m' (p' + i)"
  by (simp add: same_bytes_def read8_def)

lemma same_bytes_read8_0:
  assumes "same_bytes m p m' p' len"
  shows "0 < len \<Longrightarrow> read8 m p = read8 m' p'" "1 < len \<Longrightarrow> read8 m (Suc p) = read8 m' (Suc p')"
    "2 < len \<Longrightarrow> read8 m (Suc (Suc p)) = read8 m' (Suc (Suc p'))"
  using same_bytes_read8 [OF assms, of 0] same_bytes_read8 [OF assms, of 1] same_bytes_read8 [OF assms, of 2]
  by simp_all

lemma same_bytes_drop: "same_bytes m p m' p' len \<Longrightarrow> same_bytes m (p + k) m' (p' + k) (len - k)"
  by (auto simp: same_bytes_def add.assoc)

lemma path8_same:
  "same_bytes m p m' p' len \<Longrightarrow>
     tail8 m (block_loop (block8 m) p len s) = tail8 m' (block_loop (block8 m') p' len s)"
proof (induction len arbitrary: p p' s rule: less_induct)
  case (less len)
  note r = same_bytes_read8 [OF less.prems] same_bytes_read8_0 [OF less.prems]
  show ?case
  proof (cases "len > 12")
    case True
    then have "block8 m p s = block8 m' p' s"
      by (simp add: block8_def r)
    moreover have "tail8 m (block_loop (block8 m) (p + 12) (len - 12) t)
        = tail8 m' (block_loop (block8 m') (p' + 12) (len - 12) t)" for t
      using less.IH [OF _ same_bytes_drop [OF less.prems, of 12]] True by simp
    ultimately show ?thesis
      using True by (subst (1 2) block_loop.simps) simp
  next
    case False
    then have "tail8 m (p, len, s) = tail8 m' (p', len, s)"
      unfolding tail8_def by (simp add: r Let_def split: prod.splits cong: if_cong)
    with False show ?thesis
      by (subst (1 2) block_loop.simps) simp
  qed
qed

lemma hashlittle_body_same:
  assumes "same_bytes m p m' p' len"
  shows "hashlittle_body m p len s = hashlittle_body m' p' len s"
  using path8_same [OF assms, of s]
  by (simp add: hashlittle_body_path path8_eq [symmetric] path8_def)


section \<open>The big-endian functions\<close>

lemma and_high_mask:
  "x AND 0xffffff00 = x - take_bit 8 (x :: 32 word)" "x AND 0xffff0000 = x - take_bit 16 x"
  "x AND 0xff000000 = x - take_bit 24 x"
proof -
  have m: "(0xffffff00 :: 32 word) = NOT (mask 8)" "(0xffff0000 :: 32 word) = NOT (mask 16)"
    "(0xff000000 :: 32 word) = NOT (mask 24)"
    by code_simp+
  show "x AND 0xffffff00 = x - take_bit 8 x" "x AND 0xffff0000 = x - take_bit 16 x"
    "x AND 0xff000000 = x - take_bit 24 x"
    unfolding m by (rule and_not_low)+
qed

lemma read32be_mask:
  "read32be m p AND 0xffffff00 = push_bit 24 (read8 m p) + push_bit 16 (read8 m (p + 1)) + push_bit 8 (read8 m (p + 2))"
  "read32be m p AND 0xffff0000 = push_bit 24 (read8 m p) + push_bit 16 (read8 m (p + 1))"
  "read32be m p AND 0xff000000 = push_bit 24 (read8 m p)"
proof -
  have be: "read32be m p = ucast (m (p + 3)) + push_bit 8 (ucast (m (p + 2))) + push_bit 16 (ucast (m (p + 1)))
      + push_bit 24 (ucast (m p))"
    by (simp add: read32be_def read8_def ac_simps)
  show "read32be m p AND 0xffffff00 = push_bit 24 (read8 m p) + push_bit 16 (read8 m (p + 1)) + push_bit 8 (read8 m (p + 2))"
    "read32be m p AND 0xffff0000 = push_bit 24 (read8 m p) + push_bit 16 (read8 m (p + 1))"
    "read32be m p AND 0xff000000 = push_bit 24 (read8 m p)"
    unfolding and_high_mask be take_bit_sum_bytes by (simp_all add: read8_def)
qed

lemmas hashbe_defs = block32be_def block8be_def tail32be_def tail8be_def

lemma block8be_eq: "block8be m p s = block32be m p s"
  by (simp add: hashbe_defs read32be_def Let_def ac_simps split: prod.splits)

lemma tail8be_eq:
  assumes "len \<le> 12"
  shows "tail8be m (p, len, s) = tail32be m (p, len, s)"
  using le_12_cases [OF assms]
  by (elim disjE) (simp_all add: hashbe_defs read32be_mask, simp_all add: read32be_def ac_simps split: prod.splits)

lemma hashbig_body_path:
  "hashbig_body big m key len s = finish (tail32be m (block_loop (block32be m) key len s))"
proof -
  have "block_loop (block8be m) key len s = block_loop (block32be m) key len s"
    by (rule block_loop_cong) (rule block8be_eq)
  then show ?thesis
    unfolding hashbig_body_def
    using block_loop_len [of "block32be m" key len s] tail8be_eq by (metis prod.collapse)
qed

section \<open>Words and bytes\<close>

lemma block_loop_words:
  assumes blk: "\<And>p a b c. blk p (a, b, c) = mix (a + rd p, b + rd (p + 4), c + rd (p + 8))"
    and k: "\<And>i. k i = rd (key + 4 * i)"
  shows "block_loop blk (key + 4 * i) (4 * len) s =
    (case hashword_loop k i len s of (i', len', s') \<Rightarrow> (key + 4 * i', 4 * len', s'))"
proof (induction len arbitrary: i s rule: less_induct)
  case (less len)
  obtain a b c where s: "s = (a, b, c)" by (cases s)
  show ?case
  proof (cases "len > 3")
    case True
    have "blk (key + 4 * i) s = mix (a + k i, b + k (i + 1), c + k (i + 2))"
      by (simp add: s blk k algebra_simps)
    moreover have "key + 4 * i + 12 = key + 4 * (i + 3)" "4 * len - 12 = 4 * (len - 3)" by simp_all
    ultimately show ?thesis
      using True less.IH [of "len - 3" "i + 3"] unfolding s
      by (subst block_loop.simps, subst hashword_loop.simps) (simp add: add.assoc)
  next
    case False
    then show ?thesis
      unfolding s by (subst block_loop.simps, subst hashword_loop.simps) simp
  qed
qed

lemma hashword_loop_len: "fst (snd (hashword_loop k i len s)) \<le> 3"
proof (induction len arbitrary: i s rule: less_induct)
  case (less len)
  obtain a b c where "s = (a, b, c)" by (cases s)
  then show ?case
    using less by (simp add: hashword_loop.simps [of k i len])
qed

lemma tail32_words:
  "len \<le> 3 \<Longrightarrow> tail32 m (p + 4 * i, 4 * len, s) = hashword_tail (\<lambda>i. read32 m (p + 4 * i)) (i, len, s)"
  by (cases s) (auto simp: tail32_def hashword_tail_def Let_def algebra_simps)

lemma tail32be_words:
  "len \<le> 3 \<Longrightarrow> tail32be m (p + 4 * i, 4 * len, s) = hashword_tail (\<lambda>i. read32be m (p + 4 * i)) (i, len, s)"
  by (cases s) (auto simp: tail32be_def hashword_tail_def Let_def algebra_simps)

definition word_path :: "(nat \<Rightarrow> uint32) \<Rightarrow> nat \<Rightarrow> abc \<Rightarrow> abc" where
  "word_path k len s = finish (hashword_tail k (hashword_loop k 0 len s))"

lemma hashlittle_body_words:
  "hashlittle_body m key (4 * len) s = word_path (\<lambda>i. read32 m (key + 4 * i)) len s"
proof -
  let ?k = "\<lambda>i. read32 m (key + 4 * i)"
  have "block_loop (block32 m) (key + 4 * 0) (4 * len) s =
    (case hashword_loop ?k 0 len s of (i', len', s') \<Rightarrow> (key + 4 * i', 4 * len', s'))"
    by (rule block_loop_words) (simp_all add: block32_def)
  then show ?thesis
    using hashword_loop_len [of ?k 0 len s] tail32_words [of _ m key]
    by (simp add: hashlittle_body_path path32_def word_path_def split: prod.splits)
qed

lemma hashbig_body_words:
  "hashbig_body big m key (4 * len) s = word_path (\<lambda>i. read32be m (key + 4 * i)) len s"
proof -
  let ?k = "\<lambda>i. read32be m (key + 4 * i)"
  have "block_loop (block32be m) (key + 4 * 0) (4 * len) s =
    (case hashword_loop ?k 0 len s of (i', len', s') \<Rightarrow> (key + 4 * i', 4 * len', s'))"
    by (rule block_loop_words) (simp_all add: block32be_def)
  then show ?thesis
    using hashword_loop_len [of ?k 0 len s] tail32be_words [of _ m key]
    by (simp add: hashbig_body_path word_path_def split: prod.splits)
qed

section \<open>Reversibility of mix\<close>

text \<open>\<^verbatim>\<open>mix\<close> is six rounds of one step on rotated arguments; the step has an inverse.\<close>

definition mix_step :: "nat \<Rightarrow> abc \<Rightarrow> abc" where
  "mix_step k = (\<lambda>(x, y, z). (y, z + y, (x - z) XOR rot z k))"

definition unmix_step :: "nat \<Rightarrow> abc \<Rightarrow> abc" where
  "unmix_step k = (\<lambda>(y, z, x). ((x XOR rot (z - y) k) + (z - y), y, z - y))"

lemma mix_steps: "mix s = mix_step 4 (mix_step 19 (mix_step 16 (mix_step 8 (mix_step 6 (mix_step 4 s)))))"
  by (cases s) (simp add: mix_def mix_step_def Let_def)

lemma unmix_mix_step [simp]: "unmix_step k (mix_step k s) = s" "mix_step k (unmix_step k s) = s"
  by (simp_all add: mix_step_def unmix_step_def xor.assoc split: prod.splits)

definition unmix :: "abc \<Rightarrow> abc" where
  "unmix s = unmix_step 4 (unmix_step 6 (unmix_step 8 (unmix_step 16 (unmix_step 19 (unmix_step 4 s)))))"

lemma unmix_mix: "unmix (mix s) = s" "mix (unmix s) = s"
  by (simp_all add: unmix_def mix_steps)


lemma word_seed: "push_bit 2 (of_nat len) = (of_nat (4 * len) :: 32 word)" "push_bit 2 len = 4 * (len :: nat)"
  by (simp_all add: push_bit_eq_mult mult.commute)

lemmas hash_fun_defs = hashlittle_def hashbig_def hashlittle2_def hashbig2_def hashword_def hashword2_def

lemma hashint8_eq:
  "hashint8 v = NOT (ucast v XOR (if bit v 63 then NOT (ucast (drop_bit 32 v)) else ucast (drop_bit 32 v)))"
proof -
  have "ucast (signed_drop_bit 32 v) = (ucast (drop_bit 32 v) :: 32 word)"
    by (rule bit_eqI) (auto simp: bit_simps)
  moreover have "0 \<le> sint v \<longleftrightarrow> \<not> bit v 63"
    using bit_last_iff [of v] by (simp add: not_less)
  ultimately show ?thesis by (simp add: hashint8_def)
qed

lemma hashint8_scast:
  fixes x :: "'a :: len word"
  assumes "LENGTH('a) \<le> 32"
  shows "hashint8 (scast x) = NOT (scast x)"
proof -
  have hi: "ucast (drop_bit 32 (scast x :: 64 word)) = (if bit x (LENGTH('a) - 1) then - 1 else 0 :: 32 word)"
    by (rule bit_eqI) (use assms in \<open>auto simp: bit_simps min_def\<close>)
  have lo: "ucast (scast x :: 64 word) = (scast x :: 32 word)"
    by (rule bit_eqI) (use assms in \<open>auto simp: bit_simps\<close>)
  have "bit (scast x :: 64 word) 63 = bit x (LENGTH('a) - 1)"
    using assms by (auto simp: bit_simps min_def)
  then show ?thesis by (simp add: hashint8_eq hi lo)
qed

section \<open>Properties\<close>

text \<open>C28: \<^verbatim>\<open>hash_any\<close> is a function of the key's bytes alone: two keys with the same bytes hash alike
  wherever they are stored.  So the three read paths (the alignment of the address) agree, and the
  bytes behind the key that the 32-bit path loads have no influence.\<close>

theorem hash_any_bytes_only:
  assumes "\<forall>i < keylen. m (k + i) = m' (k' + i)"
  shows "hash_any m k keylen = hash_any m' k' keylen \<and>
    hashlittle2 m k keylen pc pb = hashlittle2 m' k' keylen pc pb"
  using hashlittle_body_same [of m k m' k' keylen] assms
  by (simp add: same_bytes_def hash_any_def hashlittle_def hashlittle2_def)

theorem hash_any_bytes_only_witness:
  "hash_any (\<lambda>i. of_nat i) 4 5 = hash_any (\<lambda>i. of_nat (i - 3)) 7 5"
  using hash_any_bytes_only [of 5 "\<lambda>i. of_nat i" 4 "\<lambda>i. of_nat (i - 3)" 7] by simp

text \<open>C29: A key of whole words hashes the same as words and as bytes: \<^verbatim>\<open>hashlittle\<close> agrees with
  \<^verbatim>\<open>hashword\<close> on the words read least significant byte first, \<^verbatim>\<open>hashbig\<close> on the words read most
  significant byte first, and so do the versions with two results.\<close>

theorem hashword_agrees:
  "hashlittle m key (4 * len) initval = hashword (\<lambda>i. read32 m (key + 4 * i)) len initval \<and>
   hashbig m key (4 * len) initval = hashword (\<lambda>i. read32be m (key + 4 * i)) len initval \<and>
   hashlittle2 m key (4 * len) pc pb = hashword2 (\<lambda>i. read32 m (key + 4 * i)) len pc pb \<and>
   hashbig2 m key (4 * len) pc pb = hashword2 (\<lambda>i. read32be m (key + 4 * i)) len pc pb"
  unfolding hash_fun_defs word_seed hashlittle_body_words hashbig_body_words word_path_def by simp

text \<open>With a zero second seed, the first result of the functions with two results is the result of
  those with one.\<close>

theorem hash2_first_result:
  "fst (hashword2 k len pc 0) = hashword k len pc \<and>
   fst (hashlittle2 m key n pc 0) = hashlittle m key n pc \<and>
   fst (hashbig2 m key n pc 0) = hashbig m key n pc"
  unfolding hash_fun_defs word_seed by (simp add: Let_def split: prod.splits)

text \<open>C30: \<^verbatim>\<open>mix\<close> is reversible: it is a bijection on triples of words.\<close>

theorem mix_reversible: "bij mix"
  by (rule o_bij [of unmix]) (auto simp: unmix_mix)

text \<open>The hash functions of the signed integer types agree on equal values, as cross-type hash
  joins need: a value hashes the same as an int2, an int4 and an int8.\<close>

theorem hashint_cross_type:
  "hashint8 (scast (x :: 32 word)) = hashint4 x \<and> hashint4 (scast (y :: 16 word)) = hashint2 y \<and>
   hashint8 (scast y) = hashint2 y"
  using hashint8_scast [of x] hashint8_scast [of y] by (simp add: hashint4_def hashint2_def)

text \<open>\<^verbatim>\<open>hash_uint32\<close> does not give the hash of the four bytes of its argument, although its comment
  promises the result of \<^verbatim>\<open>hash_any\<close>: for 0 the two differ.\<close>

theorem hash_uint32_differs:
  "hash_uint32 0 \<noteq> hash_any (mem_of [0, 0, 0, 0]) 0 4"
  by code_simp

end
