(* ===== verification/RM_HashTable.thy ===== *)
theory RM_HashTable
  imports RM_HashFunc
begin

text \<open>
  The chained hash table of \<^verbatim>\<open>utils/hashtable.c\<close> and \<^verbatim>\<open>utils/pair.c\<close>.  A slot is the list of its
  (key, value) pairs; a table carries its hash and comparison functions, as the C structure does, and
  the counters at their width.  Freed values are returned as lists.  The interface of a keyed store
  is the locale \<open>keyed_store\<close>; it is interpreted on the table for every key type.
\<close>

section \<open>Keys\<close>

text \<open>A key is a pointer-sized integer, a string (with the length field of its \<^verbatim>\<open>SimpString\<close>) or an
  array of bytes.  \<^verbatim>\<open>UINT32\<close> and \<^verbatim>\<open>VOIDPT\<close> keys are hashed and compared by \<^verbatim>\<open>*(uint32_t *)&data\<close>, the low
  half of the pointer on a little-endian machine.\<close>

definition HASHTABLE_Hash_UINT32 :: "uint64 \<Rightarrow> uint32" where
  "HASHTABLE_Hash_UINT32 data = ucast data"

definition HASHTABLE_Hash_VOIDPT :: "uint64 \<Rightarrow> uint32" where
  "HASHTABLE_Hash_VOIDPT data = ucast data"

record SimpString =
  ss_Str :: "uint8 list"
  ss_Len :: int

definition HASHTABLE_Hash_SIMPSTR :: "SimpString \<Rightarrow> uint32" where
  "HASHTABLE_Hash_SIMPSTR data = string_hash (ss_Str data) (of_int (ss_Len data))"

definition HASHTABLE_Hash_CHARARRAY :: "uint8 list \<Rightarrow> uint32" where
  "HASHTABLE_Hash_CHARARRAY data = hash_any (mem_of data) 0 (length data)"

definition HASHTABLE_Comp_UINT32 :: "uint64 \<Rightarrow> uint64 \<Rightarrow> uint32" where
  "HASHTABLE_Comp_UINT32 val1 val2 = ucast val1 - ucast val2"

definition HASHTABLE_Comp_VOIDPT :: "uint64 \<Rightarrow> uint64 \<Rightarrow> uint32" where
  "HASHTABLE_Comp_VOIDPT val1 val2 = ucast val1 - ucast val2"

text \<open>\<^verbatim>\<open>strcmp\<close> on strings without their terminators: the difference at the first position where they
  differ, the terminator counting as 0.\<close>

fun strcmp :: "uint8 list \<Rightarrow> uint8 list \<Rightarrow> int" where
  "strcmp [] [] = 0"
| "strcmp [] (y # ys) = 0 - uint y"
| "strcmp (x # xs) [] = uint x"
| "strcmp (x # xs) (y # ys) = (if x = y then strcmp xs ys else uint x - uint y)"

definition HASHTABLE_Comp_SIMPSTR :: "SimpString \<Rightarrow> SimpString \<Rightarrow> uint32" where
  "HASHTABLE_Comp_SIMPSTR val1 val2 = of_int (strcmp (ss_Str val1) (ss_Str val2))"

text \<open>\<^verbatim>\<open>SimpleArrayComp\<close>: the loop over the common prefix, then the difference of the lengths.\<close>

fun prefix_diff :: "uint8 list \<Rightarrow> uint8 list \<Rightarrow> int" where
  "prefix_diff (x # xs) (y # ys) = (let val = uint x - uint y in if val \<noteq> 0 then val else prefix_diff xs ys)"
| "prefix_diff _ _ = 0"

definition SimpleArrayComp :: "uint8 list \<Rightarrow> uint8 list \<Rightarrow> int" where
  "SimpleArrayComp array1 array2 =
     (let val = prefix_diff array1 array2 in
      if val \<noteq> 0 then val
      else if length array1 = length array2 then 0 else int (length array1) - int (length array2))"

definition HASHTABLE_Comp_CHARARRAY :: "uint8 list \<Rightarrow> uint8 list \<Rightarrow> uint32" where
  "HASHTABLE_Comp_CHARARRAY val1 val2 = of_int (SimpleArrayComp val1 val2)"

section \<open>The table\<close>

type_synonym ('k, 'v) PAIR = "'k \<times> 'v option"

record ('k, 'v) HASHTABLE =
  HashFunction :: "'k \<Rightarrow> uint32"
  CompFunction :: "'k \<Rightarrow> 'k \<Rightarrow> uint32"
  ValFreeFunction :: bool
  Slots :: "('k, 'v) PAIR list list"
  ht_NodeCount :: uint32
  SlotCount :: uint32
  SlotVolume :: uint32
  SlotVolumeMax :: uint32
  SlotExtendBar :: double

text \<open>\<^verbatim>\<open>keytype\<close> selects the functions; here they are passed directly.  Whether a value free function
  is set is a flag: its effect is the list of freed values the operations return.\<close>

definition initializeHASHTABLE ::
    "('k \<Rightarrow> uint32) \<Rightarrow> ('k \<Rightarrow> 'k \<Rightarrow> uint32) \<Rightarrow> int \<Rightarrow> int \<Rightarrow> bool \<Rightarrow> ('k, 'v) HASHTABLE" where
  "initializeHASHTABLE hash cmp vol maxvol valfree =
     \<lparr>HashFunction = hash, CompFunction = cmp, ValFreeFunction = valfree,
      Slots = replicate (unat (of_int vol :: uint32)) [], ht_NodeCount = 0, SlotCount = 0,
      SlotVolume = of_int vol, SlotVolumeMax = of_int maxvol, SlotExtendBar = 1 / 2\<rparr>"

definition slot_of :: "('k, 'v) HASHTABLE \<Rightarrow> 'k \<Rightarrow> nat" where
  "slot_of t key = unat (HashFunction t key mod SlotVolume t)"

text \<open>The body of the loop of \<^verbatim>\<open>extendHASHTABLESlotSize\<close>: append a pair to its new slot, counting the
  slot when it was empty.\<close>

definition rehash_pair ::
    "('k \<Rightarrow> uint32) \<Rightarrow> uint32 \<Rightarrow> ('k, 'v) PAIR list list \<times> uint32 \<Rightarrow> ('k, 'v) PAIR
     \<Rightarrow> ('k, 'v) PAIR list list \<times> uint32" where
  "rehash_pair hash newsize acc pair =
     (let (newslot, slotcount) = acc;
          newindex = unat (hash (fst pair) mod newsize);
          slotcount = (if newslot ! newindex = [] then slotcount + 1 else slotcount)
      in (newslot[newindex := newslot ! newindex @ [pair]], slotcount))"

definition extendHASHTABLESlotSize :: "('k, 'v) HASHTABLE \<Rightarrow> uint32 \<Rightarrow> ('k, 'v) HASHTABLE" where
  "extendHASHTABLESlotSize t newsize =
     (if newsize \<le> SlotVolume t then t
      else
        let (newslot, slotcount) =
              foldl (rehash_pair (HashFunction t) newsize) (replicate (unat newsize) [], 0) (concat (Slots t))
        in t\<lparr>SlotCount := slotcount, Slots := newslot, SlotVolume := newsize\<rparr>)"

text \<open>Replace the value of the first pair of a slot whose key matches; the old value, if one matched.\<close>

fun update_bucket ::
    "('k \<Rightarrow> 'k \<Rightarrow> uint32) \<Rightarrow> 'k \<Rightarrow> 'v option \<Rightarrow> ('k, 'v) PAIR list
     \<Rightarrow> 'v option option \<times> ('k, 'v) PAIR list" where
  "update_bucket cmp key value [] = (None, [])"
| "update_bucket cmp key value (p # ps) =
     (if cmp key (fst p) = 0 then (Some (snd p), (fst p, value) # ps)
      else let (old, ps') = update_bucket cmp key value ps in (old, p # ps'))"

text \<open>The three parts of \<^verbatim>\<open>setHASHTABLENode\<close>: update the pair of the key or append a new one, double the
  slots when the quotient of used slots and slots, an integer division, exceeds the bar, and free the
  old value when asked to.\<close>

definition insertOrUpdatePair ::
    "('k, 'v) HASHTABLE \<Rightarrow> 'k \<Rightarrow> 'v option \<Rightarrow> 'v option \<times> ('k, 'v) HASHTABLE" where
  "insertOrUpdatePair t key value =
     (let slot = slot_of t key;
          t = (if Slots t ! slot = [] then t\<lparr>SlotCount := SlotCount t + 1\<rparr> else t);
          (old, bucket) = update_bucket (CompFunction t) key value (Slots t ! slot)
      in case old of
           None \<Rightarrow> (None, t\<lparr>Slots := (Slots t)[slot := Slots t ! slot @ [(key, value)]],
                            ht_NodeCount := ht_NodeCount t + 1\<rparr>)
         | Some v \<Rightarrow> (v, t\<lparr>Slots := (Slots t)[slot := bucket]\<rparr>))"

definition extendWhenFull :: "('k, 'v) HASHTABLE \<Rightarrow> ('k, 'v) HASHTABLE" where
  "extendWhenFull t =
     (if of_nat (unat (SlotCount t div SlotVolume t)) > SlotExtendBar t \<and> SlotVolume t < SlotVolumeMax t
      then extendHASHTABLESlotSize t
             (if SlotVolume t * 2 > SlotVolumeMax t then SlotVolumeMax t else SlotVolume t * 2)
      else t)"

definition setHASHTABLENode ::
    "('k, 'v) HASHTABLE \<Rightarrow> 'k \<Rightarrow> 'v option \<Rightarrow> bool \<Rightarrow> 'v option \<times> 'v list \<times> ('k, 'v) HASHTABLE" where
  "setHASHTABLENode t key value freeOld =
     (let (res, t) = insertOrUpdatePair t key value;
          t = extendWhenFull t
      in case res of
           Some v \<Rightarrow> if freeOld then (None, [v], t) else (res, [], t)
         | None \<Rightarrow> (None, [], t))"

definition getHASHTABLENode :: "('k, 'v) HASHTABLE \<Rightarrow> 'k \<Rightarrow> ('k, 'v) PAIR option" where
  "getHASHTABLENode t key = List.find (\<lambda>p. CompFunction t (fst p) key = 0) (Slots t ! slot_of t key)"

text \<open>The pair removed from a slot, and the rest.\<close>

fun remove_bucket ::
    "('k \<Rightarrow> 'k \<Rightarrow> uint32) \<Rightarrow> 'k \<Rightarrow> ('k, 'v) PAIR list \<Rightarrow> ('k, 'v) PAIR option \<times> ('k, 'v) PAIR list" where
  "remove_bucket cmp key [] = (None, [])"
| "remove_bucket cmp key (p # ps) =
     (if cmp (fst p) key = 0 then (Some p, ps)
      else let (old, ps') = remove_bucket cmp key ps in (old, p # ps'))"

definition removeHASHTABLENode ::
    "('k, 'v) HASHTABLE \<Rightarrow> 'k \<Rightarrow> drm_code \<times> 'v option list \<times> ('k, 'v) HASHTABLE" where
  "removeHASHTABLENode t key =
     (let slot = slot_of t key in
      if length (Slots t ! slot) = 0 then (UTIL_HASHTABLE_NOKEY, [], t)
      else
        let (old, bucket) = remove_bucket (CompFunction t) key (Slots t ! slot) in
        case old of
          None \<Rightarrow> (UTIL_HASHTABLE_NOKEY, [], t)
        | Some curnode \<Rightarrow>
            (FUNC_RETURN_OK,
             if ValFreeFunction t then [snd curnode] else [],
             t\<lparr>Slots := (Slots t)[slot := bucket],
               SlotCount := (if bucket = [] then SlotCount t - 1 else SlotCount t),
               ht_NodeCount := ht_NodeCount t - 1\<rparr>))"

definition clearHASHTABLE :: "('k, 'v) HASHTABLE \<Rightarrow> 'v option list \<times> ('k, 'v) HASHTABLE" where
  "clearHASHTABLE t =
     (if ValFreeFunction t then map snd (concat (Slots t)) else [],
      t\<lparr>Slots := replicate (length (Slots t)) [], ht_NodeCount := 0, SlotCount := 0\<rparr>)"

definition getHASHTABLESize :: "('k, 'v) HASHTABLE \<Rightarrow> uint32" where
  "getHASHTABLESize t = ht_NodeCount t"

definition getHASHTABLEVolume :: "('k, 'v) HASHTABLE \<Rightarrow> uint32" where
  "getHASHTABLEVolume t = SlotVolume t"

definition getAllPAIRRefIntoList ::
    "('k, 'v) HASHTABLE \<Rightarrow> ('k, 'v) PAIR list \<Rightarrow> ('k, 'v) PAIR list" where
  "getAllPAIRRefIntoList t lst = lst @ concat (Slots t)"

section \<open>Key laws\<close>

text \<open>What the table relies on: comparison is an equivalence on the valid keys, and the hash respects it.\<close>

locale key_functions =
  fixes hash :: "'k \<Rightarrow> uint32" and cmp :: "'k \<Rightarrow> 'k \<Rightarrow> uint32" and ok :: "'k \<Rightarrow> bool"
  assumes cmp_refl: "ok k \<Longrightarrow> cmp k k = 0"
    and cmp_sym: "ok k \<Longrightarrow> ok k' \<Longrightarrow> cmp k k' = 0 \<Longrightarrow> cmp k' k = 0"
    and cmp_trans: "ok k \<Longrightarrow> ok k' \<Longrightarrow> ok k'' \<Longrightarrow> cmp k k' = 0 \<Longrightarrow> cmp k' k'' = 0 \<Longrightarrow> cmp k k'' = 0"
    and cmp_hash: "ok k \<Longrightarrow> ok k' \<Longrightarrow> cmp k k' = 0 \<Longrightarrow> hash k = hash k'"

interpretation key_uint32: key_functions HASHTABLE_Hash_UINT32 HASHTABLE_Comp_UINT32 "\<lambda>_. True"
  by unfold_locales (auto simp: HASHTABLE_Hash_UINT32_def HASHTABLE_Comp_UINT32_def)

interpretation key_voidpt: key_functions HASHTABLE_Hash_VOIDPT HASHTABLE_Comp_VOIDPT "\<lambda>_. True"
  by unfold_locales (auto simp: HASHTABLE_Hash_VOIDPT_def HASHTABLE_Comp_VOIDPT_def)

text \<open>A valid string key holds no terminator and records its length; a valid array key is shorter than
  \<open>2 ^ 31\<close> bytes.\<close>

definition simpstr_ok :: "SimpString \<Rightarrow> bool" where
  "simpstr_ok k \<longleftrightarrow> 0 \<notin> set (ss_Str k) \<and> ss_Len k = int (length (ss_Str k))"

definition chararray_ok :: "uint8 list \<Rightarrow> bool" where
  "chararray_ok k \<longleftrightarrow> length k < 2 ^ 31"

lemma of_int_small_eq_0:
  assumes "\<bar>i\<bar> < 2 ^ 31"
  shows "(of_int i :: 32 word) = 0 \<longleftrightarrow> i = 0"
proof -
  have "(of_int i :: 32 word) = 0 \<longleftrightarrow> i mod 2 ^ 32 = 0"
    using word_of_int_eq_iff [of i 0, where ?'a = 32] by (simp add: take_bit_eq_mod)
  also have "\<dots> \<longleftrightarrow> i = 0"
    using assms zdvd_not_zless [of "\<bar>i\<bar>" "2 ^ 32"] by (auto simp: mod_eq_0_iff_dvd)
  finally show ?thesis .
qed

lemma uint8_bounds: "0 \<le> uint (x :: 8 word)" "uint (x :: 8 word) < 256"
  using uint_lt2p [of x] by simp_all

lemma uint8_diff: "\<bar>uint (x :: 8 word) - uint (y :: 8 word)\<bar> < 256"
  using uint8_bounds [of x] uint8_bounds [of y] by linarith

lemma uint_eq: "uint x = uint y \<longleftrightarrow> x = y"
  by (simp add: word_uint_eq_iff)

lemma strcmp_eq_0:
  "0 \<notin> set xs \<Longrightarrow> 0 \<notin> set ys \<Longrightarrow> strcmp xs ys = 0 \<longleftrightarrow> xs = ys"
  by (induction xs ys rule: strcmp.induct) (auto simp: uint_0_iff uint_eq)

lemma strcmp_bound: "\<bar>strcmp xs ys\<bar> < 256"
  by (induction xs ys rule: strcmp.induct)
    (use uint8_bounds in \<open>auto simp: uint8_diff\<close>)

lemma comp_simpstr_eq_0:
  assumes "simpstr_ok k" "simpstr_ok k'"
  shows "HASHTABLE_Comp_SIMPSTR k k' = 0 \<longleftrightarrow> k = k'"
proof -
  have "HASHTABLE_Comp_SIMPSTR k k' = 0 \<longleftrightarrow> strcmp (ss_Str k) (ss_Str k') = 0"
    unfolding HASHTABLE_Comp_SIMPSTR_def using strcmp_bound [of "ss_Str k" "ss_Str k'"]
    by (intro of_int_small_eq_0) simp
  then show ?thesis
    using assms by (cases k; cases k') (auto simp: strcmp_eq_0 simpstr_ok_def)
qed

interpretation key_simpstr: key_functions HASHTABLE_Hash_SIMPSTR HASHTABLE_Comp_SIMPSTR simpstr_ok
  by unfold_locales (auto simp: comp_simpstr_eq_0)

lemma prefix_diff_bound: "\<bar>prefix_diff xs ys\<bar> < 256"
  by (induction xs ys rule: prefix_diff.induct) (auto simp: Let_def uint8_diff)

lemma prefix_diff_eq_0: "length xs = length ys \<Longrightarrow> prefix_diff xs ys = 0 \<longleftrightarrow> xs = ys"
  by (induction xs ys rule: prefix_diff.induct) (auto simp: Let_def uint_eq)

lemma SimpleArrayComp_eq_0: "SimpleArrayComp xs ys = 0 \<longleftrightarrow> xs = ys"
  using prefix_diff_eq_0 [of xs ys] prefix_diff_eq_0 [of xs xs] by (auto simp: SimpleArrayComp_def Let_def)

lemma comp_chararray_eq_0:
  assumes "chararray_ok k" "chararray_ok k'"
  shows "HASHTABLE_Comp_CHARARRAY k k' = 0 \<longleftrightarrow> k = k'"
proof -
  have "\<bar>SimpleArrayComp k k'\<bar> < 2 ^ 31"
    using assms prefix_diff_bound [of k k'] by (auto simp: SimpleArrayComp_def Let_def chararray_ok_def)
  then show ?thesis
    by (simp add: HASHTABLE_Comp_CHARARRAY_def of_int_small_eq_0 SimpleArrayComp_eq_0)
qed

interpretation key_chararray: key_functions HASHTABLE_Hash_CHARARRAY HASHTABLE_Comp_CHARARRAY chararray_ok
  by unfold_locales (auto simp: comp_chararray_eq_0)

section \<open>Invariant and abstraction\<close>

definition bucket_distinct :: "('k \<Rightarrow> 'k \<Rightarrow> uint32) \<Rightarrow> ('k, 'v) PAIR list \<Rightarrow> bool" where
  "bucket_distinct cmp b \<longleftrightarrow> sorted_wrt (\<lambda>p q. cmp (fst p) (fst q) \<noteq> 0) b"

definition slots_inv ::
    "('k \<Rightarrow> uint32) \<Rightarrow> ('k \<Rightarrow> 'k \<Rightarrow> uint32) \<Rightarrow> ('k \<Rightarrow> bool) \<Rightarrow> uint32 \<Rightarrow> ('k, 'v) PAIR list list \<Rightarrow> bool" where
  "slots_inv hash cmp ok vol ss \<longleftrightarrow> 0 < vol \<and> length ss = unat vol \<and>
     (\<forall>i < length ss. bucket_distinct cmp (ss ! i) \<and>
        (\<forall>p \<in> set (ss ! i). ok (fst p) \<and> unat (hash (fst p) mod vol) = i))"

definition used :: "'a list list \<Rightarrow> nat" where
  "used ss = length (filter (\<lambda>b. b \<noteq> []) ss)"

definition ht_inv ::
    "('k \<Rightarrow> uint32) \<Rightarrow> ('k \<Rightarrow> 'k \<Rightarrow> uint32) \<Rightarrow> ('k \<Rightarrow> bool) \<Rightarrow> ('k, 'v) HASHTABLE \<Rightarrow> bool" where
  "ht_inv hash cmp ok t \<longleftrightarrow> HashFunction t = hash \<and> CompFunction t = cmp \<and>
     slots_inv hash cmp ok (SlotVolume t) (Slots t) \<and>
     SlotCount t = of_nat (used (Slots t)) \<and> ht_NodeCount t = of_nat (length (concat (Slots t)))"

definition pairs :: "('k, 'v) HASHTABLE \<Rightarrow> ('k, 'v) PAIR set" where
  "pairs t = set (concat (Slots t))"

text \<open>The value stored under a key.\<close>

definition ht_get :: "('k, 'v) HASHTABLE \<Rightarrow> 'k \<Rightarrow> 'v option option" where
  "ht_get t key = map_option snd (getHASHTABLENode t key)"

definition ht_set :: "('k, 'v) HASHTABLE \<Rightarrow> 'k \<Rightarrow> 'v option \<Rightarrow> ('k, 'v) HASHTABLE" where
  "ht_set t key value = snd (snd (setHASHTABLENode t key value False))"

definition ht_remove :: "('k, 'v) HASHTABLE \<Rightarrow> 'k \<Rightarrow> ('k, 'v) HASHTABLE" where
  "ht_remove t key = snd (snd (removeHASHTABLENode t key))"

section \<open>Lists of slots\<close>

lemma option_eq_iff: "(\<And>w. x = Some w \<longleftrightarrow> y = Some w) \<Longrightarrow> x = y"
  by (cases x; cases y) auto

lemma unat_mod_less: "0 < vol \<Longrightarrow> unat (h mod vol) < unat (vol :: 32 word)"
  by (simp add: unat_mod_distrib word_less_nat_alt)

lemma used_Cons [simp]: "used (b # ss) = (if b = [] then used ss else Suc (used ss))"
  by (simp add: used_def)

lemma used_replicate [simp]: "used (replicate n []) = 0"
  by (simp add: used_def)

lemma used_update: "i < length ss \<Longrightarrow> used (ss[i := b]) + of_bool (ss ! i \<noteq> []) = used ss + of_bool (b \<noteq> [])"
proof (induction ss arbitrary: i)
  case (Cons c ss)
  then show ?case
  proof (cases i)
    case (Suc j)
    with Cons.prems Cons.IH [of j] show ?thesis by simp
  qed auto
qed simp

lemma used_le: "used ss \<le> length ss"
  by (simp add: used_def)

lemma used_pos: "i < length ss \<Longrightarrow> ss ! i \<noteq> [] \<Longrightarrow> 0 < used ss"
  using nth_mem by (fastforce simp: used_def filter_empty_conv)

lemma concat_update_length:
  "i < length ss \<Longrightarrow> length (concat (ss[i := b])) + length (ss ! i) = length (concat ss) + length b"
  by (induction ss arbitrary: i) (auto split: nat.splits)

lemma concat_update_set:
  "i < length ss \<Longrightarrow> set (concat (ss[i := b])) = set b \<union> (\<Union>j \<in> {..<length ss} - {i}. set (ss ! j))"
  by (fastforce simp: in_set_conv_nth nth_list_update split: if_splits)

lemma set_concat_nth: "set (concat ss) = (\<Union>j < length ss. set (ss ! j))"
  by (fastforce simp: in_set_conv_nth)

lemma find_unique:
  assumes "\<And>p q. p \<in> set b \<Longrightarrow> q \<in> set b \<Longrightarrow> P p \<Longrightarrow> P q \<Longrightarrow> p = q"
  shows "List.find P b = Some p \<longleftrightarrow> p \<in> set b \<and> P p"
  using assms by (induction b) auto

lemma update_bucket_None:
  "update_bucket cmp key v b = (None, b') \<Longrightarrow> b' = b \<and> (\<forall>p \<in> set b. cmp key (fst p) \<noteq> 0)"
  by (induction b arbitrary: b') (auto split: if_splits prod.splits)

lemma update_bucket_Some:
  "update_bucket cmp key v b = (Some old, b') \<Longrightarrow>
     \<exists>us k ws. b = us @ (k, old) # ws \<and> b' = us @ (k, v) # ws \<and> cmp key k = 0"
proof (induction b arbitrary: b')
  case (Cons p ps)
  show ?case
  proof (cases "cmp key (fst p) = 0")
    case True
    with Cons.prems show ?thesis
      by (intro exI [of _ "[]"] exI [of _ "fst p"] exI [of _ ps]) auto
  next
    case False
    with Cons.prems obtain ps' where "update_bucket cmp key v ps = (Some old, ps')" "b' = p # ps'"
      by (auto split: prod.splits)
    with Cons.IH obtain us k ws where "ps = us @ (k, old) # ws" "ps' = us @ (k, v) # ws" "cmp key k = 0"
      by blast
    with \<open>b' = p # ps'\<close> show ?thesis
      by (intro exI [of _ "p # us"] exI [of _ k] exI [of _ ws]) auto
  qed
qed simp

lemma remove_bucket_None:
  "remove_bucket cmp key b = (None, b') \<Longrightarrow> \<forall>p \<in> set b. cmp (fst p) key \<noteq> 0"
  by (induction b arbitrary: b') (auto split: if_splits prod.splits)

lemma remove_bucket_Some:
  "remove_bucket cmp key b = (Some p, b') \<Longrightarrow>
     \<exists>us ws. b = us @ p # ws \<and> b' = us @ ws \<and> cmp (fst p) key = 0"
proof (induction b arbitrary: b')
  case (Cons q ps)
  show ?case
  proof (cases "cmp (fst q) key = 0")
    case True
    with Cons.prems show ?thesis
      by (intro exI [of _ "[]"] exI [of _ ps]) auto
  next
    case False
    with Cons.prems obtain ps' where "remove_bucket cmp key ps = (Some p, ps')" "b' = q # ps'"
      by (auto split: prod.splits)
    with Cons.IH obtain us ws where "ps = us @ p # ws" "ps' = us @ ws" "cmp (fst p) key = 0"
      by blast
    with \<open>b' = q # ps'\<close> show ?thesis
      by (intro exI [of _ "q # us"] exI [of _ ws]) auto
  qed
qed simp

section \<open>The operations keep the invariant and implement a keyed store\<close>

text \<open>The sum of the weights of the values of a table.\<close>

definition pair_sum :: "('v option \<Rightarrow> 'a :: comm_monoid_add) \<Rightarrow> ('k, 'v) HASHTABLE \<Rightarrow> 'a" where
  "pair_sum w t = (\<Sum>p \<in> pairs t. w (snd p))"

context key_functions
begin

lemma cmp_commute: "ok k \<Longrightarrow> ok k' \<Longrightarrow> cmp k k' = 0 \<longleftrightarrow> cmp k' k = 0"
  using cmp_sym by blast

lemma slots_ok: "slots_inv hash cmp ok vol ss \<Longrightarrow> p \<in> set (concat ss) \<Longrightarrow> ok (fst p)"
  by (auto simp: slots_inv_def in_set_conv_nth) (metis nth_mem fst_conv)

lemma slots_index:
  "slots_inv hash cmp ok vol ss \<Longrightarrow> i < length ss \<Longrightarrow> p \<in> set (ss ! i) \<Longrightarrow> unat (hash (fst p) mod vol) = i"
  by (auto simp: slots_inv_def)

lemma slot_less: "slots_inv hash cmp ok vol ss \<Longrightarrow> unat (hash k mod vol) < length ss"
  by (simp add: slots_inv_def unat_mod_less)

text \<open>A pair whose key matches \<open>k\<close> is in the slot of \<open>k\<close>.\<close>

lemma match_in_slot:
  assumes "slots_inv hash cmp ok vol ss" "ok k" "p \<in> set (concat ss)" "cmp (fst p) k = 0"
  shows "p \<in> set (ss ! unat (hash k mod vol))"
proof -
  obtain i where "i < length ss" "p \<in> set (ss ! i)"
    using assms(3) unfolding set_concat_nth by auto
  moreover have "hash (fst p) = hash k"
    using cmp_hash slots_ok assms by blast
  ultimately show ?thesis
    using slots_index assms(1) by metis
qed

lemma bucket_unique:
  assumes "bucket_distinct cmp b" "\<And>p. p \<in> set b \<Longrightarrow> ok (fst p)" "p \<in> set b" "q \<in> set b"
    "cmp (fst p) (fst q) = 0"
  shows "p = q"
proof -
  obtain i j where ij: "i < length b" "p = b ! i" "j < length b" "q = b ! j"
    using assms(3,4) by (auto simp: in_set_conv_nth)
  have "cmp (fst q) (fst p) = 0"
    using assms cmp_sym by blast
  with assms(5) have "\<not> i < j" "\<not> j < i"
    using assms(1) ij unfolding bucket_distinct_def sorted_wrt_iff_nth_less by blast+
  with ij show ?thesis by simp
qed

lemma get_iff:
  assumes "ht_inv hash cmp ok t" "ok k"
  shows "getHASHTABLENode t k = Some p \<longleftrightarrow> p \<in> pairs t \<and> cmp (fst p) k = 0"
proof -
  let ?i = "unat (hash k mod SlotVolume t)"
  have inv: "slots_inv hash cmp ok (SlotVolume t) (Slots t)" and f: "HashFunction t = hash" "CompFunction t = cmp"
    using assms by (auto simp: ht_inv_def)
  have i: "?i < length (Slots t)"
    using inv by (rule slot_less)
  then have sub: "set (Slots t ! ?i) \<subseteq> set (concat (Slots t))"
    unfolding set_concat_nth by auto
  have "List.find (\<lambda>p. cmp (fst p) k = 0) (Slots t ! ?i) = Some p \<longleftrightarrow> p \<in> set (Slots t ! ?i) \<and> cmp (fst p) k = 0"
  proof (rule find_unique)
    fix p q assume pq: "p \<in> set (Slots t ! ?i)" "q \<in> set (Slots t ! ?i)" "cmp (fst p) k = 0" "cmp (fst q) k = 0"
    then have okpq: "ok (fst p)" "ok (fst q)"
      using slots_ok [OF inv] sub by blast+
    then have "cmp (fst p) (fst q) = 0"
      using pq assms(2) cmp_trans cmp_sym by blast
    moreover have "bucket_distinct cmp (Slots t ! ?i)"
      using inv i by (simp add: slots_inv_def)
    ultimately show "p = q"
      using bucket_unique pq slots_ok [OF inv] sub by blast
  qed
  then show ?thesis
    unfolding getHASHTABLENode_def slot_of_def f pairs_def
    using match_in_slot [OF inv assms(2)] sub by blast
qed

lemma ht_get_iff:
  assumes "ht_inv hash cmp ok t" "ok k"
  shows "ht_get t k = Some v \<longleftrightarrow> (\<exists>k'. (k', v) \<in> pairs t \<and> cmp k' k = 0)"
  using get_iff [OF assms] by (auto simp: ht_get_def)

text \<open>Replacing one slot by a list of pairs that belong there.\<close>

lemma slots_inv_update:
  assumes "slots_inv hash cmp ok vol ss" "i < length ss" "bucket_distinct cmp b"
    "\<And>p. p \<in> set b \<Longrightarrow> ok (fst p) \<and> unat (hash (fst p) mod vol) = i"
  shows "slots_inv hash cmp ok vol (ss[i := b])"
  using assms by (auto simp: slots_inv_def nth_list_update)

lemma other_slots_no_match:
  assumes "slots_inv hash cmp ok vol ss" "ok k" "j < length ss" "j \<noteq> unat (hash k mod vol)" "p \<in> set (ss ! j)"
  shows "cmp (fst p) k \<noteq> 0"
proof
  assume "cmp (fst p) k = 0"
  moreover have "p \<in> set (concat ss)"
    using assms unfolding set_concat_nth by auto
  ultimately have "hash (fst p) = hash k"
    using cmp_hash slots_ok assms by blast
  with assms slots_index show False by metis
qed

text \<open>When the slot of \<open>k\<close> is replaced by its pairs not matching \<open>k\<close> and some \<open>new\<close> ones, the pairs of
  the table are those not matching \<open>k\<close> and the new ones.\<close>

lemma pairs_update:
  assumes "slots_inv hash cmp ok vol ss" "ok k" "i = unat (hash k mod vol)"
    "set b = {p \<in> set (ss ! i). cmp (fst p) k \<noteq> 0} \<union> new"
  shows "set (concat (ss[i := b])) = {p \<in> set (concat ss). cmp (fst p) k \<noteq> 0} \<union> new"
proof -
  have i: "i < length ss"
    using assms slot_less by blast
  have "{p \<in> set (concat ss). cmp (fst p) k \<noteq> 0} =
      {p \<in> set (ss ! i). cmp (fst p) k \<noteq> 0} \<union> (\<Union>j \<in> {..<length ss} - {i}. set (ss ! j))"
    using i other_slots_no_match [OF assms(1,2)] assms(3) unfolding set_concat_nth by blast
  then show ?thesis
    unfolding concat_update_set [OF i] assms(4) by blast
qed

lemma insertOrUpdate_inv:
  fixes t :: "('k, 'v) HASHTABLE" and v :: "'v option"
  assumes inv: "ht_inv hash cmp ok t" and k: "ok k"
  defines "t' \<equiv> snd (insertOrUpdatePair t k v)"
  shows "ht_inv hash cmp ok t' \<and> (\<exists>k'. ok k' \<and> cmp k' k = 0 \<and>
      pairs t' = {p \<in> pairs t. cmp (fst p) k \<noteq> 0} \<union> {(k', v)})"
proof -
  let ?i = "unat (hash k mod SlotVolume t)" and ?ss = "Slots t"
  have si: "slots_inv hash cmp ok (SlotVolume t) ?ss" and f: "HashFunction t = hash" "CompFunction t = cmp"
    and cnt: "SlotCount t = of_nat (used ?ss)" "ht_NodeCount t = of_nat (length (concat ?ss))"
    using inv by (auto simp: ht_inv_def)
  have i: "?i < length ?ss" and slot: "slot_of t k = ?i"
    using si by (auto simp: slot_less slot_of_def f)
  have bd: "bucket_distinct cmp (?ss ! ?i)" and bi: "\<And>p. p \<in> set (?ss ! ?i) \<Longrightarrow> ok (fst p) \<and> unat (hash (fst p) mod SlotVolume t) = ?i"
    using si i by (auto simp: slots_inv_def)
  obtain old b where ub: "update_bucket cmp k v (?ss ! ?i) = (old, b)" by fastforce
  show ?thesis
  proof (cases old)
    case None
    let ?b = "?ss ! ?i @ [(k, v)]"
    have nomatch: "cmp k (fst p) \<noteq> 0" if "p \<in> set (?ss ! ?i)" for p
      using update_bucket_None ub None that by fastforce
    then have nomatch': "cmp (fst p) k \<noteq> 0" if "p \<in> set (?ss ! ?i)" for p
      using that bi cmp_sym k by blast
    have "slots_inv hash cmp ok (SlotVolume t) (?ss[?i := ?b])"
      by (rule slots_inv_update [OF si i]) (use bd bi nomatch' k in \<open>auto simp: bucket_distinct_def sorted_wrt_append\<close>)
    moreover have "set (concat (?ss[?i := ?b])) = {p \<in> set (concat ?ss). cmp (fst p) k \<noteq> 0} \<union> {(k, v)}"
      by (rule pairs_update [OF si k refl]) (use nomatch' in auto)
    moreover have "used (?ss[?i := ?b]) = used ?ss + of_bool (?ss ! ?i = [])"
      using used_update [OF i, of ?b] by (auto simp: of_bool_def split: if_splits)
    moreover have "length (concat (?ss[?i := ?b])) = length (concat ?ss) + 1"
      using concat_update_length [OF i, of ?b] by simp
    ultimately show ?thesis
      using None ub k cmp_refl cnt f
      by (auto simp: t'_def insertOrUpdatePair_def slot ht_inv_def pairs_def Let_def simp del: set_concat length_concat)
  next
    case (Some o')
    then obtain us k' ws where b: "?ss ! ?i = us @ (k', o') # ws" "b = us @ (k', v) # ws" "cmp k k' = 0"
      using update_bucket_Some ub by metis
    have k': "ok k'" and k'i: "unat (hash k' mod SlotVolume t) = ?i"
      using bi [of "(k', o')"] b(1) by simp_all
    have k'2: "cmp k' k = 0"
      using cmp_sym k k' b(3) by blast
    have "cmp (fst p) k \<noteq> 0" if "p \<in> set us \<union> set ws" for p
    proof
      assume m: "cmp (fst p) k = 0"
      have "ok (fst p)"
        using that bi b(1) by auto
      then have "cmp (fst p) k' = 0" "cmp k' (fst p) = 0"
        using m b(3) k k' cmp_trans cmp_sym by blast+
      then show False
        using that bd unfolding b(1) by (auto simp: bucket_distinct_def sorted_wrt_append)
    qed
    then have "set b = {p \<in> set (?ss ! ?i). cmp (fst p) k \<noteq> 0} \<union> {(k', v)}"
      using k'2 by (auto simp: b)
    then have "set (concat (?ss[?i := b])) = {p \<in> set (concat ?ss). cmp (fst p) k \<noteq> 0} \<union> {(k', v)}"
      by (rule pairs_update [OF si k refl])
    moreover have "slots_inv hash cmp ok (SlotVolume t) (?ss[?i := b])"
      by (rule slots_inv_update [OF si i])
        (use bd bi k' k'i in \<open>auto simp: b bucket_distinct_def sorted_wrt_append\<close>)
    moreover have "used (?ss[?i := b]) = used ?ss" "length (concat (?ss[?i := b])) = length (concat ?ss)"
      using used_update [OF i, of b] concat_update_length [OF i, of b] by (simp_all add: b)
    ultimately show ?thesis
      using Some ub k' k'2 cnt f b
      by (auto simp: t'_def insertOrUpdatePair_def slot ht_inv_def pairs_def Let_def simp del: set_concat length_concat)
  qed
qed

lemma remove_inv:
  assumes inv: "ht_inv hash cmp ok t" and k: "ok k"
  shows "ht_inv hash cmp ok (ht_remove t k) \<and> pairs (ht_remove t k) = {p \<in> pairs t. cmp (fst p) k \<noteq> 0}"
proof -
  let ?i = "unat (hash k mod SlotVolume t)" and ?ss = "Slots t"
  have si: "slots_inv hash cmp ok (SlotVolume t) ?ss" and f: "HashFunction t = hash" "CompFunction t = cmp"
    and cnt: "SlotCount t = of_nat (used ?ss)" "ht_NodeCount t = of_nat (length (concat ?ss))"
    using inv by (auto simp: ht_inv_def)
  have i: "?i < length ?ss" and slot: "slot_of t k = ?i"
    using si by (auto simp: slot_less slot_of_def f)
  have bd: "bucket_distinct cmp (?ss ! ?i)" and bi: "\<And>p. p \<in> set (?ss ! ?i) \<Longrightarrow> ok (fst p) \<and> unat (hash (fst p) mod SlotVolume t) = ?i"
    using si i by (auto simp: slots_inv_def)
  obtain old b where rb: "remove_bucket cmp k (?ss ! ?i) = (old, b)" by fastforce
  show ?thesis
  proof (cases old)
    case None
    have "cmp (fst p) k \<noteq> 0" if "p \<in> set (?ss ! ?i)" for p
      using remove_bucket_None rb None that by metis
    then have "{p \<in> set (concat ?ss). cmp (fst p) k \<noteq> 0} = set (concat ?ss)"
      using match_in_slot [OF si k] by blast
    then show ?thesis
      using None rb inv by (simp add: ht_remove_def removeHASHTABLENode_def slot f pairs_def Let_def del: set_concat)
  next
    case (Some q)
    then obtain us ws where b: "?ss ! ?i = us @ q # ws" "b = us @ ws" "cmp (fst q) k = 0"
      using remove_bucket_Some rb by metis
    have q: "ok (fst q)" using bi b(1) by simp
    have nm: "cmp (fst p) k \<noteq> 0" if "p \<in> set us \<union> set ws" for p
    proof
      assume "cmp (fst p) k = 0"
      moreover have "ok (fst p)" using that bi b(1) by auto
      ultimately have "cmp (fst p) (fst q) = 0" "cmp (fst q) (fst p) = 0"
        using b(3) k q cmp_trans cmp_sym by blast+
      then show False
        using that bd unfolding b(1) by (auto simp: bucket_distinct_def sorted_wrt_append)
    qed
    then have "set b = {p \<in> set (?ss ! ?i). cmp (fst p) k \<noteq> 0} \<union> {}"
      using b by auto
    then have "set (concat (?ss[?i := b])) = {p \<in> set (concat ?ss). cmp (fst p) k \<noteq> 0}"
      using pairs_update [OF si k refl, of b "{}"] by simp
    moreover have "slots_inv hash cmp ok (SlotVolume t) (?ss[?i := b])"
      by (rule slots_inv_update [OF si i]) (use bd bi in \<open>auto simp: b bucket_distinct_def sorted_wrt_append\<close>)
    moreover have "used (?ss[?i := b]) + 1 = used ?ss + of_bool (b \<noteq> [])"
      "length (concat (?ss[?i := b])) + 1 = length (concat ?ss)"
      using used_update [OF i, of b] concat_update_length [OF i, of b] by (simp_all add: b(1,2))
    then have "of_nat (used (?ss[?i := b])) = SlotCount t - (if b = [] then 1 else 0)"
      "of_nat (length (concat (?ss[?i := b]))) = ht_NodeCount t - 1"
      unfolding cnt by (auto simp: of_bool_def algebra_simps simp del: length_concat split: if_splits simp flip: of_nat_Suc)
    ultimately show ?thesis
      using Some rb f b(1)
      by (auto simp: ht_remove_def removeHASHTABLENode_def slot ht_inv_def pairs_def Let_def simp del: set_concat length_concat)
  qed
qed

text \<open>Rehashing: the pairs of all slots are distinct, and moving them one by one keeps the invariant of
  the new slots.\<close>

lemma concat_distinct:
  assumes "slots_inv hash cmp ok vol ss"
  shows "bucket_distinct cmp (concat ss)"
proof -
  have *: "cmp (fst p) (fst q) \<noteq> 0" if "i < j" "j < length ss" "p \<in> set (ss ! i)" "q \<in> set (ss ! j)" for i j p q
  proof
    assume eq: "cmp (fst p) (fst q) = 0"
    have "i < length ss" using that by simp
    then have "ok (fst p)" "ok (fst q)"
      using assms that unfolding slots_inv_def by blast+
    then have "hash (fst p) = hash (fst q)" using eq by (rule cmp_hash)
    moreover have "unat (hash (fst p) mod vol) = i" "unat (hash (fst q) mod vol) = j"
      using slots_index [OF assms] that \<open>i < length ss\<close> by blast+
    ultimately show False using that(1) by simp
  qed
  have "sorted_wrt (\<lambda>p q. cmp (fst p) (fst q) \<noteq> 0) (concat ss)"
    if "\<forall>i < length ss. bucket_distinct cmp (ss ! i)"
      "\<forall>i j p q. i < j \<longrightarrow> j < length ss \<longrightarrow> p \<in> set (ss ! i) \<longrightarrow> q \<in> set (ss ! j) \<longrightarrow> cmp (fst p) (fst q) \<noteq> 0"
    for ss :: "('k, 'v) PAIR list list"
    using that
  proof (induction ss)
    case (Cons b ss)
    have "bucket_distinct cmp b"
      using Cons.prems(1) [rule_format, of 0] by simp
    moreover have "\<forall>i < length ss. bucket_distinct cmp (ss ! i)"
      using Cons.prems(1) [rule_format, of "Suc _"] by simp
    moreover have "\<forall>i j p q. i < j \<longrightarrow> j < length ss \<longrightarrow> p \<in> set (ss ! i) \<longrightarrow> q \<in> set (ss ! j) \<longrightarrow> cmp (fst p) (fst q) \<noteq> 0"
      using Cons.prems(2) [rule_format, of "Suc _" "Suc _"] by simp
    moreover have "cmp (fst p) (fst q) \<noteq> 0" if pq: "p \<in> set b" "q \<in> set (concat ss)" for p q
    proof -
      obtain j where "j < length ss" "q \<in> set (ss ! j)"
        using pq(2) unfolding set_concat_nth by auto
      then show ?thesis
        using Cons.prems(2) [rule_format, of 0 "Suc j" p q] pq(1) by simp
    qed
    ultimately show ?case
      using Cons.IH by (simp add: bucket_distinct_def sorted_wrt_append del: set_concat)
  qed simp
  then show ?thesis
    using assms * unfolding bucket_distinct_def slots_inv_def by blast
qed

lemma rehash_pair_app:
  "rehash_pair h n (ss, c) p =
     (ss[unat (h (fst p) mod n) := ss ! unat (h (fst p) mod n) @ [p]],
      if ss ! unat (h (fst p) mod n) = [] then c + 1 else c)"
  by (simp add: rehash_pair_def Let_def)

lemma rehash_foldl:
  fixes ps :: "('k, 'v) PAIR list"
  assumes "0 < n" "bucket_distinct cmp ps" "\<And>p. p \<in> set ps \<Longrightarrow> ok (fst p)"
  shows "\<exists>ss. foldl (rehash_pair hash n) (replicate (unat n) [], 0) ps = (ss, of_nat (used ss)) \<and>
    slots_inv hash cmp ok n ss \<and> set (concat ss) = set ps \<and> length (concat ss) = length ps"
  using assms(2,3)
proof (induction ps rule: rev_induct)
  case Nil
  then show ?case
    using assms(1) by (auto simp: slots_inv_def bucket_distinct_def)
next
  case (snoc p ps)
  then obtain ss where ss: "foldl (rehash_pair hash n) (replicate (unat n) [], 0) ps = (ss, of_nat (used ss))"
    "slots_inv hash cmp ok n ss" "set (concat ss) = set ps" "length (concat ss) = length ps"
    by (auto simp: bucket_distinct_def sorted_wrt_append simp del: set_concat length_concat)
  let ?i = "unat (hash (fst p) mod n)"
  let ?b = "ss ! ?i @ [p]"
  have i: "?i < length ss"
    using ss(2) by (rule slot_less)
  have nm: "cmp (fst q) (fst p) \<noteq> 0" if "q \<in> set ps" for q
    using snoc.prems(1) that by (auto simp: bucket_distinct_def sorted_wrt_append)
  have sub: "set (ss ! ?i) \<subseteq> set ps"
    using i unfolding ss(3) [symmetric] set_concat_nth by auto
  have okp: "ok (fst p)" using snoc.prems(2) by simp
  have "slots_inv hash cmp ok n (ss[?i := ?b])"
    by (rule slots_inv_update [OF ss(2) i])
      (use ss(2) i nm sub okp in \<open>auto simp: slots_inv_def bucket_distinct_def sorted_wrt_append\<close>)
  moreover have "set (concat (ss[?i := ?b])) = insert p (\<Union>j < length ss. set (ss ! j))"
    unfolding concat_update_set [OF i] using i by auto
  then have "set (concat (ss[?i := ?b])) = insert p (set ps)"
    using ss(3) set_concat_nth [of ss] by simp
  moreover have "length (concat (ss[?i := ?b])) = Suc (length ps)"
    using concat_update_length [OF i, of ?b] ss(4) by simp
  moreover have "used (ss[?i := ?b]) = used ss + of_bool (ss ! ?i = [])"
    using used_update [OF i, of ?b] by (auto simp: of_bool_def split: if_splits)
  ultimately show ?case
    by (intro exI [of _ "ss[?i := ?b]"]) (simp add: ss(1) rehash_pair_app del: set_concat length_concat)
qed

lemma extend_inv:
  assumes "ht_inv hash cmp ok t"
  shows "ht_inv hash cmp ok (extendHASHTABLESlotSize t n) \<and> pairs (extendHASHTABLESlotSize t n) = pairs t"
proof (cases "n \<le> SlotVolume t")
  case True
  with assms show ?thesis by (simp add: extendHASHTABLESlotSize_def)
next
  case False
  have si: "slots_inv hash cmp ok (SlotVolume t) (Slots t)" and f: "HashFunction t = hash"
    and cnt: "ht_NodeCount t = of_nat (length (concat (Slots t)))"
    using assms by (auto simp: ht_inv_def)
  have "0 < n" using False si by (auto simp: slots_inv_def not_le intro: less_trans)
  then obtain ss where "foldl (rehash_pair hash n) (replicate (unat n) [], 0) (concat (Slots t)) = (ss, of_nat (used ss))"
    "slots_inv hash cmp ok n ss" "set (concat ss) = set (concat (Slots t))" "length (concat ss) = length (concat (Slots t))"
    using rehash_foldl [OF _ concat_distinct [OF si] slots_ok [OF si]] by blast
  with False f cnt assms show ?thesis
    by (simp add: extendHASHTABLESlotSize_def ht_inv_def pairs_def del: set_concat length_concat)
qed

lemma extendWhenFull_inv:
  assumes "ht_inv hash cmp ok t"
  shows "ht_inv hash cmp ok (extendWhenFull t)" "pairs (extendWhenFull t) = pairs t"
  using extend_inv [OF assms] assms by (auto simp: extendWhenFull_def)

lemma set_inv:
  assumes "ht_inv hash cmp ok t" "ok k"
  shows "ht_inv hash cmp ok (snd (snd (setHASHTABLENode t k v fr))) \<and>
    (\<exists>k'. ok k' \<and> cmp k' k = 0 \<and>
      pairs (snd (snd (setHASHTABLENode t k v fr))) = {p \<in> pairs t. cmp (fst p) k \<noteq> 0} \<union> {(k', v)})"
proof -
  have t': "snd (snd (setHASHTABLENode t k v fr)) = extendWhenFull (snd (insertOrUpdatePair t k v))"
    by (simp add: setHASHTABLENode_def Let_def split: prod.splits option.splits)
  obtain k' where 1: "ht_inv hash cmp ok (snd (insertOrUpdatePair t k v))" "ok k'" "cmp k' k = 0"
    "pairs (snd (insertOrUpdatePair t k v)) = {p \<in> pairs t. cmp (fst p) k \<noteq> 0} \<union> {(k', v)}"
    using insertOrUpdate_inv [OF assms, of v] by blast
  show ?thesis
    unfolding t' extendWhenFull_inv(2) [OF 1(1)] 1(4)
    using extendWhenFull_inv(1) [OF 1(1)] 1(2,3) by blast
qed

lemma pair_sum_set:
  assumes inv: "ht_inv hash cmp ok t" and k: "ok k"
  shows "pair_sum w (ht_set t k v) + (case ht_get t k of None \<Rightarrow> 0 | Some u \<Rightarrow> w u) = pair_sum w t + w v"
proof -
  let ?same = "{p \<in> pairs t. cmp (fst p) k = 0}" and ?rest = "{p \<in> pairs t. cmp (fst p) k \<noteq> 0}"
  have fin: "finite (pairs t)" by (simp add: pairs_def)
  obtain k' where k': "cmp k' k = 0" "pairs (ht_set t k v) = insert (k', v) ?rest"
    using set_inv [OF assms, of v False] unfolding ht_set_def by auto
  have new: "pair_sum w (ht_set t k v) = w v + (\<Sum>p \<in> ?rest. w (snd p))"
    unfolding pair_sum_def k'(2) using fin k'(1) by (subst sum.insert) auto
  have "?same = {p. getHASHTABLENode t k = Some p}" using get_iff [OF assms] by blast
  then have same: "(\<Sum>p \<in> ?same. w (snd p)) = (case ht_get t k of None \<Rightarrow> 0 | Some u \<Rightarrow> w u)"
    by (cases "getHASHTABLENode t k") (simp_all only: ht_get_def option.map option.case option.simps Collect_const sum.empty if_False Collect_empty_eq, simp_all)
  have "pairs t = ?same \<union> ?rest" by blast
  then have "pair_sum w t = (\<Sum>p \<in> ?same. w (snd p)) + (\<Sum>p \<in> ?rest. w (snd p))"
    unfolding pair_sum_def using fin by (metis (no_types, lifting) sum.union_disjoint finite_Un disjoint_iff mem_Collect_eq)
  then show ?thesis unfolding new same by (simp add: ac_simps)
qed

lemma fst_update_bucket:
  "\<forall>p \<in> set b. ok (fst p) \<Longrightarrow> ok k \<Longrightarrow>
     fst (update_bucket cmp k v b) = map_option snd (List.find (\<lambda>p. cmp (fst p) k = 0) b)"
  by (induction b) (auto simp: cmp_commute [of k] split: prod.splits)

lemma bucket_ok: "ht_inv hash cmp ok t \<Longrightarrow> \<forall>p \<in> set (Slots t ! slot_of t k). ok (fst p)"
  using slot_less [of "SlotVolume t" "Slots t" k] by (simp add: ht_inv_def slot_of_def slots_inv_def)

lemma insertOrUpdate_result:
  assumes "ht_inv hash cmp ok t" "ok k"
  shows "fst (insertOrUpdatePair t k v) = Option.bind (ht_get t k) (\<lambda>old. old)"
    and "ht_NodeCount (snd (insertOrUpdatePair t k v)) = ht_NodeCount t + (if ht_get t k = None then 1 else 0)"
  using fst_update_bucket [OF bucket_ok [OF assms(1), of k] assms(2), of v] assms(1)
  by (cases "List.find (\<lambda>p. cmp (fst p) k = 0) (Slots t ! slot_of t k)";
      auto simp: insertOrUpdatePair_def Let_def ht_get_def getHASHTABLENode_def ht_inv_def
        split: prod.splits option.splits)+

end

lemma fst_remove_bucket: "fst (remove_bucket cmp k b) = List.find (\<lambda>p. cmp (fst p) k = 0) b"
  by (induction b) (auto split: prod.splits)

lemma remove_code:
  "fst (removeHASHTABLENode t k) = (if ht_get t k = None then UTIL_HASHTABLE_NOKEY else FUNC_RETURN_OK)"
  using fst_remove_bucket [of "CompFunction t" k "Slots t ! slot_of t k"]
  by (cases "List.find (\<lambda>p. CompFunction t (fst p) k = 0) (Slots t ! slot_of t k)")
    (auto simp: removeHASHTABLENode_def ht_get_def getHASHTABLENode_def Let_def split: prod.splits option.splits)

lemma extendWhenFull_NodeCount [simp]: "ht_NodeCount (extendWhenFull t) = ht_NodeCount t"
  by (simp add: extendWhenFull_def extendHASHTABLESlotSize_def split: prod.splits)

lemma set_table: "snd (snd (setHASHTABLENode t k v fr)) = ht_set t k v"
  by (simp add: ht_set_def setHASHTABLENode_def Let_def split: prod.splits option.splits)

lemma set_table_parts: "ht_set t k v = extendWhenFull (snd (insertOrUpdatePair t k v))"
  by (simp add: ht_set_def setHASHTABLENode_def Let_def split: prod.splits option.splits)

lemma set_result:
  "setHASHTABLENode t k v fr =
     (case fst (insertOrUpdatePair t k v) of
        None \<Rightarrow> (None, [], ht_set t k v)
      | Some old \<Rightarrow> if fr then (None, [old], ht_set t k v) else (Some old, [], ht_set t k v))"
  by (simp add: set_table_parts setHASHTABLENode_def Let_def split: prod.splits option.splits)

lemma initialize_inv:
  assumes "0 < vol" "vol < 2 ^ 32"
  shows "ht_inv hash cmp ok (initializeHASHTABLE hash cmp vol maxvol fr)"
    and "ht_get (initializeHASHTABLE hash cmp vol maxvol fr) k = None"
proof -
  have u: "unat (word_of_int vol :: 32 word) = nat vol" and pos: "0 < (word_of_int vol :: 32 word)"
    using assms by (simp_all add: unat_eq_nat_uint uint_word_of_int word_less_def)
  show "ht_inv hash cmp ok (initializeHASHTABLE hash cmp vol maxvol fr)"
    using pos by (auto simp: ht_inv_def initializeHASHTABLE_def slots_inv_def bucket_distinct_def)
  show "ht_get (initializeHASHTABLE hash cmp vol maxvol fr) k = None"
    using unat_mod_less [OF pos, of "hash k"]
    by (auto simp: ht_get_def getHASHTABLENode_def initializeHASHTABLE_def slot_of_def)
qed

lemma clear_inv:
  assumes "ht_inv hash cmp ok t"
  shows "ht_inv hash cmp ok (snd (clearHASHTABLE t))" "ht_get (snd (clearHASHTABLE t)) k = None"
proof -
  show "ht_inv hash cmp ok (snd (clearHASHTABLE t))"
    using assms by (auto simp: ht_inv_def clearHASHTABLE_def slots_inv_def bucket_distinct_def)
  show "ht_get (snd (clearHASHTABLE t)) k = None"
    using assms unat_mod_less [of "SlotVolume t"]
    by (auto simp: ht_get_def getHASHTABLENode_def clearHASHTABLE_def slot_of_def ht_inv_def slots_inv_def)
qed

section \<open>The interface of a keyed store\<close>

locale keyed_store =
  fixes inv :: "'t \<Rightarrow> bool"
    and valid :: "'k \<Rightarrow> bool"
    and same :: "'k \<Rightarrow> 'k \<Rightarrow> bool"
    and get :: "'t \<Rightarrow> 'k \<Rightarrow> 'v option"
    and put :: "'t \<Rightarrow> 'k \<Rightarrow> 'v \<Rightarrow> 't"
    and del :: "'t \<Rightarrow> 'k \<Rightarrow> 't"
  assumes put_inv: "inv t \<Longrightarrow> valid k \<Longrightarrow> inv (put t k v)"
    and get_put: "inv t \<Longrightarrow> valid k \<Longrightarrow> valid k' \<Longrightarrow> get (put t k v) k' = (if same k' k then Some v else get t k')"
    and del_inv: "inv t \<Longrightarrow> valid k \<Longrightarrow> inv (del t k)"
    and get_del: "inv t \<Longrightarrow> valid k \<Longrightarrow> valid k' \<Longrightarrow> get (del t k) k' = (if same k' k then None else get t k')"
begin

lemma get_put_del:
  "inv t \<Longrightarrow> valid k \<Longrightarrow> valid k' \<Longrightarrow> get t k' = None \<or> \<not> same k' k \<Longrightarrow> get (del (put t k v) k) k' = get t k'"
  by (auto simp: get_del get_put put_inv)

text \<open>A sequence of updates: the last one of a key wins.\<close>

lemma fold_put_inv: "inv t \<Longrightarrow> \<forall>(k, v) \<in> set kvs. valid k \<Longrightarrow> inv (foldl (\<lambda>t (k, v). put t k v) t kvs)"
  by (induction kvs rule: rev_induct) (auto intro: put_inv)

lemma get_fold_put:
  "inv t \<Longrightarrow> \<forall>(k, v) \<in> set kvs. valid k \<Longrightarrow> valid k' \<Longrightarrow>
   get (foldl (\<lambda>t (k, v). put t k v) t kvs) k' =
     (case List.find (\<lambda>(k, v). same k' k) (rev kvs) of Some (k, v) \<Rightarrow> Some v | None \<Rightarrow> get t k')"
proof (induction kvs rule: rev_induct)
  case (snoc kv kvs)
  then have "inv (foldl (\<lambda>t (k, v). put t k v) t kvs)"
    by (intro fold_put_inv) auto
  with snoc show ?case
    by (cases kv) (simp add: get_put)
qed simp

end

sublocale key_functions \<subseteq> ht: keyed_store "ht_inv hash cmp ok" ok "\<lambda>k' k. cmp k' k = 0"
    "ht_get :: ('k, 'v) HASHTABLE \<Rightarrow> 'k \<Rightarrow> 'v option option" ht_set ht_remove
proof
  fix t :: "('k, 'v) HASHTABLE" and k k' :: 'k and v :: "'v option"
  assume t: "ht_inv hash cmp ok t" and k: "ok k"
  obtain k0 where set: "ht_inv hash cmp ok (ht_set t k v)" "ok k0" "cmp k0 k = 0"
    "pairs (ht_set t k v) = {p \<in> pairs t. cmp (fst p) k \<noteq> 0} \<union> {(k0, v)}"
    using set_inv [OF t k, of v False] unfolding ht_set_def by blast
  have rem: "ht_inv hash cmp ok (ht_remove t k)" "pairs (ht_remove t k) = {p \<in> pairs t. cmp (fst p) k \<noteq> 0}"
    using remove_inv [OF t k] by auto
  show "ht_inv hash cmp ok (ht_set t k v)" "ht_inv hash cmp ok (ht_remove t k)"
    by (fact set(1), fact rem(1))
  assume k': "ok k'"
  have okp: "ok x" if "(x, y) \<in> pairs t" for x y
    using t that slots_ok unfolding ht_inv_def pairs_def by fastforce
  have eq: "cmp x k' = 0 \<longleftrightarrow> cmp x k = 0" if "ok x" "cmp k' k = 0" for x
    using that k k' cmp_trans cmp_sym by blast
  have neq: "cmp x k \<noteq> 0" if "ok x" "cmp k' k \<noteq> 0" "cmp x k' = 0" for x
    using that k k' cmp_trans cmp_sym by blast
  show "ht_get (ht_set t k v) k' = (if cmp k' k = 0 then Some v else ht_get t k')"
  proof (cases "cmp k' k = 0")
    case True
    then have "ht_get (ht_set t k v) k' = Some v"
      unfolding ht_get_iff [OF set(1) k'] set(4) using eq set(2,3) by auto
    with True show ?thesis by simp
  next
    case False
    have "ht_get (ht_set t k v) k' = Some w \<longleftrightarrow> ht_get t k' = Some w" for w
      unfolding ht_get_iff [OF set(1) k'] ht_get_iff [OF t k'] set(4)
      using neq okp False set(2,3) by auto
    with False show ?thesis by (simp add: option_eq_iff)
  qed
  show "ht_get (ht_remove t k) k' = (if cmp k' k = 0 then None else ht_get t k')"
  proof (cases "cmp k' k = 0")
    case True
    then have "\<not> (\<exists>w. ht_get (ht_remove t k) k' = Some w)"
      unfolding ht_get_iff [OF rem(1) k'] rem(2) using eq okp by auto
    with True show ?thesis by simp
  next
    case False
    have "ht_get (ht_remove t k) k' = Some w \<longleftrightarrow> ht_get t k' = Some w" for w
      unfolding ht_get_iff [OF rem(1) k'] ht_get_iff [OF t k'] rem(2)
      using neq okp False by auto
    with False show ?thesis by (simp add: option_eq_iff)
  qed
qed

context key_functions
begin

lemma ht_keyed:
  assumes "ht_inv hash cmp ok t" "ok k" "ok k'"
  shows "ht_inv hash cmp ok (ht_set t k v)" "ht_inv hash cmp ok (ht_remove t k)"
    "ht_get (ht_set t k v) k' = (if cmp k' k = 0 then Some v else ht_get t k')"
    "ht_get (ht_remove t k) k' = (if cmp k' k = 0 then None else ht_get t k')"
  using assms by (simp_all add: ht.put_inv ht.del_inv ht.get_put ht.get_del)

end

lemma ucast_add_high: "ucast (p + push_bit 32 q :: 64 word) = (ucast p :: 32 word)"
proof (rule word_uint_eq_iff [THEN iffD2])
  have "take_bit 32 (uint (push_bit 32 q)) = 0"
    by (simp add: unsigned_push_bit_eq take_bit_push_bit)
  then have "take_bit 32 (uint p + uint (push_bit 32 q)) = take_bit 32 (uint p)"
    by (metis add.right_neutral take_bit_add take_bit_of_0)
  moreover have "uint (p + push_bit 32 q) = take_bit 64 (uint p + uint (push_bit 32 q))"
    by (simp add: uint_word_ariths take_bit_eq_mod)
  ultimately show "uint (ucast (p + push_bit 32 q :: 64 word) :: 32 word) = uint (ucast p :: 32 word)"
    by (simp add: unsigned_ucast_eq)
qed

section \<open>Properties\<close>


text \<open>The results of the operations: an insertion returns the old value of the key or frees it when
  asked to, never both, and counts a node exactly when the key was absent; a removal fails exactly when
  the key is absent.\<close>

theorem hashtable_results:
  assumes "key_functions hash cmp ok" "ht_inv hash cmp ok t" "ok k"
  shows "setHASHTABLENode t k v fr =
      (case Option.bind (ht_get t k) (\<lambda>old. old) of
         None \<Rightarrow> (None, [], ht_set t k v)
       | Some old \<Rightarrow> if fr then (None, [old], ht_set t k v) else (Some old, [], ht_set t k v)) \<and>
    getHASHTABLESize (ht_set t k v) = getHASHTABLESize t + (if ht_get t k = None then 1 else 0) \<and>
    fst (removeHASHTABLENode t k) = (if ht_get t k = None then UTIL_HASHTABLE_NOKEY else FUNC_RETURN_OK)"
  using key_functions.insertOrUpdate_result [OF assms, of v]
  by (simp add: set_result remove_code getHASHTABLESize_def set_table_parts)

text \<open>A table of byte-array keys holding 7 under the key 1, 2.\<close>

definition sample_table :: "(uint8 list, nat) HASHTABLE" where
  "sample_table = ht_set (initializeHASHTABLE HASHTABLE_Hash_CHARARRAY HASHTABLE_Comp_CHARARRAY 256 1024 False)
     [1, 2] (Some 7)"

lemma sample_table_inv:
  "ht_inv HASHTABLE_Hash_CHARARRAY HASHTABLE_Comp_CHARARRAY chararray_ok sample_table"
  "ht_get sample_table [1, 2] = Some (Some 7)"
  using key_chararray.ht_keyed [OF initialize_inv(1) [of 256], of "[1, 2]" "[1, 2]"]
  by (simp_all add: sample_table_def chararray_ok_def comp_chararray_eq_0)


theorem hashtable_results_witness:
  "fst (setHASHTABLENode sample_table [1, 2] (Some 9) False) = Some 7"
  using hashtable_results [OF key_chararray.key_functions_axioms sample_table_inv(1), of "[1, 2]" "Some 9" False]
  by (simp add: chararray_ok_def sample_table_inv)

text \<open>An insertion changes the number of slots only when every slot is in use: the quotient that is
  compared with the bar 0.5 is an integer division.\<close>

theorem hashtable_extends_only_when_full:
  assumes "key_functions hash cmp ok" "ht_inv hash cmp ok t" "ok k" "SlotExtendBar t = 1 / 2"
    "SlotVolume (ht_set t k v) \<noteq> SlotVolume t"
  shows "[] \<notin> set (Slots (snd (insertOrUpdatePair t k v)))"
proof -
  let ?t = "snd (insertOrUpdatePair t k v)"
  have inv: "ht_inv hash cmp ok ?t"
    using key_functions.insertOrUpdate_inv [OF assms(1-3)] by blast
  have same: "SlotVolume ?t = SlotVolume t" "SlotExtendBar ?t = 1 / 2"
    using assms(4) by (auto simp: insertOrUpdatePair_def Let_def split: prod.splits option.splits)
  have "SlotCount ?t div SlotVolume ?t \<noteq> 0"
    using assms(5) same by (auto simp: set_table_parts extendWhenFull_def split: if_splits)
  then have "unat (SlotVolume ?t) \<le> unat (SlotCount ?t)"
    by (metis div_less unat_div_distrib not_less unat_eq_0)
  moreover have "unat (SlotCount ?t) \<le> used (Slots ?t)"
    using inv by (simp add: ht_inv_def unat_of_nat)
  ultimately have "used (Slots ?t) = length (Slots ?t)"
    using inv used_le [of "Slots ?t"] by (simp add: ht_inv_def slots_inv_def)
  then show ?thesis
    using length_filter_less [of _ "Slots ?t" "\<lambda>b. b \<noteq> []"] by (fastforce simp: used_def)
qed

text \<open>Pointer keys are identified by their low 32 bits: a value stored under one pointer is found
  under every pointer that agrees with it there.\<close>

theorem voidpt_keys_collide:
  assumes "ht_inv HASHTABLE_Hash_VOIDPT HASHTABLE_Comp_VOIDPT (\<lambda>_. True) t"
  shows "ht_get (snd (snd (setHASHTABLENode t p v fr))) (p + push_bit 32 q) = Some v"
proof -
  have "HASHTABLE_Comp_VOIDPT (p + push_bit 32 q) p = 0"
    by (simp add: HASHTABLE_Comp_VOIDPT_def ucast_add_high)
  then show ?thesis
    unfolding set_table using key_voidpt.ht_keyed(3) [OF assms] by simp
qed

theorem hashtable_extends_only_when_full_witness:
  "[] \<notin> set (Slots (snd (insertOrUpdatePair
     (initializeHASHTABLE HASHTABLE_Hash_UINT32 HASHTABLE_Comp_UINT32 1 8 False :: (uint64, nat) HASHTABLE) 5 (Some 7))))"
proof (rule hashtable_extends_only_when_full [OF key_uint32.key_functions_axioms initialize_inv(1)])
  show "SlotVolume (ht_set (initializeHASHTABLE HASHTABLE_Hash_UINT32 HASHTABLE_Comp_UINT32 1 8 False :: (uint64, nat) HASHTABLE) 5 (Some 7))
    \<noteq> SlotVolume (initializeHASHTABLE HASHTABLE_Hash_UINT32 HASHTABLE_Comp_UINT32 1 8 False :: (uint64, nat) HASHTABLE)"
    by (simp add: ht_set_def setHASHTABLENode_def insertOrUpdatePair_def extendWhenFull_def
        extendHASHTABLESlotSize_def initializeHASHTABLE_def slot_of_def Let_def word_le_def split: prod.splits)
qed (simp_all add: initializeHASHTABLE_def)

theorem voidpt_keys_collide_witness:
  "ht_get (snd (snd (setHASHTABLENode
     (initializeHASHTABLE HASHTABLE_Hash_VOIDPT HASHTABLE_Comp_VOIDPT 256 1024 False) 8 (Some (7 :: nat)) False)))
     (8 + push_bit 32 1) = Some (Some 7)"
  by (rule voidpt_keys_collide [OF initialize_inv(1)]) simp_all

end
