(* ===== verification/RM_Deadlock.thy ===== *)
theory RM_Deadlock
  imports RM_HashTable
begin

text \<open>
  The deadlock detector of a resource queue, \<^verbatim>\<open>resqueuedeadlock.c\<close>: a hash table from session ids to
  session trackers, with running totals of the resource in use and of the resource locked by sessions
  that wait for more.  Trackers live in a heap, since they are updated through the pointer the table
  holds.  The operations are shown to refine updates of a map from session ids to trackers, and the
  totals to be the sums over the sessions in every state that the documented protocol reaches.
\<close>

section \<open>State\<close>

record SessionTrack =
  st_SessionID :: "64 word"
  st_InUseTotalMemoryMB :: uint32
  st_InUseTotalCore :: double
  st_Locked :: bool

record sheap =
  tracks :: "addr \<rightharpoonup> SessionTrack"
  sbrk :: addr

record ResqueueDeadLockDetector =
  Sessions :: "(uint8 list, addr) HASHTABLE"
  dl_InUseTotalMemoryMB :: uint32
  dl_InUseTotalCore :: double
  dl_LockedTotalMemoryMB :: uint32
  dl_LockedTotalCore :: double

text \<open>\<^verbatim>\<open>setSimpleArrayRef(&key, (char *)&sessionid, sizeof(int64_t))\<close>: the eight bytes of the id.\<close>

definition session_key :: "64 word \<Rightarrow> uint8 list" where
  "session_key sid = map (\<lambda>i. ucast (drop_bit (8 * i) sid)) [0..<8]"

section \<open>Operations\<close>

definition initializeResqueueDeadLockDetector :: ResqueueDeadLockDetector where
  "initializeResqueueDeadLockDetector =
     \<lparr>Sessions = initializeHASHTABLE HASHTABLE_Hash_CHARARRAY HASHTABLE_Comp_CHARARRAY 256 (1024 * 1024 * 1024) False,
      dl_InUseTotalMemoryMB = 0, dl_InUseTotalCore = 0, dl_LockedTotalMemoryMB = 0, dl_LockedTotalCore = 0\<rparr>"

text \<open>Each operation returns \<^term>\<open>None\<close> when it would dereference a bad tracker pointer.\<close>

definition addSessionInUseResource ::
    "sheap \<Rightarrow> ResqueueDeadLockDetector \<Rightarrow> 64 word \<Rightarrow> uint32 \<Rightarrow> double
     \<Rightarrow> (drm_code \<times> sheap \<times> ResqueueDeadLockDetector) option" where
  "addSessionInUseResource h d sid memorymb core =
     (case getHASHTABLENode (Sessions d) (session_key sid) of
        None \<Rightarrow> Some (RESQUEMGR_NO_SESSIONID, h, d)
      | Some pair \<Rightarrow> do {
          a \<leftarrow> snd pair;
          s \<leftarrow> tracks h a;
          h \<leftarrow> Some (h\<lparr>tracks := (tracks h)(a \<mapsto> s\<lparr>
                 st_InUseTotalMemoryMB := st_InUseTotalMemoryMB s + memorymb,
                 st_InUseTotalCore := st_InUseTotalCore s + core\<rparr>)\<rparr>);
          Some (FUNC_RETURN_OK, h,
                d\<lparr>dl_InUseTotalMemoryMB := dl_InUseTotalMemoryMB d + memorymb,
                  dl_InUseTotalCore := dl_InUseTotalCore d + core\<rparr>)
        })"

definition minusSessionInUserResource ::
    "sheap \<Rightarrow> ResqueueDeadLockDetector \<Rightarrow> 64 word \<Rightarrow> uint32 \<Rightarrow> double
     \<Rightarrow> (drm_code \<times> sheap \<times> ResqueueDeadLockDetector) option" where
  "minusSessionInUserResource h d sid memorymb core =
     (case getHASHTABLENode (Sessions d) (session_key sid) of
        None \<Rightarrow> Some (RESQUEMGR_NO_SESSIONID, h, d)
      | Some pair \<Rightarrow> do {
          d \<leftarrow> Some (d\<lparr>dl_InUseTotalMemoryMB := dl_InUseTotalMemoryMB d - memorymb,
                       dl_InUseTotalCore := dl_InUseTotalCore d - core\<rparr>);
          a \<leftarrow> snd pair;
          s \<leftarrow> tracks h a;
          s \<leftarrow> Some (s\<lparr>st_InUseTotalMemoryMB := st_InUseTotalMemoryMB s - memorymb,
                       st_InUseTotalCore := st_InUseTotalCore s - core\<rparr>);
          if st_InUseTotalMemoryMB s = 0 \<and> st_InUseTotalCore s = 0
          then Some (FUNC_RETURN_OK, h\<lparr>tracks := (tracks h)(a := None)\<rparr>,
                     d\<lparr>Sessions := ht_remove (Sessions d) (session_key sid)\<rparr>)
          else Some (FUNC_RETURN_OK, h\<lparr>tracks := (tracks h)(a \<mapsto> s)\<rparr>, d)
        })"

definition removeSession ::
    "sheap \<Rightarrow> ResqueueDeadLockDetector \<Rightarrow> 64 word \<Rightarrow> (drm_code \<times> sheap \<times> ResqueueDeadLockDetector) option" where
  "removeSession h d sid =
     (case getHASHTABLENode (Sessions d) (session_key sid) of
        None \<Rightarrow> Some (RESQUEMGR_NO_SESSIONID, h, d)
      | Some pair \<Rightarrow> do {
          a \<leftarrow> snd pair;
          s \<leftarrow> tracks h a;
          Some (FUNC_RETURN_OK, h\<lparr>tracks := (tracks h)(a := None)\<rparr>,
                d\<lparr>dl_InUseTotalMemoryMB := dl_InUseTotalMemoryMB d - st_InUseTotalMemoryMB s,
                  dl_InUseTotalCore := dl_InUseTotalCore d - st_InUseTotalCore s,
                  Sessions := ht_remove (Sessions d) (session_key sid)\<rparr>)
        })"

definition createAndLockSessionResource ::
    "sheap \<Rightarrow> ResqueueDeadLockDetector \<Rightarrow> 64 word \<Rightarrow> (sheap \<times> ResqueueDeadLockDetector) option" where
  "createAndLockSessionResource h d sid = do {
     (a, h, d) \<leftarrow>
       (case getHASHTABLENode (Sessions d) (session_key sid) of
          None \<Rightarrow>
            Some (sbrk h,
                  h\<lparr>tracks := (tracks h)(sbrk h \<mapsto>
                       \<lparr>st_SessionID = sid, st_InUseTotalMemoryMB = 0, st_InUseTotalCore = 0, st_Locked = False\<rparr>),
                    sbrk := Suc (sbrk h)\<rparr>,
                  d\<lparr>Sessions := ht_set (Sessions d) (session_key sid) (Some (sbrk h))\<rparr>)
        | Some pair \<Rightarrow> do { a \<leftarrow> snd pair; Some (a, h, d) });
     s \<leftarrow> tracks h a;
     Some (h\<lparr>tracks := (tracks h)(a \<mapsto> s\<lparr>st_Locked := True\<rparr>)\<rparr>,
           d\<lparr>dl_LockedTotalCore := dl_LockedTotalCore d + st_InUseTotalCore s,
             dl_LockedTotalMemoryMB := dl_LockedTotalMemoryMB d + st_InUseTotalMemoryMB s\<rparr>)
   }"

definition unlockSessionResource ::
    "sheap \<Rightarrow> ResqueueDeadLockDetector \<Rightarrow> 64 word \<Rightarrow> (sheap \<times> ResqueueDeadLockDetector) option" where
  "unlockSessionResource h d sid =
     (case getHASHTABLENode (Sessions d) (session_key sid) of
        None \<Rightarrow> Some (h, d)
      | Some pair \<Rightarrow> do {
          a \<leftarrow> snd pair;
          s \<leftarrow> tracks h a;
          Some (h\<lparr>tracks := (tracks h)(a \<mapsto> s\<lparr>st_Locked := False\<rparr>)\<rparr>,
                d\<lparr>dl_LockedTotalCore := dl_LockedTotalCore d - st_InUseTotalCore s,
                  dl_LockedTotalMemoryMB := dl_LockedTotalMemoryMB d - st_InUseTotalMemoryMB s\<rparr>)
        })"

definition findSession :: "ResqueueDeadLockDetector \<Rightarrow> 64 word \<Rightarrow> ptr" where
  "findSession d sid =
     (case getHASHTABLENode (Sessions d) (session_key sid) of None \<Rightarrow> None | Some pair \<Rightarrow> snd pair)"


section \<open>The map of sessions\<close>

definition sess :: "sheap \<Rightarrow> ResqueueDeadLockDetector \<Rightarrow> 64 word \<rightharpoonup> SessionTrack" where
  "sess h d sid = Option.bind (ht_get (Sessions d) (session_key sid)) (\<lambda>v. Option.bind v (tracks h))"

abbreviation sessions_inv :: "(uint8 list, addr) HASHTABLE \<Rightarrow> bool" where
  "sessions_inv \<equiv> ht_inv HASHTABLE_Hash_CHARARRAY HASHTABLE_Comp_CHARARRAY chararray_ok"

definition det_rep :: "sheap \<Rightarrow> ResqueueDeadLockDetector \<Rightarrow> bool" where
  "det_rep h d \<longleftrightarrow> sessions_inv (Sessions d) \<and>
     (\<forall>sid v. ht_get (Sessions d) (session_key sid) = Some v \<longrightarrow>
        (\<exists>a s. v = Some a \<and> a < sbrk h \<and> tracks h a = Some s \<and> st_SessionID s = sid))"

lemma session_key_ok [simp]: "chararray_ok (session_key sid)"
  by (simp add: session_key_def chararray_ok_def)

lemma session_key_inj: "session_key a = session_key b \<longleftrightarrow> a = b"
proof
  assume eq: "session_key a = session_key b"
  have byte: "(ucast (drop_bit (8 * i) a) :: 8 word) = ucast (drop_bit (8 * i) b)" if "i < 8" for i
    using arg_cong [OF eq, of "\<lambda>k. k ! i"] that by (simp add: session_key_def)
  show "a = b"
  proof (rule bit_eqI)
    fix n assume "possible_bit TYPE(64 word) n"
    then have n: "n div 8 < 8" "n = 8 * (n div 8) + n mod 8" "n mod 8 < 8" by simp_all
    have "bit (ucast (drop_bit (8 * (n div 8)) a) :: 8 word) (n mod 8)
        = bit (ucast (drop_bit (8 * (n div 8)) b) :: 8 word) (n mod 8)"
      using byte [OF n(1)] by simp
    then show "bit a n = bit b n"
      using n by (simp add: bit_simps)
  qed
qed simp

lemma session_key_cmp [simp]: "HASHTABLE_Comp_CHARARRAY (session_key a) (session_key b) = 0 \<longleftrightarrow> a = b"
  by (simp add: comp_chararray_eq_0 session_key_inj)

lemmas sessions_laws = key_chararray.ht_keyed [OF _ session_key_ok session_key_ok]

lemma get_session:
  assumes "det_rep h d"
  shows "getHASHTABLENode (Sessions d) (session_key sid) = None \<longleftrightarrow> sess h d sid = None"
    and "getHASHTABLENode (Sessions d) (session_key sid) = Some p \<Longrightarrow>
      \<exists>a s. snd p = Some a \<and> a < sbrk h \<and> tracks h a = Some s \<and> st_SessionID s = sid \<and> sess h d sid = Some s \<and>
        ht_get (Sessions d) (session_key sid) = Some (Some a)"
  using assms unfolding det_rep_def sess_def ht_get_def
  by (cases "getHASHTABLENode (Sessions d) (session_key sid)"; fastforce)+

lemma address_unique:
  assumes "det_rep h d" "ht_get (Sessions d) (session_key sid) = Some (Some a)"
    "ht_get (Sessions d) (session_key sid') = Some (Some a)"
  shows "sid' = sid"
  using assms unfolding det_rep_def by (metis option.inject)

text \<open>Writing the tracker of a session, dropping a session, and adding one.\<close>

lemma write_session:
  assumes rep: "det_rep h d" and a: "ht_get (Sessions d) (session_key sid) = Some (Some a)"
    and s': "st_SessionID s' = sid" and d': "Sessions d' = Sessions d"
  shows "det_rep (h\<lparr>tracks := (tracks h)(a \<mapsto> s')\<rparr>) d'"
    and "sess (h\<lparr>tracks := (tracks h)(a \<mapsto> s')\<rparr>) d' = (sess h d)(sid \<mapsto> s')"
proof -
  have other: "a' \<noteq> a" if "ht_get (Sessions d) (session_key sid') = Some (Some a')" "sid' \<noteq> sid" for sid' a'
    using address_unique [OF rep a] that by blast
  show "det_rep (h\<lparr>tracks := (tracks h)(a \<mapsto> s')\<rparr>) d'"
    using rep a s' other unfolding det_rep_def d' by (simp, metis option.inject)
  show "sess (h\<lparr>tracks := (tracks h)(a \<mapsto> s')\<rparr>) d' = (sess h d)(sid \<mapsto> s')"
    using a other by (auto simp: sess_def d' fun_eq_iff bind_eq_None_conv split: bind_splits)
qed

lemma drop_session:
  assumes rep: "det_rep h d" and a: "ht_get (Sessions d) (session_key sid) = Some (Some a)"
    and d': "Sessions d' = ht_remove (Sessions d) (session_key sid)"
  shows "det_rep (h\<lparr>tracks := (tracks h)(a := None)\<rparr>) d'"
    and "sess (h\<lparr>tracks := (tracks h)(a := None)\<rparr>) d' = (sess h d)(sid := None)"
proof -
  have inv: "sessions_inv (Sessions d)" using rep by (simp add: det_rep_def)
  note laws = sessions_laws(2) [OF inv, of sid] sessions_laws(4) [OF inv, of sid]
  have other: "a' \<noteq> a" if "ht_get (Sessions d) (session_key sid') = Some (Some a')" "sid' \<noteq> sid" for sid' a'
    using address_unique [OF rep a] that by blast
  show "det_rep (h\<lparr>tracks := (tracks h)(a := None)\<rparr>) d'"
    using rep laws other unfolding det_rep_def d' by (simp, metis option.inject)
  show "sess (h\<lparr>tracks := (tracks h)(a := None)\<rparr>) d' = (sess h d)(sid := None)"
    using other laws by (auto simp: sess_def d' fun_eq_iff split: bind_splits)
qed

lemma new_session:
  assumes rep: "det_rep h d" and no: "ht_get (Sessions d) (session_key sid) = None"
    and d': "Sessions d' = ht_set (Sessions d) (session_key sid) (Some (sbrk h))" and s: "st_SessionID s = sid"
  shows "det_rep (h\<lparr>tracks := (tracks h)(sbrk h \<mapsto> s), sbrk := Suc (sbrk h)\<rparr>) d'"
    and "sess (h\<lparr>tracks := (tracks h)(sbrk h \<mapsto> s), sbrk := Suc (sbrk h)\<rparr>) d' = (sess h d)(sid \<mapsto> s)"
proof -
  have inv: "sessions_inv (Sessions d)" using rep by (simp add: det_rep_def)
  note laws = sessions_laws(1) [OF inv, of sid] sessions_laws(3) [OF inv, of sid]
  have other: "a' < sbrk h" if "ht_get (Sessions d) (session_key sid') = Some (Some a')" for sid' a'
    using rep that unfolding det_rep_def by fastforce
  show "det_rep (h\<lparr>tracks := (tracks h)(sbrk h \<mapsto> s), sbrk := Suc (sbrk h)\<rparr>) d'"
    using rep laws s unfolding det_rep_def d' by (simp, metis less_Suc_eq less_irrefl)
  show "sess (h\<lparr>tracks := (tracks h)(sbrk h \<mapsto> s), sbrk := Suc (sbrk h)\<rparr>) d' = (sess h d)(sid \<mapsto> s)"
    using other laws by (force simp: sess_def d' fun_eq_iff split: bind_splits)
qed

section \<open>Totals\<close>

definition session_total :: "(SessionTrack \<Rightarrow> 'a :: comm_ring_1) \<Rightarrow> (64 word \<rightharpoonup> SessionTrack) \<Rightarrow> 'a" where
  "session_total f m = (\<Sum>sid \<in> UNIV. case m sid of None \<Rightarrow> 0 | Some s \<Rightarrow> f s)"

definition locked_only :: "(SessionTrack \<Rightarrow> 'a) \<Rightarrow> SessionTrack \<Rightarrow> 'a :: comm_ring_1" where
  "locked_only f s = (if st_Locked s then f s else 0)"

definition det_inv :: "sheap \<Rightarrow> ResqueueDeadLockDetector \<Rightarrow> bool" where
  "det_inv h d \<longleftrightarrow> det_rep h d \<and>
     dl_InUseTotalMemoryMB d = session_total st_InUseTotalMemoryMB (sess h d) \<and>
     dl_InUseTotalCore d = session_total st_InUseTotalCore (sess h d) \<and>
     dl_LockedTotalMemoryMB d = session_total (locked_only st_InUseTotalMemoryMB) (sess h d) \<and>
     dl_LockedTotalCore d = session_total (locked_only st_InUseTotalCore) (sess h d)"

lemma session_total_update:
  "session_total f (m(sid := x)) =
     session_total f m - (case m sid of None \<Rightarrow> 0 | Some s \<Rightarrow> f s) + (case x of None \<Rightarrow> 0 | Some s \<Rightarrow> f s)"
proof -
  let ?g = "\<lambda>m sid. case m sid of None \<Rightarrow> 0 | Some s \<Rightarrow> f s"
  have "session_total f m = ?g m sid + (\<Sum>y \<in> UNIV - {sid}. ?g m y)" for m
    unfolding session_total_def by (rule sum.remove) simp_all
  moreover have "(\<Sum>y \<in> UNIV - {sid}. ?g (m(sid := x)) y) = (\<Sum>y \<in> UNIV - {sid}. ?g m y)"
    by (rule sum.cong) auto
  ultimately show ?thesis by simp
qed

lemma session_total_empty [simp]: "session_total f Map.empty = 0"
  by (simp add: session_total_def)

lemmas session_ops = addSessionInUseResource_def minusSessionInUserResource_def removeSession_def
  createAndLockSessionResource_def unlockSessionResource_def

text \<open>The operations as updates of the map of sessions.\<close>

lemma session_found:
  assumes "det_rep h d" "sess h d sid = Some s"
  obtains p a where "getHASHTABLENode (Sessions d) (session_key sid) = Some p"
    "snd p = Some a" "tracks h a = Some s" "st_SessionID s = sid"
    "ht_get (Sessions d) (session_key sid) = Some (Some a)"
proof -
  obtain p where p: "getHASHTABLENode (Sessions d) (session_key sid) = Some p"
    using get_session(1) [OF assms(1)] assms(2) by (metis not_None_eq)
  from get_session(2) [OF assms(1) p] assms(2) that [OF p] show ?thesis by auto
qed

lemma add_spec:
  fixes m :: uint32 and c :: double
  assumes "det_rep h d" "sess h d sid = Some s"
  defines "s' \<equiv> s\<lparr>st_InUseTotalMemoryMB := st_InUseTotalMemoryMB s + m, st_InUseTotalCore := st_InUseTotalCore s + c\<rparr>"
  obtains h' d' where "addSessionInUseResource h d sid m c = Some (FUNC_RETURN_OK, h', d')"
    "det_rep h' d'" "sess h' d' = (sess h d)(sid \<mapsto> s')"
    "dl_InUseTotalMemoryMB d' = dl_InUseTotalMemoryMB d + m" "dl_InUseTotalCore d' = dl_InUseTotalCore d + c"
    "dl_LockedTotalMemoryMB d' = dl_LockedTotalMemoryMB d" "dl_LockedTotalCore d' = dl_LockedTotalCore d"
proof -
  obtain p a where p: "getHASHTABLENode (Sessions d) (session_key sid) = Some p"
    and a: "snd p = Some a" "tracks h a = Some s" "st_SessionID s = sid"
      "ht_get (Sessions d) (session_key sid) = Some (Some a)"
    using session_found [OF assms(1,2)] .
  let ?d = "d\<lparr>dl_InUseTotalMemoryMB := dl_InUseTotalMemoryMB d + m, dl_InUseTotalCore := dl_InUseTotalCore d + c\<rparr>"
  have "st_SessionID s' = sid" by (simp add: s'_def a)
  from write_session [OF assms(1) a(4) this, of ?d] show ?thesis
    by (intro that [of "h\<lparr>tracks := (tracks h)(a \<mapsto> s')\<rparr>" ?d])
      (simp_all add: addSessionInUseResource_def p a s'_def)
qed

lemma minus_spec:
  fixes m :: uint32 and c :: double
  assumes "det_rep h d" "sess h d sid = Some s"
  defines "s' \<equiv> s\<lparr>st_InUseTotalMemoryMB := st_InUseTotalMemoryMB s - m, st_InUseTotalCore := st_InUseTotalCore s - c\<rparr>"
  obtains h' d' where "minusSessionInUserResource h d sid m c = Some (FUNC_RETURN_OK, h', d')"
    "det_rep h' d'"
    "sess h' d' = (sess h d)(sid := if st_InUseTotalMemoryMB s' = 0 \<and> st_InUseTotalCore s' = 0 then None else Some s')"
    "dl_InUseTotalMemoryMB d' = dl_InUseTotalMemoryMB d - m" "dl_InUseTotalCore d' = dl_InUseTotalCore d - c"
    "dl_LockedTotalMemoryMB d' = dl_LockedTotalMemoryMB d" "dl_LockedTotalCore d' = dl_LockedTotalCore d"
proof -
  obtain p a where p: "getHASHTABLENode (Sessions d) (session_key sid) = Some p"
    and a: "snd p = Some a" "tracks h a = Some s" "st_SessionID s = sid"
      "ht_get (Sessions d) (session_key sid) = Some (Some a)"
    using session_found [OF assms(1,2)] .
  let ?d = "d\<lparr>dl_InUseTotalMemoryMB := dl_InUseTotalMemoryMB d - m, dl_InUseTotalCore := dl_InUseTotalCore d - c\<rparr>"
  have s': "st_SessionID s' = sid" by (simp add: s'_def a)
  show ?thesis
  proof (cases "st_InUseTotalMemoryMB s' = 0 \<and> st_InUseTotalCore s' = 0")
    case True
    from drop_session [OF assms(1) a(4), of "?d\<lparr>Sessions := ht_remove (Sessions d) (session_key sid)\<rparr>"] True show ?thesis
      by (intro that [of "h\<lparr>tracks := (tracks h)(a := None)\<rparr>" "?d\<lparr>Sessions := ht_remove (Sessions d) (session_key sid)\<rparr>"])
        (simp_all add: minusSessionInUserResource_def p a s'_def)
  next
    case False
    from write_session [OF assms(1) a(4) s', of ?d] False show ?thesis
      by (intro that [of "h\<lparr>tracks := (tracks h)(a \<mapsto> s')\<rparr>" ?d])
        (auto simp add: minusSessionInUserResource_def p a s'_def)
  qed
qed


lemma unlock_spec:
  assumes "det_rep h d" "sess h d sid = Some s"
  obtains h' d' where "unlockSessionResource h d sid = Some (h', d')"
    "det_rep h' d'" "sess h' d' = (sess h d)(sid \<mapsto> s\<lparr>st_Locked := False\<rparr>)"
    "dl_InUseTotalMemoryMB d' = dl_InUseTotalMemoryMB d" "dl_InUseTotalCore d' = dl_InUseTotalCore d"
    "dl_LockedTotalMemoryMB d' = dl_LockedTotalMemoryMB d - st_InUseTotalMemoryMB s"
    "dl_LockedTotalCore d' = dl_LockedTotalCore d - st_InUseTotalCore s"
proof -
  obtain p a where p: "getHASHTABLENode (Sessions d) (session_key sid) = Some p"
    and a: "snd p = Some a" "tracks h a = Some s" "st_SessionID s = sid"
      "ht_get (Sessions d) (session_key sid) = Some (Some a)"
    using session_found [OF assms] .
  let ?d = "d\<lparr>dl_LockedTotalCore := dl_LockedTotalCore d - st_InUseTotalCore s,
     dl_LockedTotalMemoryMB := dl_LockedTotalMemoryMB d - st_InUseTotalMemoryMB s\<rparr>"
  from write_session [OF assms(1) a(4), of "s\<lparr>st_Locked := False\<rparr>" ?d] show ?thesis
    by (intro that [of "h\<lparr>tracks := (tracks h)(a \<mapsto> s\<lparr>st_Locked := False\<rparr>)\<rparr>" ?d])
      (simp_all add: unlockSessionResource_def p a)
qed

definition fresh_session :: "64 word \<Rightarrow> SessionTrack" where
  "fresh_session sid = \<lparr>st_SessionID = sid, st_InUseTotalMemoryMB = 0, st_InUseTotalCore = 0, st_Locked = False\<rparr>"

lemma lock_spec:
  fixes sid :: "64 word"
  assumes "det_rep h d"
  defines "s \<equiv> (case sess h d sid of None \<Rightarrow> fresh_session sid | Some s \<Rightarrow> s)"
  obtains h' d' where "createAndLockSessionResource h d sid = Some (h', d')"
    "det_rep h' d'" "sess h' d' = (sess h d)(sid \<mapsto> s\<lparr>st_Locked := True\<rparr>)"
    "dl_InUseTotalMemoryMB d' = dl_InUseTotalMemoryMB d" "dl_InUseTotalCore d' = dl_InUseTotalCore d"
    "dl_LockedTotalMemoryMB d' = dl_LockedTotalMemoryMB d + st_InUseTotalMemoryMB s"
    "dl_LockedTotalCore d' = dl_LockedTotalCore d + st_InUseTotalCore s"
proof (cases "sess h d sid")
  case None
  then have no: "getHASHTABLENode (Sessions d) (session_key sid) = None"
    using get_session(1) [OF assms(1)] by simp
  let ?s = "\<lparr>st_SessionID = sid, st_InUseTotalMemoryMB = 0, st_InUseTotalCore = 0, st_Locked = True\<rparr>"
  let ?d = "d\<lparr>Sessions := ht_set (Sessions d) (session_key sid) (Some (sbrk h))\<rparr>"
  from new_session [OF assms(1), of sid ?d ?s] no show ?thesis
    by (intro that [of "h\<lparr>tracks := (tracks h)(sbrk h \<mapsto> ?s), sbrk := Suc (sbrk h)\<rparr>" ?d])
      (simp_all add: createAndLockSessionResource_def s_def None fresh_session_def ht_get_def)
next
  case (Some s0)
  obtain p a where p: "getHASHTABLENode (Sessions d) (session_key sid) = Some p"
    and a: "snd p = Some a" "tracks h a = Some s0" "st_SessionID s0 = sid"
      "ht_get (Sessions d) (session_key sid) = Some (Some a)"
    using session_found [OF assms(1) Some] .
  let ?d = "d\<lparr>dl_LockedTotalCore := dl_LockedTotalCore d + st_InUseTotalCore s0,
     dl_LockedTotalMemoryMB := dl_LockedTotalMemoryMB d + st_InUseTotalMemoryMB s0\<rparr>"
  from write_session [OF assms(1) a(4), of "s0\<lparr>st_Locked := True\<rparr>" ?d] show ?thesis
    by (intro that [of "h\<lparr>tracks := (tracks h)(a \<mapsto> s0\<lparr>st_Locked := True\<rparr>)\<rparr>" ?d])
      (simp_all add: createAndLockSessionResource_def p a s_def Some)
qed


section \<open>The protocol\<close>

text \<open>The steps the header of \<^verbatim>\<open>resqueuedeadlock.h\<close> documents, each under the condition the code asserts:
  a request that starts to wait locks its session, a dispatch unlocks it and adds the resource, a return
  subtracts it, and resource changes only in sessions that are not locked.\<close>

definition free_of_lock :: "sheap \<Rightarrow> ResqueueDeadLockDetector \<Rightarrow> 64 word \<Rightarrow> bool" where
  "free_of_lock h d sid \<longleftrightarrow> (case sess h d sid of None \<Rightarrow> True | Some s \<Rightarrow> \<not> st_Locked s)"


lemma no_session_noop:
  assumes "det_rep h d" "sess h d sid = None"
  shows "addSessionInUseResource h d sid m c = Some (RESQUEMGR_NO_SESSIONID, h, d)"
    "minusSessionInUserResource h d sid m c = Some (RESQUEMGR_NO_SESSIONID, h, d)"
    "removeSession h d sid = Some (RESQUEMGR_NO_SESSIONID, h, d)"
    "unlockSessionResource h d sid = Some (h, d)"
  using get_session(1) [OF assms(1), of sid] assms(2) by (simp_all add: session_ops)

lemmas total_simps = det_inv_def session_total_update locked_only_def

lemma lock_inv:
  assumes "det_inv h d" "free_of_lock h d sid" "createAndLockSessionResource h d sid = Some (h', d')"
  shows "det_inv h' d'"
proof -
  have "det_rep h d" using assms by (simp add: det_inv_def)
  then show ?thesis
    by (rule lock_spec [where sid = sid])
      (use assms in \<open>auto simp: total_simps free_of_lock_def fresh_session_def split: option.splits\<close>)
qed

lemma unlock_inv:
  assumes "det_inv h d" "sess h d sid = Some s" "st_Locked s" "unlockSessionResource h d sid = Some (h', d')"
  shows "det_inv h' d'"
proof -
  have "det_rep h d" using assms by (simp add: det_inv_def)
  from this assms(2) show ?thesis
    by (rule unlock_spec) (use assms in \<open>auto simp: total_simps\<close>)
qed

lemma add_inv:
  assumes "det_inv h d" "free_of_lock h d sid" "addSessionInUseResource h d sid m c = Some (code, h', d')"
  shows "det_inv h' d'"
proof (cases "sess h d sid")
  case None
  with assms show ?thesis using no_session_noop(1) [of h d sid m c] by (simp add: det_inv_def)
next
  case (Some s)
  have "det_rep h d" using assms by (simp add: det_inv_def)
  from this Some show ?thesis
    by (rule add_spec [where m = m and c = c])
      (use assms Some in \<open>auto simp: total_simps free_of_lock_def\<close>)
qed





lemma det_inv_initial: "det_inv h initializeResqueueDeadLockDetector"
proof -
  have "sess h initializeResqueueDeadLockDetector = Map.empty"
    by (auto simp: sess_def initializeResqueueDeadLockDetector_def initialize_inv)
  moreover have "det_rep h initializeResqueueDeadLockDetector"
    by (auto simp: det_rep_def initializeResqueueDeadLockDetector_def initialize_inv)
  ultimately show ?thesis
    by (simp add: det_inv_def initializeResqueueDeadLockDetector_def)
qed

section \<open>Properties\<close>


lemma waiting_session:
  obtains h d where "createAndLockSessionResource h0 initializeResqueueDeadLockDetector sid = Some (h, d)"
    "det_inv h d" "sess h d = [sid \<mapsto> (fresh_session sid)\<lparr>st_Locked := True\<rparr>]"
proof -
  have none: "sess h0 initializeResqueueDeadLockDetector = Map.empty"
    by (auto simp: sess_def initializeResqueueDeadLockDetector_def initialize_inv)
  have "det_rep h0 initializeResqueueDeadLockDetector"
    using det_inv_initial [of h0] by (simp add: det_inv_def)
  then obtain h d where 1: "createAndLockSessionResource h0 initializeResqueueDeadLockDetector sid = Some (h, d)"
    "sess h d = [sid \<mapsto> (fresh_session sid)\<lparr>st_Locked := True\<rparr>]"
    by (rule lock_spec [where sid = sid]) (simp add: none)
  have "free_of_lock h0 initializeResqueueDeadLockDetector sid"
    by (simp add: free_of_lock_def none)
  then have "det_inv h d"
    using lock_inv [OF det_inv_initial] 1(1) by blast
  with 1 show ?thesis by (blast intro: that)
qed




text \<open>C25: Returning part of the resource of a locked session makes the locked total drift: after the
  session is unlocked, the total exceeds the resource of the locked sessions by the returned amount.\<close>

theorem minus_on_locked_session_drifts:
  assumes "det_inv h d" "sess h d sid = Some s" "st_Locked s" "st_InUseTotalMemoryMB s \<noteq> m"
  shows "\<exists>h1 d1 h2 d2. minusSessionInUserResource h d sid m c = Some (FUNC_RETURN_OK, h1, d1) \<and>
    unlockSessionResource h1 d1 sid = Some (h2, d2) \<and>
    dl_LockedTotalMemoryMB d2 = session_total (locked_only st_InUseTotalMemoryMB) (sess h2 d2) + m"
proof -
  have rep: "det_rep h d" using assms by (simp add: det_inv_def)
  obtain h1 d1 where 1: "minusSessionInUserResource h d sid m c = Some (FUNC_RETURN_OK, h1, d1)" "det_rep h1 d1"
    "sess h1 d1 = (sess h d)(sid \<mapsto> s\<lparr>st_InUseTotalMemoryMB := st_InUseTotalMemoryMB s - m,
       st_InUseTotalCore := st_InUseTotalCore s - c\<rparr>)"
    "dl_LockedTotalMemoryMB d1 = dl_LockedTotalMemoryMB d"
    by (rule minus_spec [OF rep assms(2), of m c]) (use assms(4) in auto)
  have "sess h1 d1 sid = Some (s\<lparr>st_InUseTotalMemoryMB := st_InUseTotalMemoryMB s - m,
       st_InUseTotalCore := st_InUseTotalCore s - c\<rparr>)"
    by (simp add: 1(3))
  with 1(2) obtain h2 d2 where 2: "unlockSessionResource h1 d1 sid = Some (h2, d2)"
    "sess h2 d2 = (sess h1 d1)(sid \<mapsto> s\<lparr>st_InUseTotalMemoryMB := st_InUseTotalMemoryMB s - m,
       st_InUseTotalCore := st_InUseTotalCore s - c, st_Locked := False\<rparr>)"
    "dl_LockedTotalMemoryMB d2 = dl_LockedTotalMemoryMB d1 - (st_InUseTotalMemoryMB s - m)"
    by (rule unlock_spec) simp
  have "dl_LockedTotalMemoryMB d2 = session_total (locked_only st_InUseTotalMemoryMB) (sess h2 d2) + m"
    using assms 1(3,4) 2(2,3) by (simp add: total_simps)
  with 1(1) 2(1) show ?thesis by blast
qed

text \<open>A reachable state with one session that holds 10 MB and waits for more.\<close>

lemma busy_session:
  obtains h d where "det_inv h d"
    "sess h d = [5 \<mapsto> \<lparr>st_SessionID = 5, st_InUseTotalMemoryMB = 10, st_InUseTotalCore = 2, st_Locked = True\<rparr>]"
proof -
  obtain h1 d1 where 1: "det_inv h1 d1" "sess h1 d1 = [5 \<mapsto> (fresh_session 5)\<lparr>st_Locked := True\<rparr>]"
    by (rule waiting_session)
  then have "det_rep h1 d1" "sess h1 d1 5 = Some ((fresh_session 5)\<lparr>st_Locked := True\<rparr>)"
    by (simp_all add: det_inv_def)
  then obtain h2 d2 where 2: "unlockSessionResource h1 d1 5 = Some (h2, d2)" "sess h2 d2 = [5 \<mapsto> fresh_session 5]"
    by (rule unlock_spec) (simp add: 1(2) fresh_session_def)
  have inv2: "det_inv h2 d2"
    using unlock_inv [OF 1(1) _ _ 2(1)] 1(2) by simp
  then have "det_rep h2 d2" "sess h2 d2 5 = Some (fresh_session 5)"
    using 2(2) by (simp_all add: det_inv_def)
  then obtain h3 d3 where 3: "addSessionInUseResource h2 d2 5 10 2 = Some (FUNC_RETURN_OK, h3, d3)"
    "sess h3 d3 = [5 \<mapsto> \<lparr>st_SessionID = 5, st_InUseTotalMemoryMB = 10, st_InUseTotalCore = 2, st_Locked = False\<rparr>]"
    by (rule add_spec [where m = 10 and c = 2]) (simp add: 2(2) fresh_session_def)
  have inv3: "det_inv h3 d3"
    using add_inv [OF inv2 _ 3(1)] 2(2) by (simp add: free_of_lock_def fresh_session_def)
  then have "det_rep h3 d3" by (simp add: det_inv_def)
  then obtain h4 d4 where 4: "createAndLockSessionResource h3 d3 5 = Some (h4, d4)"
    "sess h4 d4 = [5 \<mapsto> \<lparr>st_SessionID = 5, st_InUseTotalMemoryMB = 10, st_InUseTotalCore = 2, st_Locked = True\<rparr>]"
    by (rule lock_spec [where sid = 5]) (simp add: 3(2))
  have "det_inv h4 d4"
    using lock_inv [OF inv3 _ 4(1)] 3(2) by (simp add: free_of_lock_def)
  with 4(2) show ?thesis by (blast intro: that)
qed

theorem minus_on_locked_session_drifts_witness:
  "\<exists>h d h1 d1 h2 d2. det_inv h d \<and> minusSessionInUserResource h d 5 4 1 = Some (FUNC_RETURN_OK, h1, d1) \<and>
     unlockSessionResource h1 d1 5 = Some (h2, d2) \<and>
     dl_LockedTotalMemoryMB d2 = session_total (locked_only st_InUseTotalMemoryMB) (sess h2 d2) + 4"
proof -
  obtain h d where 1: "det_inv h d"
    "sess h d = [5 \<mapsto> \<lparr>st_SessionID = 5, st_InUseTotalMemoryMB = 10, st_InUseTotalCore = 2, st_Locked = True\<rparr>]"
    by (rule busy_session)
  then show ?thesis
    using minus_on_locked_session_drifts [OF 1(1), of 5 _ 4 1] by fastforce
qed

end
