(* ===== verification/RM_BBST.thy ===== *)
theory RM_BBST
  imports RM_HashTable
begin

text \<open>
  The balanced binary search tree of \<^verbatim>\<open>utils/balancedbst.c\<close>.  A tree is a term whose nodes carry the
  stored \<^verbatim>\<open>NodeCount\<close> and \<^verbatim>\<open>Depth\<close> of the C nodes; these are labels of the model, updated where the code
  updates them and stale where it does not.  A node is known by its datum, the pointer the index table
  is keyed by.  The walk along the \<^verbatim>\<open>Parent\<close> pointers is a walk along the path from the root (a list of
  frames), and a dereference of \<^verbatim>\<open>NULL\<close> is the result \<^term>\<open>None\<close>.
\<close>

section \<open>Trees\<close>

type_synonym data = uint64

datatype bbst = Tip | Nd (bleft: bbst) (bdata: data) (bright: bbst) (bcount: nat) (bdepth: nat)

text \<open>\<^verbatim>\<open>(node)->Left ? (node)->Left->NodeCount : 0\<close> and the same for \<^verbatim>\<open>Depth\<close>.\<close>

fun cnt :: "bbst \<Rightarrow> nat" where
  "cnt Tip = 0"
| "cnt (Nd l x r c p) = c"

fun dep :: "bbst \<Rightarrow> nat" where
  "dep Tip = 0"
| "dep (Nd l x r c p) = p"

definition calculateNodeCount :: "bbst \<Rightarrow> bbst \<Rightarrow> nat" where
  "calculateNodeCount l r = cnt l + cnt r + 1"

definition calculateNodeDepth :: "bbst \<Rightarrow> bbst \<Rightarrow> nat" where
  "calculateNodeDepth l r = (if dep r > dep l then dep r else dep l) + 1"

text \<open>A node with both labels computed from its children.\<close>

definition mk :: "bbst \<Rightarrow> data \<Rightarrow> bbst \<Rightarrow> bbst" where
  "mk l x r = Nd l x r (calculateNodeCount l r) (calculateNodeDepth l r)"

definition balance_diff :: "bbst \<Rightarrow> bbst \<Rightarrow> int" where
  "balance_diff l r = int (dep l) - int (dep r)"

fun getBalanceFactor :: "bbst \<Rightarrow> int" where
  "getBalanceFactor Tip = 0"
| "getBalanceFactor (Nd l x r c p) = balance_diff l r"

text \<open>The rotations; the last equations are unreachable, since a negative (positive) balance factor
  means a right (left) child.\<close>

fun rotateNodeBelowLeft :: "bbst \<Rightarrow> bbst" where
  "rotateNodeBelowLeft (Nd a xa (Nd b xb b' cb pb) ca pa) =
     (if balance_diff b b' > 0
      then (case b of
              Nd c xc d cc pc \<Rightarrow> mk (mk a xa c) xc (mk d xb b')
            | Tip \<Rightarrow> Nd a xa (Nd b xb b' cb pb) ca pa)
      else mk (mk a xa b) xb b')"
| "rotateNodeBelowLeft t = t"

fun rotateNodeBelowRight :: "bbst \<Rightarrow> bbst" where
  "rotateNodeBelowRight (Nd (Nd b xb b' cb pb) xa a ca pa) =
     (if balance_diff b b' < 0
      then (case b' of
              Nd c xc d cc pc \<Rightarrow> mk (mk b xb c) xc (mk d xa a)
            | Tip \<Rightarrow> Nd (Nd b xb b' cb pb) xa a ca pa)
      else mk b xb (mk b' xa a))"
| "rotateNodeBelowRight t = t"

section \<open>Paths\<close>

datatype frame =
    InLeft data bbst nat nat    \<comment> \<open>the walk is in the left child: datum, right child, labels\<close>
  | InRight bbst data nat nat   \<comment> \<open>the walk is in the right child: left child, datum, labels\<close>

fun plug :: "bbst \<Rightarrow> frame \<Rightarrow> bbst" where
  "plug t (InLeft x r c p) = Nd t x r c p"
| "plug t (InRight l x c p) = Nd l x t c p"

text \<open>\<^verbatim>\<open>shiftupCalculateChildCountAndDepth\<close>: recompute the labels of the ancestors of a child.\<close>

fun shiftup :: "bbst \<Rightarrow> frame list \<Rightarrow> frame list" where
  "shiftup t [] = []"
| "shiftup t (InLeft x r c p # fs) =
     InLeft x r (calculateNodeCount t r) (calculateNodeDepth t r) # shiftup (mk t x r) fs"
| "shiftup t (InRight l x c p # fs) =
     InRight l x (calculateNodeCount l t) (calculateNodeDepth l t) # shiftup (mk l x t) fs"

text \<open>The number of nodes whose stored depth is not that of their children: a rotation makes the nodes
  it touches consistent, which is why the loop of \<^verbatim>\<open>rebalanceBBST\<close> ends.\<close>

fun incons :: "bbst \<Rightarrow> nat" where
  "incons Tip = 0"
| "incons (Nd l x r c p) = incons l + incons r + (if p = calculateNodeDepth l r then 0 else 1)"

lemma mk_simps [simp]:
  "incons (mk l x r) = incons l + incons r" "dep (mk l x r) = calculateNodeDepth l r"
  "cnt (mk l x r) = calculateNodeCount l r" "getBalanceFactor (mk l x r) = balance_diff l r" "mk l x r \<noteq> Tip"
  by (simp_all add: mk_def)

lemma dep_pos_Nd: "0 < dep t \<Longrightarrow> \<exists>l x r c p. t = Nd l x r c p"
  by (cases t) auto

definition unbal :: "bbst \<Rightarrow> nat" where
  "unbal t = (if getBalanceFactor t > 1 \<or> getBalanceFactor t < - 1 then 1 else 0)"

definition rot_measure :: "((bbst \<times> frame list) \<times> (bbst \<times> frame list)) set" where
  "rot_measure = measures [\<lambda>(t, path). length path, \<lambda>(t, path). incons t, \<lambda>(t, path). dep t, \<lambda>(t, path). unbal t]"

lemma rotateRight_decreases:
  assumes "getBalanceFactor t > 1"
  shows "((rotateNodeBelowRight t, path), (t, path)) \<in> rot_measure"
proof -
  obtain l x r c p where t: "t = Nd l x r c p" using assms by (cases t) auto
  have "0 < dep l" using assms by (simp add: t balance_diff_def)
  then obtain b xb b' cb pb where l: "l = Nd b xb b' cb pb" using dep_pos_Nd by blast
  show ?thesis
  proof (cases "balance_diff b b' < 0")
    case True
    then have "0 < dep b'" by (simp add: balance_diff_def)
    then obtain e xc d cc pc where "b' = Nd e xc d cc pc" using dep_pos_Nd by blast
    with True assms show ?thesis
      by (auto simp: rot_measure_def t l balance_diff_def calculateNodeDepth_def unbal_def)
  next
    case False
    with assms show ?thesis
      by (auto simp: rot_measure_def t l balance_diff_def calculateNodeDepth_def unbal_def)
  qed
qed

lemma rotateLeft_decreases:
  assumes "getBalanceFactor t < - 1"
  shows "((rotateNodeBelowLeft t, path), (t, path)) \<in> rot_measure"
proof -
  obtain l x r c p where t: "t = Nd l x r c p" using assms by (cases t) auto
  have "0 < dep r" using assms by (simp add: t balance_diff_def)
  then obtain b xb b' cb pb where r: "r = Nd b xb b' cb pb" using dep_pos_Nd by blast
  show ?thesis
  proof (cases "balance_diff b b' > 0")
    case True
    then have "0 < dep b" by (simp add: balance_diff_def)
    then obtain e xc d cc pc where "b = Nd e xc d cc pc" using dep_pos_Nd by blast
    with True assms show ?thesis
      by (auto simp: rot_measure_def t r balance_diff_def calculateNodeDepth_def unbal_def)
  next
    case False
    with assms show ?thesis
      by (auto simp: rot_measure_def t r balance_diff_def calculateNodeDepth_def unbal_def)
  qed
qed

text \<open>\<^verbatim>\<open>rebalanceBBST\<close>, from a node up to the root: after a rotation \<^verbatim>\<open>p->Parent\<close> is the new root of the
  rotated subtree, so that one is looked at next.\<close>

function rebalanceBBST :: "bbst \<Rightarrow> frame list \<Rightarrow> bbst" where
  "rebalanceBBST t path =
     (if getBalanceFactor t > 1 then rebalanceBBST (rotateNodeBelowRight t) path
      else if getBalanceFactor t < - 1 then rebalanceBBST (rotateNodeBelowLeft t) path
      else (case path of [] \<Rightarrow> t | f # fs \<Rightarrow> rebalanceBBST (plug t f) fs))"
  by pat_completeness auto

termination
  by (relation rot_measure)
    (simp_all add: rotateRight_decreases rotateLeft_decreases, simp_all add: rot_measure_def)

declare rebalanceBBST.simps [simp del]

section \<open>The tree and its index\<close>

record BBST =
  bt_Root :: bbst
  bt_Free :: nat   \<comment> \<open>length of the list of nodes kept for reuse\<close>
  DataCompFunc :: "data \<Rightarrow> data \<Rightarrow> int"
  NodeIndex :: "(data, unit) HASHTABLE"

text \<open>A node outside the tree: its datum and the labels it carries, its children being \<^verbatim>\<open>NULL\<close>.\<close>

record BBSTNode =
  bn_Data :: data
  bn_NodeCount :: nat
  bn_Depth :: nat

definition initializeBBST :: "(data \<Rightarrow> data \<Rightarrow> int) \<Rightarrow> BBST" where
  "initializeBBST compfunc =
     \<lparr>bt_Root = Tip, bt_Free = 0, DataCompFunc = compfunc,
      NodeIndex = initializeHASHTABLE HASHTABLE_Hash_VOIDPT HASHTABLE_Comp_VOIDPT 256 (1024 * 1024 * 1024) False\<rparr>"

text \<open>\<^verbatim>\<open>createBBSTNode\<close> takes a node from the free list when there is one; \<^verbatim>\<open>freeBBSTNode\<close> means to add one,
  but writes the old list head back (\<^verbatim>\<open>node->Right = tree->Free; tree->Free = node->Right\<close>).\<close>

definition createBBSTNode :: "BBST \<Rightarrow> data \<Rightarrow> BBSTNode \<times> BBST" where
  "createBBSTNode t d = (\<lparr>bn_Data = d, bn_NodeCount = 1, bn_Depth = 1\<rparr>, t\<lparr>bt_Free := bt_Free t - 1\<rparr>)"

definition freeBBSTNode :: "BBST \<Rightarrow> BBSTNode \<Rightarrow> BBST" where
  "freeBBSTNode t node = (let right = bt_Free t in t\<lparr>bt_Free := right\<rparr>)"

fun leaf_of :: "BBSTNode \<Rightarrow> bbst" where
  "leaf_of node = Nd Tip (bn_Data node) Tip (bn_NodeCount node) (bn_Depth node)"

text \<open>The descent of \<^verbatim>\<open>insertBBSTNode\<close> to the place of a new leaf.\<close>

fun descend :: "(data \<Rightarrow> data \<Rightarrow> int) \<Rightarrow> data \<Rightarrow> bbst \<Rightarrow> frame list \<Rightarrow> frame list" where
  "descend cmp d Tip path = path"
| "descend cmp d (Nd l x r c p) path =
     (if cmp x d < 0 then descend cmp d r (InRight l x c p # path)
      else descend cmp d l (InLeft x r c p # path))"

definition insertBBSTNode :: "BBST \<Rightarrow> BBSTNode \<Rightarrow> drm_code \<times> BBST" where
  "insertBBSTNode t node =
     (if getHASHTABLENode (NodeIndex t) (bn_Data node) \<noteq> None then (UTIL_BBST_DUPLICATE_VALUE, t)
      else
        let t = t\<lparr>NodeIndex := ht_set (NodeIndex t) (bn_Data node) (Some ())\<rparr> in
        if bt_Root t = Tip then (FUNC_RETURN_OK, t\<lparr>bt_Root := leaf_of node\<rparr>)
        else
          let path = descend (DataCompFunc t) (bn_Data node) (bt_Root t) [];
              path = shiftup (leaf_of node) path
          in (FUNC_RETURN_OK, t\<lparr>bt_Root := rebalanceBBST (leaf_of node) path\<rparr>))"

text \<open>The node that holds a datum, with the path to it.\<close>

fun locate :: "data \<Rightarrow> bbst \<Rightarrow> frame list \<Rightarrow> (bbst \<times> frame list) option" where
  "locate d Tip path = None"
| "locate d (Nd l x r c p) path =
     (if x = d then Some (Nd l x r c p, path)
      else case locate d l (InLeft x r c p # path) of
             Some res \<Rightarrow> Some res
           | None \<Rightarrow> locate d r (InRight l x c p # path))"

text \<open>The loop to the rightmost node of a subtree: that node and the path to it.\<close>

fun rightmost :: "bbst \<Rightarrow> frame list \<Rightarrow> bbst \<times> frame list" where
  "rightmost (Nd l x (Nd l' x' r' c' p') c p) path = rightmost (Nd l' x' r' c' p') (InRight l x c p # path)"
| "rightmost t path = (t, path)"

text \<open>Cases 1, 2.1 and 2.2 of \<^verbatim>\<open>removeBBSTNode\<close>: a node with at most one child is replaced by it in its
  parent; without a parent the macro \<^verbatim>\<open>disconnectChild\<close> dereferences \<^verbatim>\<open>NULL\<close>.\<close>

definition replaceByChild :: "bbst \<Rightarrow> frame list \<Rightarrow> bbst option" where
  "replaceByChild child path =
     (case shiftup child path of
        [] \<Rightarrow> None
      | f # fs \<Rightarrow> Some (rebalanceBBST (plug child f) fs))"

definition only_child :: "bbst \<Rightarrow> bbst \<Rightarrow> bbst" where
  "only_child l r = (if l = Tip then r else l)"

definition removeBBSTNode :: "BBST \<Rightarrow> data \<Rightarrow> (drm_code \<times> BBSTNode option \<times> BBST) option" where
  "removeBBSTNode t d =
     (if getHASHTABLENode (NodeIndex t) d = None then Some (UTIL_BBST_NOT_IN_THIS_TREE, None, t)
      else case locate d (bt_Root t) [] of
        Some (Nd l x r c p, path) \<Rightarrow>
          let node = Some \<lparr>bn_Data = d, bn_NodeCount = c, bn_Depth = p\<rparr>;
              idx = ht_remove (NodeIndex t) d
          in
          if path = [] \<and> c = 1 then
            Some (FUNC_RETURN_OK, node, t\<lparr>bt_Root := Tip, NodeIndex := snd (clearHASHTABLE (NodeIndex t))\<rparr>)
          else if path = [] \<and> r = Tip \<and> l \<noteq> Tip then
            Some (FUNC_RETURN_OK, node, t\<lparr>bt_Root := l, NodeIndex := idx\<rparr>)
          else if path = [] \<and> r \<noteq> Tip \<and> l = Tip then
            Some (FUNC_RETURN_OK, node, t\<lparr>bt_Root := r, NodeIndex := idx\<rparr>)
          else if l = Tip \<or> r = Tip then do {
            root \<leftarrow> replaceByChild (only_child l r) path;
            Some (FUNC_RETURN_OK, node, t\<lparr>bt_Root := root, NodeIndex := idx\<rparr>)
          }
          else
            (case rightmost l [] of
               (Nd l' y r' c' p', path') \<Rightarrow>
                 let idx = ht_set (ht_set (NodeIndex t) d (Some ())) y (Some ())
                 in do {
                   root \<leftarrow> replaceByChild (only_child l' r') (path' @ [InLeft y r c p] @ path);
                   Some (FUNC_RETURN_OK, Some \<lparr>bn_Data = d, bn_NodeCount = c', bn_Depth = p'\<rparr>,
                         t\<lparr>bt_Root := root, NodeIndex := ht_remove idx d\<rparr>)
                 }
             | (Tip, path') \<Rightarrow> None)
      | _ \<Rightarrow> None)"


text \<open>\<^verbatim>\<open>clearBBST\<close> removes the root until the tree is empty; whether the loop ends depends on the labels, so
  it is a partial function.\<close>

partial_function (option) clearBBST :: "BBST \<Rightarrow> BBST option" where
  "clearBBST t =
     (case bt_Root t of
        Tip \<Rightarrow> Some t
      | Nd l x r c p \<Rightarrow> do {
          (res, node, t) \<leftarrow> removeBBSTNode t x;
          clearBBST (case node of None \<Rightarrow> t | Some n \<Rightarrow> freeBBSTNode t n)
        })"

definition freeBBSTFreeNodes :: "BBST \<Rightarrow> BBST" where
  "freeBBSTFreeNodes t = t\<lparr>bt_Free := 0\<rparr>"

text \<open>The tree is cleared and its free nodes released; the result is what then goes back to the allocator.\<close>

definition freeBBST :: "BBST \<Rightarrow> BBST option" where
  "freeBBST t = do {
     t \<leftarrow> clearBBST t;
     Some (freeBBSTFreeNodes t)
   }"

definition getBBSTNodeCount :: "BBST \<Rightarrow> nat" where
  "getBBSTNodeCount t = cnt (bt_Root t)"

fun getDepthOfBBST :: "bbst \<Rightarrow> nat" where
  "getDepthOfBBST Tip = 0"
| "getDepthOfBBST (Nd l x r c p) =
     (let leftdepth = getDepthOfBBST l; rightdepth = getDepthOfBBST r
      in if leftdepth > rightdepth then leftdepth + 1 else rightdepth + 1)"

definition getMaxDepthofBBST :: "BBST \<Rightarrow> nat" where
  "getMaxDepthofBBST t = getDepthOfBBST (bt_Root t)"

fun leftmost_data :: "bbst \<Rightarrow> data option" where
  "leftmost_data Tip = None"
| "leftmost_data (Nd Tip x r c p) = Some x"
| "leftmost_data (Nd l x r c p) = leftmost_data l"

fun rightmost_data :: "bbst \<Rightarrow> data option" where
  "rightmost_data Tip = None"
| "rightmost_data (Nd l x Tip c p) = Some x"
| "rightmost_data (Nd l x r c p) = rightmost_data r"

definition getLeftMostNode :: "BBST \<Rightarrow> data option" where
  "getLeftMostNode t = leftmost_data (bt_Root t)"

definition getRightMostNode :: "BBST \<Rightarrow> data option" where
  "getRightMostNode t = rightmost_data (bt_Root t)"

text \<open>The traversals.  \<open>p\<close> is the current subtree, the stack holds nodes as their datum and right child,
  and each equation is a branch of the loop.\<close>

fun nodes :: "bbst \<Rightarrow> nat" where
  "nodes Tip = 0"
| "nodes (Nd l x r c p) = nodes l + nodes r + 1"

fun midorder_loop_measure :: "bbst \<times> (data \<times> bbst) list \<times> data list \<Rightarrow> nat" where
  "midorder_loop_measure (p, stack, lns) = 2 * nodes p + sum_list (map (\<lambda>s. 2 * nodes (snd s) + 1) stack)"

function midorder_loop :: "bbst \<Rightarrow> (data \<times> bbst) list \<Rightarrow> data list \<Rightarrow> data list" where
  "midorder_loop (Nd l x r c p) stack lns = midorder_loop l ((x, r) # stack) lns"
| "midorder_loop Tip ((x, r) # stack) lns = midorder_loop r stack (lns @ [x])"
| "midorder_loop Tip [] lns = lns"
  by pat_completeness auto
termination
  by (relation "measure midorder_loop_measure") auto

function preorder_loop :: "bbst \<Rightarrow> (data \<times> bbst) list \<Rightarrow> data list \<Rightarrow> int \<Rightarrow> data list" where
  "preorder_loop (Nd l x r c p) stack lns maxcount =
     (if maxcount > 0 \<and> int (length (lns @ [x])) = maxcount then lns @ [x]
      else preorder_loop l ((x, r) # stack) (lns @ [x]) maxcount)"
| "preorder_loop Tip ((x, r) # stack) lns maxcount = preorder_loop r stack lns maxcount"
| "preorder_loop Tip [] lns maxcount = lns"
  by pat_completeness auto
termination
  by (relation "measure (\<lambda>(p, stack, lns, m). midorder_loop_measure (p, stack, lns))") auto

definition traverseBBSTMidOrder :: "BBST \<Rightarrow> data list \<Rightarrow> data list" where
  "traverseBBSTMidOrder t lns = midorder_loop (bt_Root t) [] lns"

definition traverseBBSTPreOrder :: "BBST \<Rightarrow> data list \<Rightarrow> int \<Rightarrow> data list" where
  "traverseBBSTPreOrder t lns maxcount = preorder_loop (bt_Root t) [] lns maxcount"

section \<open>Order and counts\<close>

fun inorder :: "bbst \<Rightarrow> data list" where
  "inorder Tip = []"
| "inorder (Nd l x r c p) = inorder l @ x # inorder r"

fun count_ok :: "bbst \<Rightarrow> bool" where
  "count_ok Tip = True"
| "count_ok (Nd l x r c p) = (count_ok l \<and> count_ok r \<and> c = nodes l + nodes r + 1)"

text \<open>What a path contributes on either side of the subtree it leads to, and that its counts are right
  but for the subtree.\<close>

fun before :: "frame list \<Rightarrow> data list" where
  "before [] = []"
| "before (InLeft x r c p # fs) = before fs"
| "before (InRight l x c p # fs) = before fs @ inorder l @ [x]"

fun after :: "frame list \<Rightarrow> data list" where
  "after [] = []"
| "after (InLeft x r c p # fs) = x # inorder r @ after fs"
| "after (InRight l x c p # fs) = after fs"

fun path_ok :: "nat \<Rightarrow> frame list \<Rightarrow> bool" where
  "path_ok n [] = True"
| "path_ok n (InLeft x r c p # fs) = (count_ok r \<and> c = n + nodes r + 1 \<and> path_ok c fs)"
| "path_ok n (InRight l x c p # fs) = (count_ok l \<and> c = n + nodes l + 1 \<and> path_ok c fs)"

fun sides_ok :: "frame list \<Rightarrow> bool" where
  "sides_ok [] = True"
| "sides_ok (InLeft x r c p # fs) = (count_ok r \<and> sides_ok fs)"
| "sides_ok (InRight l x c p # fs) = (count_ok l \<and> sides_ok fs)"

lemma inorder_mk [simp]: "inorder (mk l x r) = inorder l @ x # inorder r"
  by (simp add: mk_def)

lemma nodes_mk [simp]: "nodes (mk l x r) = nodes l + nodes r + 1"
  by (simp add: mk_def)

lemma count_ok_cnt: "count_ok t \<Longrightarrow> cnt t = nodes t"
  by (cases t) auto

lemma count_ok_mk [simp]: "count_ok (mk l x r) \<longleftrightarrow> count_ok l \<and> count_ok r"
  by (auto simp: mk_def calculateNodeCount_def count_ok_cnt)

lemma length_inorder [simp]: "length (inorder t) = nodes t"
  by (induction t) auto

lemma inorder_plug [simp]: "inorder (plug t f) = before [f] @ inorder t @ after [f]"
  by (cases f) auto

lemma before_Cons: "before (f # fs) = before fs @ before [f]" and after_Cons: "after (f # fs) = after [f] @ after fs"
  by (cases f; simp)+

lemma before_append: "before (p @ q) = before q @ before p"
proof (induction p)
  case (Cons f p)
  then show ?case by (cases f) auto
qed simp

lemma after_append: "after (p @ q) = after p @ after q"
proof (induction p)
  case (Cons f p)
  then show ?case by (cases f) auto
qed simp

lemma sides_append [simp]: "sides_ok (p @ q) \<longleftrightarrow> sides_ok p \<and> sides_ok q"
proof (induction p)
  case (Cons f p)
  then show ?case by (cases f) auto
qed simp

lemma rotateRight_inv:
  "inorder (rotateNodeBelowRight t) = inorder t" "nodes (rotateNodeBelowRight t) = nodes t"
  "count_ok t \<Longrightarrow> count_ok (rotateNodeBelowRight t)"
  by (induction t rule: rotateNodeBelowRight.induct) (auto split: bbst.splits)

lemma rotateLeft_inv:
  "inorder (rotateNodeBelowLeft t) = inorder t" "nodes (rotateNodeBelowLeft t) = nodes t"
  "count_ok t \<Longrightarrow> count_ok (rotateNodeBelowLeft t)"
  by (induction t rule: rotateNodeBelowLeft.induct) (auto split: bbst.splits)

lemma inorder_rebalance: "inorder (rebalanceBBST t path) = before path @ inorder t @ after path"
proof (induction t path rule: rebalanceBBST.induct)
  case (1 t path)
  show ?case
  proof (cases "getBalanceFactor t > 1 \<or> getBalanceFactor t < - 1")
    case True
    with 1 show ?thesis
      by (subst rebalanceBBST.simps) (auto simp: rotateRight_inv rotateLeft_inv)
  next
    case False
    show ?thesis
    proof (cases path)
      case Nil
      with False show ?thesis by (subst rebalanceBBST.simps) simp
    next
      case (Cons f fs)
      with False 1(3) show ?thesis
        by (subst rebalanceBBST.simps) (simp add: before_Cons [of f fs] after_Cons [of f fs])
    qed
  qed
qed

lemma count_ok_plug:
  "count_ok t \<Longrightarrow> path_ok (nodes t) (f # fs) \<Longrightarrow> count_ok (plug t f) \<and> path_ok (nodes (plug t f)) fs"
  by (cases f) (auto simp: add.commute)

lemma count_ok_rebalance: "count_ok t \<Longrightarrow> path_ok (nodes t) path \<Longrightarrow> count_ok (rebalanceBBST t path)"
proof (induction t path rule: rebalanceBBST.induct)
  case (1 t path)
  show ?case
  proof (cases "getBalanceFactor t > 1 \<or> getBalanceFactor t < - 1")
    case True
    with 1 show ?thesis
      by (subst rebalanceBBST.simps) (auto simp: rotateRight_inv rotateLeft_inv)
  next
    case False
    show ?thesis
    proof (cases path)
      case Nil
      with False 1 show ?thesis by (subst rebalanceBBST.simps) simp
    next
      case (Cons f fs)
      with False 1(3-5) count_ok_plug [of t f fs] show ?thesis by (subst rebalanceBBST.simps) simp
    qed
  qed
qed

lemma shiftup_sides [simp]: "before (shiftup t path) = before path" "after (shiftup t path) = after path"
  by (induction t path rule: shiftup.induct) auto

lemma shiftup_path_ok: "count_ok t \<Longrightarrow> sides_ok path \<Longrightarrow> path_ok (nodes t) (shiftup t path)"
  by (induction t path rule: shiftup.induct)
    (auto simp: calculateNodeCount_def count_ok_cnt)

lemma shiftup_Nil [simp]: "shiftup t path = [] \<longleftrightarrow> path = []"
  by (induction t path rule: shiftup.induct) auto

lemma descend_sides: "count_ok t \<Longrightarrow> sides_ok path \<Longrightarrow> sides_ok (descend cmp d t path)"
  by (induction cmp d t path rule: descend.induct) auto

lemma descend_split:
  "before (descend cmp d t path) @ after (descend cmp d t path) = before path @ inorder t @ after path"
  by (induction cmp d t path rule: descend.induct) auto

lemma locate_None: "locate d t path = None \<longleftrightarrow> d \<notin> set (inorder t)"
  by (induction d t path rule: locate.induct) (auto split: option.splits)

lemma locate_Some:
  "locate d t path = Some (s, path') \<Longrightarrow>
     (\<exists>l r c p. s = Nd l d r c p) \<and>
     before path' @ inorder s @ after path' = before path @ inorder t @ after path \<and>
     (count_ok t \<longrightarrow> sides_ok path \<longrightarrow> count_ok s \<and> sides_ok path') \<and>
     (path' = [] \<longrightarrow> path = [] \<and> s = t)"
proof (induction d t path rule: locate.induct)
  case (2 d l x r c p path)
  show ?case
  proof (cases "x = d")
    case False
    show ?thesis
    proof (cases "locate d l (InLeft x r c p # path)")
      case None
      with 2 False show ?thesis by auto
    next
      case (Some a)
      with 2 False show ?thesis by auto
    qed
  qed (use 2 in auto)
qed simp

lemma rightmost_spec:
  "t \<noteq> Tip \<Longrightarrow> rightmost t path = (s, path') \<Longrightarrow>
     \<exists>l y c p. s = Nd l y Tip c p \<and>
       before path' @ inorder l @ [y] @ after path' = before path @ inorder t @ after path \<and>
       after path' = after path \<and>
       (count_ok t \<longrightarrow> sides_ok path \<longrightarrow> count_ok l \<and> sides_ok path')"
  by (induction t path rule: rightmost.induct) auto

lemma replaceByChild_spec:
  assumes "path \<noteq> []"
  shows "\<exists>rt. replaceByChild child path = Some rt \<and> inorder rt = before path @ inorder child @ after path \<and>
    (count_ok child \<longrightarrow> sides_ok path \<longrightarrow> count_ok rt)"
proof -
  obtain f fs where f: "shiftup child path = f # fs"
    using assms by (cases "shiftup child path") auto
  have "inorder (rebalanceBBST (plug child f) fs) = before (f # fs) @ inorder child @ after (f # fs)"
    by (simp add: inorder_rebalance before_Cons [of f fs] after_Cons [of f fs])
  also have "\<dots> = before path @ inorder child @ after path"
    by (simp flip: f)
  finally have 1: "inorder (rebalanceBBST (plug child f) fs) = \<dots>" .
  have 2: "count_ok (rebalanceBBST (plug child f) fs)" if "count_ok child" "sides_ok path"
    using shiftup_path_ok [OF that] count_ok_plug [OF that(1), of f fs] count_ok_rebalance f by simp
  show ?thesis
    using 1 2 by (simp add: replaceByChild_def f)
qed

section \<open>Traversals and extreme nodes\<close>

lemma midorder_loop_eq:
  "midorder_loop t stack lns = lns @ inorder t @ concat (map (\<lambda>(x, r). x # inorder r) stack)"
  by (induction t stack lns rule: midorder_loop.induct) auto

fun preorder :: "bbst \<Rightarrow> data list" where
  "preorder Tip = []"
| "preorder (Nd l x r c p) = x # preorder l @ preorder r"

lemma preorder_loop_eq:
  "maxcount > 0 \<longrightarrow> int (length lns) < maxcount \<Longrightarrow>
   preorder_loop t stack lns maxcount =
     (let all = preorder t @ concat (map (preorder \<circ> snd) stack)
      in lns @ (if maxcount > 0 then take (nat maxcount - length lns) all else all))"
proof (induction t stack lns maxcount rule: preorder_loop.induct)
  case (1 l x r c p stack lns maxcount)
  show ?case
  proof (cases "maxcount > 0 \<and> int (length (lns @ [x])) = maxcount")
    case True
    then have "maxcount = int (Suc (length lns))" by simp
    then have "nat maxcount - length lns = 1" by (simp only: nat_int)
    with True show ?thesis by simp
  next
    case False
    show ?thesis
    proof (cases "maxcount > 0")
      case True
      with False 1(2) have "int (length (lns @ [x])) < maxcount" by simp
      moreover from this have "nat maxcount - length lns = Suc (nat maxcount - length (lns @ [x]))" by simp
      ultimately show ?thesis using False True 1(1) by (simp add: Let_def)
    next
      case nmax: False
      with False 1(1) show ?thesis by (simp add: Let_def)
    qed
  qed
qed (simp_all add: Let_def)

lemma leftmost_hd: "leftmost_data t = (if t = Tip then None else Some (hd (inorder t)))"
  by (induction t rule: leftmost_data.induct) (auto simp: hd_append)

lemma rightmost_last: "rightmost_data t = (if t = Tip then None else Some (last (inorder t)))"
  by (induction t rule: rightmost_data.induct) (auto simp: last_append)

lemma inorder_Nil [simp]: "inorder t = [] \<longleftrightarrow> t = Tip"
  by (cases t) auto

section \<open>The index\<close>

abbreviation low :: "data \<Rightarrow> uint32" where
  "low d \<equiv> ucast d"

definition bbst_inv :: "BBST \<Rightarrow> bool" where
  "bbst_inv t \<longleftrightarrow>
     ht_inv HASHTABLE_Hash_VOIDPT HASHTABLE_Comp_VOIDPT (\<lambda>_. True) (NodeIndex t) \<and>
     (\<forall>d. ht_get (NodeIndex t) d \<noteq> None \<longleftrightarrow> low d \<in> low ` set (inorder (bt_Root t))) \<and>
     distinct (map low (inorder (bt_Root t))) \<and> count_ok (bt_Root t)"

lemma voidpt_cmp: "HASHTABLE_Comp_VOIDPT x y = 0 \<longleftrightarrow> low x = low y"
  by (simp add: HASHTABLE_Comp_VOIDPT_def)

lemmas idx_laws = key_voidpt.ht_keyed [OF _ TrueI TrueI, unfolded voidpt_cmp]

lemma idx_None: "getHASHTABLENode i d = None \<longleftrightarrow> ht_get i d = None"
  by (simp add: ht_get_def)

lemma bbst_inv_initial: "bbst_inv (initializeBBST cmp)"
  by (simp add: bbst_inv_def initializeBBST_def initialize_inv)

section \<open>Insertion\<close>

text \<open>The comparison function orders the data by a key.\<close>

definition orders :: "(data \<Rightarrow> data \<Rightarrow> int) \<Rightarrow> (data \<Rightarrow> int) \<Rightarrow> bool" where
  "orders cmp key \<longleftrightarrow> (\<forall>x y. cmp x y < 0 \<longleftrightarrow> key x < key y)"

lemma descend_order:
  assumes ord: "orders cmp key"
  shows "sorted (map key (before path @ inorder t @ after path)) \<Longrightarrow>
    \<forall>x \<in> set (before path). key x < key d \<Longrightarrow> \<forall>x \<in> set (after path). \<not> key x < key d \<Longrightarrow>
    (\<forall>x \<in> set (before (descend cmp d t path)). key x < key d) \<and>
    (\<forall>x \<in> set (after (descend cmp d t path)). \<not> key x < key d)"
proof (induction t arbitrary: path)
  case (Nd l x r c p)
  have lt: "cmp x d < 0 \<longleftrightarrow> key x < key d"
    using ord by (simp add: orders_def)
  have "\<forall>y \<in> set (inorder l). key y \<le> key x" "\<forall>y \<in> set (inorder r). key x \<le> key y"
    using Nd.prems(1) by (auto simp: sorted_append)
  then have l: "key x < key d \<Longrightarrow> \<forall>y \<in> set (inorder l). key y < key d"
    and r: "\<not> key x < key d \<Longrightarrow> \<forall>y \<in> set (inorder r). \<not> key y < key d"
    by fastforce+
  show ?case
  proof (cases "cmp x d < 0")
    case True
    with lt l Nd.prems have
      "sorted (map key (before (InRight l x c p # path) @ inorder r @ after (InRight l x c p # path)))"
      "\<forall>x \<in> set (before (InRight l x c p # path)). key x < key d"
      "\<forall>x \<in> set (after (InRight l x c p # path)). \<not> key x < key d"
      by auto
    from Nd.IH(2) [OF this] True show ?thesis by simp
  next
    case False
    with lt r Nd.prems have
      "sorted (map key (before (InLeft x r c p # path) @ inorder l @ after (InLeft x r c p # path)))"
      "\<forall>x \<in> set (before (InLeft x r c p # path)). key x < key d"
      "\<forall>x \<in> set (after (InLeft x r c p # path)). \<not> key x < key d"
      by auto
    from Nd.IH(1) [OF this] False show ?thesis by simp
  qed
qed simp

lemma partition_filter:
  assumes "\<forall>x \<in> set xs. P x" "\<forall>x \<in> set ys. \<not> P x"
  shows "filter P (xs @ ys) = xs" "filter (\<lambda>x. \<not> P x) (xs @ ys) = ys"
  using assms by (auto simp: filter_id_conv filter_empty_conv)

lemma sorted_insert_split:
  assumes "sorted (map key (xs @ ys))" "\<forall>x \<in> set xs. key x < (key d :: int)" "\<forall>x \<in> set ys. \<not> key x < key d"
  shows "sorted (map key (xs @ d # ys))"
  using assms by (fastforce simp: sorted_append)

lemma insert_spec:
  assumes inv: "bbst_inv t" and ord: "orders (DataCompFunc t) key"
    and srt: "sorted (map key (inorder (bt_Root t)))"
    and new: "low d \<notin> low ` set (inorder (bt_Root t))" and node: "bn_Data node = d" "bn_NodeCount node = 1"
  obtains t' where "insertBBSTNode t node = (FUNC_RETURN_OK, t')" "bbst_inv t'" "DataCompFunc t' = DataCompFunc t"
    "inorder (bt_Root t') = filter (\<lambda>x. key x < key d) (inorder (bt_Root t)) @ d #
       filter (\<lambda>x. \<not> key x < key d) (inorder (bt_Root t))"
    "sorted (map key (inorder (bt_Root t')))"
proof -
  let ?path = "descend (DataCompFunc t) d (bt_Root t) []"
  let ?i = "ht_set (NodeIndex t) d (Some ())"
  have no: "getHASHTABLENode (NodeIndex t) d = None"
    using inv new by (auto simp: bbst_inv_def idx_None)
  have idx: "ht_inv HASHTABLE_Hash_VOIDPT HASHTABLE_Comp_VOIDPT (\<lambda>_. True) (NodeIndex t)" and
    cok: "count_ok (bt_Root t)"
    using inv by (auto simp: bbst_inv_def)
  have split: "before ?path @ after ?path = inorder (bt_Root t)"
    using descend_split [of _ d "bt_Root t" "[]"] by simp
  have part: "\<forall>x \<in> set (before ?path). key x < key d" "\<forall>x \<in> set (after ?path). \<not> key x < key d"
    using descend_order [OF ord, of "[]" "bt_Root t" d] srt by auto
  note filt = partition_filter [OF part, unfolded split]
  have leaf: "count_ok (leaf_of node)" "inorder (leaf_of node) = [d]"
    using node by simp_all
  obtain root where root: "insertBBSTNode t node = (FUNC_RETURN_OK, t\<lparr>NodeIndex := ?i, bt_Root := root\<rparr>)"
    "inorder root = before ?path @ d # after ?path" "count_ok root"
  proof (cases "bt_Root t = Tip")
    case True
    then show ?thesis
      by (intro that [of "leaf_of node"]) (use leaf no node in \<open>simp_all add: insertBBSTNode_def\<close>)
  next
    case False
    have "count_ok (rebalanceBBST (leaf_of node) (shiftup (leaf_of node) ?path))"
      using leaf(1) shiftup_path_ok [OF leaf(1)] descend_sides [OF cok, of "[]"] by (intro count_ok_rebalance) simp_all
    with False show ?thesis
      by (intro that [of "rebalanceBBST (leaf_of node) (shiftup (leaf_of node) ?path)"])
        (use leaf no node in \<open>simp_all add: insertBBSTNode_def Let_def inorder_rebalance\<close>)
  qed
  let ?t = "t\<lparr>NodeIndex := ?i, bt_Root := root\<rparr>"
  have set: "set (inorder root) = insert d (set (inorder (bt_Root t)))"
    using root(2) by (simp flip: split)
  have "bbst_inv ?t"
    unfolding bbst_inv_def
  proof (intro conjI)
    show "ht_inv HASHTABLE_Hash_VOIDPT HASHTABLE_Comp_VOIDPT (\<lambda>_. True) (NodeIndex ?t)"
      using idx_laws(1) [OF idx] by simp
    show "\<forall>e. ht_get (NodeIndex ?t) e \<noteq> None \<longleftrightarrow> low e \<in> low ` set (inorder (bt_Root ?t))"
      using inv by (auto simp: set idx_laws(3) [OF idx] bbst_inv_def)
    have "distinct (map low (before ?path @ after ?path))" "low d \<notin> low ` set (before ?path @ after ?path)"
      using inv new unfolding split by (auto simp: bbst_inv_def)
    then show "distinct (map low (inorder (bt_Root ?t)))"
      by (auto simp: root(2))
    show "count_ok (bt_Root ?t)" by (simp add: root(3))
  qed
  moreover have "sorted (map key (inorder root))"
    unfolding root(2) using srt part by (intro sorted_insert_split) (simp_all only: split)
  ultimately show ?thesis
    by (intro that [of ?t]) (simp_all add: root filt)
qed

section \<open>Removal\<close>

lemma remove_finish:
  assumes inv: "bbst_inv t" and split: "inorder (bt_Root t) = xs @ d # ys"
    and rt: "inorder rt = xs @ ys" "count_ok rt"
    and i: "ht_inv HASHTABLE_Hash_VOIDPT HASHTABLE_Comp_VOIDPT (\<lambda>_. True) i"
      "\<And>e. ht_get i e \<noteq> None \<longleftrightarrow> low e \<noteq> low d \<and> ht_get (NodeIndex t) e \<noteq> None"
  shows "bbst_inv (t\<lparr>bt_Root := rt, NodeIndex := i\<rparr>)" "inorder rt = remove1 d (inorder (bt_Root t))"
proof -
  have d: "low d \<notin> low ` (set xs \<union> set ys)" "distinct (map low (xs @ ys))"
    using inv by (auto simp: bbst_inv_def split)
  show "bbst_inv (t\<lparr>bt_Root := rt, NodeIndex := i\<rparr>)"
    using inv i d rt by (fastforce simp: bbst_inv_def split)
  have "d \<notin> set xs" using d by auto
  then show "inorder rt = remove1 d (inorder (bt_Root t))"
    by (simp add: split rt remove1_append)
qed

lemma remove_spec:
  assumes inv: "bbst_inv t" and mem: "d \<in> set (inorder (bt_Root t))"
  obtains node t' where "removeBBSTNode t d = Some (FUNC_RETURN_OK, Some node, t')" "bn_Data node = d"
    "bbst_inv t'" "DataCompFunc t' = DataCompFunc t" "inorder (bt_Root t') = remove1 d (inorder (bt_Root t))"
proof -
  let ?H = "ht_inv HASHTABLE_Hash_VOIDPT HASHTABLE_Comp_VOIDPT (\<lambda>_. True)"
  have idx: "?H (NodeIndex t)" and cok: "count_ok (bt_Root t)"
    using inv by (auto simp: bbst_inv_def)
  have present: "getHASHTABLENode (NodeIndex t) d \<noteq> None"
    using inv mem by (auto simp: bbst_inv_def idx_None)
  obtain s path where loc: "locate d (bt_Root t) [] = Some (s, path)"
    using mem locate_None [of d "bt_Root t" "[]"] by auto
  note ls = locate_Some [OF this]
  then obtain l r c p where s: "s = Nd l d r c p" by blast
  have split: "inorder (bt_Root t) = (before path @ inorder l) @ d # (inorder r @ after path)"
    using ls unfolding s by simp
  have ok: "count_ok s" "sides_ok path"
    using ls cok by auto
  note fin = remove_finish [OF inv split]
  have rem: "?H (ht_remove (NodeIndex t) d)"
    "\<And>e. ht_get (ht_remove (NodeIndex t) d) e \<noteq> None \<longleftrightarrow> low e \<noteq> low d \<and> ht_get (NodeIndex t) e \<noteq> None"
    using idx_laws(2,4) [OF idx] by auto
  consider (alone) "path = []" "l = Tip" "r = Tip"
    | (root_left) "path = []" "l \<noteq> Tip" "r = Tip"
    | (root_right) "path = []" "l = Tip" "r \<noteq> Tip"
    | (one) "path \<noteq> []" "l = Tip \<or> r = Tip"
    | (two) "l \<noteq> Tip" "r \<noteq> Tip"
    by blast
  then show ?thesis
  proof cases
    case alone
    have "c = 1" using ok s alone by simp
    moreover have "ht_get (NodeIndex t) e \<noteq> None \<longleftrightarrow> low e = low d" for e
      using inv alone split by (auto simp: bbst_inv_def)
    ultimately show ?thesis
      using fin [of Tip "snd (clearHASHTABLE (NodeIndex t))"] clear_inv [OF idx] alone present loc s
      by (intro that [of "\<lparr>bn_Data = d, bn_NodeCount = c, bn_Depth = p\<rparr>" "t\<lparr>bt_Root := Tip, NodeIndex := snd (clearHASHTABLE (NodeIndex t))\<rparr>"])
        (simp_all add: removeBBSTNode_def)
  next
    case root_left
    have "nodes l \<noteq> 0" using root_left by (cases l) auto
    then have "c \<noteq> 1" using ok s root_left by simp
    then show ?thesis
      using fin [OF _ _ rem, of l] root_left present loc s ok
      by (intro that [of "\<lparr>bn_Data = d, bn_NodeCount = c, bn_Depth = p\<rparr>" "t\<lparr>bt_Root := l, NodeIndex := ht_remove (NodeIndex t) d\<rparr>"])
        (simp_all add: removeBBSTNode_def)
  next
    case root_right
    have "nodes r \<noteq> 0" using root_right by (cases r) auto
    then have "c \<noteq> 1" using ok s root_right by simp
    then show ?thesis
      using fin [OF _ _ rem, of r] root_right present loc s ok
      by (intro that [of "\<lparr>bn_Data = d, bn_NodeCount = c, bn_Depth = p\<rparr>" "t\<lparr>bt_Root := r, NodeIndex := ht_remove (NodeIndex t) d\<rparr>"])
        (simp_all add: removeBBSTNode_def)
  next
    case one
    obtain root where root: "replaceByChild (only_child l r) path = Some root"
      "inorder root = before path @ inorder (only_child l r) @ after path" "count_ok root"
    proof -
      have "count_ok (only_child l r)" using ok s one by (simp add: only_child_def)
      then show ?thesis using that replaceByChild_spec [OF one(1), of "only_child l r"] ok(2) by blast
    qed
    moreover have "inorder (only_child l r) = inorder l @ inorder r"
      using one by (auto simp: only_child_def)
    ultimately show ?thesis
      using fin [OF _ _ rem, of root] one present loc s
      by (intro that [of "\<lparr>bn_Data = d, bn_NodeCount = c, bn_Depth = p\<rparr>" "t\<lparr>bt_Root := root, NodeIndex := ht_remove (NodeIndex t) d\<rparr>"])
        (simp_all add: removeBBSTNode_def)
  next
    case two
    obtain l' y r' c' p' path' where rm: "rightmost l [] = (Nd l' y r' c' p', path')"
      and r': "r' = Tip" and l': "inorder l = before path' @ inorder l' @ [y]" "after path' = []"
      "count_ok l'" "sides_ok path'"
    proof -
      obtain u q where uq: "rightmost l [] = (u, q)" by (cases "rightmost l []")
      from rightmost_spec [OF two(1) this] ok s show ?thesis
        using that uq by auto
    qed
    let ?path = "path' @ [InLeft y r c p] @ path"
    obtain root where root: "replaceByChild (only_child l' r') ?path = Some root"
      "inorder root = before ?path @ inorder (only_child l' r') @ after ?path" "count_ok root"
    proof -
      have "count_ok (only_child l' r')" "sides_ok ?path" using ok s l' r' by (simp_all add: only_child_def)
      then show ?thesis using that replaceByChild_spec [of ?path "only_child l' r'"] by blast
    qed
    have io: "inorder root = (before path @ inorder l) @ (inorder r @ after path)"
      using root(2) r' l' by (simp add: before_append after_append only_child_def)
    let ?i = "ht_set (ht_set (NodeIndex t) d (Some ())) y (Some ())"
    have y: "y \<in> set (inorder (bt_Root t))" using split l' by simp
    have i1: "?H ?i" using idx idx_laws(1) by blast
    have i2: "?H (ht_remove ?i d)" using idx_laws(2) [OF i1] by blast
    have i3: "ht_get (ht_remove ?i d) e \<noteq> None \<longleftrightarrow> low e \<noteq> low d \<and> ht_get (NodeIndex t) e \<noteq> None" for e
      using inv y unfolding idx_laws(4) [OF i1] idx_laws(3) [OF idx_laws(1) [OF idx]] idx_laws(3) [OF idx]
      by (auto simp: bbst_inv_def)
    have "c \<noteq> 1" using ok s two by (cases l) auto
    then show ?thesis
      using fin [OF io root(3) i2 i3] two present loc s rm root(1)
      by (intro that [of "\<lparr>bn_Data = d, bn_NodeCount = c', bn_Depth = p'\<rparr>" "t\<lparr>bt_Root := root, NodeIndex := ht_remove ?i d\<rparr>"])
        (simp_all add: removeBBSTNode_def)
  qed
qed

section \<open>Clearing\<close>

lemma clear_spec:
  "bbst_inv t \<Longrightarrow> \<exists>t'. clearBBST t = Some t' \<and> bt_Root t' = Tip \<and> bbst_inv t'"
proof (induction "nodes (bt_Root t)" arbitrary: t rule: less_induct)
  case less
  show ?case
  proof (cases "bt_Root t")
    case Tip
    then show ?thesis using less.prems by (subst clearBBST.simps) simp
  next
    case (Nd l x r c p)
    then have mem: "x \<in> set (inorder (bt_Root t))" by simp
    obtain node t' where t': "removeBBSTNode t x = Some (FUNC_RETURN_OK, Some node, t')" "bbst_inv t'"
      "inorder (bt_Root t') = remove1 x (inorder (bt_Root t))"
      by (rule remove_spec [OF less.prems mem])
    have "length (inorder (bt_Root t')) < length (inorder (bt_Root t))"
      using mem Nd unfolding t'(3) length_remove1 by simp
    then have "nodes (bt_Root t') < nodes (bt_Root t)" by simp
    from less.hyps [OF this t'(2)] obtain t'' where "clearBBST t' = Some t''" "bt_Root t'' = Tip" "bbst_inv t''"
      by blast
    then show ?thesis
      using t'(1) by (subst clearBBST.simps) (simp add: Nd freeBBSTNode_def)
  qed
qed

section \<open>Properties\<close>


text \<open>The tree 20 (10 (-, 15), 30 (-, 40)) with its index.\<close>

definition sample_root :: bbst where
  "sample_root = Nd (Nd Tip 10 (Nd Tip 15 Tip 1 1) 2 2) 20 (Nd Tip 30 (Nd Tip 40 Tip 1 1) 2 2) 5 3"

definition sample_tree :: BBST where
  "sample_tree = \<lparr>bt_Root = sample_root, bt_Free = 0, DataCompFunc = (\<lambda>x y. uint x - uint y),
     NodeIndex = foldl (\<lambda>i d. ht_set i d (Some ())) (NodeIndex (initializeBBST (\<lambda>x y. 0))) [10, 15, 20, 30, 40]\<rparr>"

lemma sample_tree_inv: "bbst_inv sample_tree"
proof -
  let ?H = "ht_inv HASHTABLE_Hash_VOIDPT HASHTABLE_Comp_VOIDPT (\<lambda>_. True)"
  let ?i0 = "NodeIndex (initializeBBST (\<lambda>x y. 0))"
  have i: "?H (foldl (\<lambda>i d. ht_set i d (Some ())) ?i0 ds) \<and>
    (\<forall>e. ht_get (foldl (\<lambda>i d. ht_set i d (Some ())) ?i0 ds) e \<noteq> None \<longleftrightarrow> low e \<in> low ` set ds)" for ds
  proof (induction ds rule: rev_induct)
    case Nil
    then show ?case using bbst_inv_initial [of "\<lambda>x y. 0"] by (simp add: bbst_inv_def initializeBBST_def)
  next
    case (snoc d ds)
    then show ?case
      using idx_laws(1,3) [of "foldl (\<lambda>i d. ht_set i d (Some ())) ?i0 ds"] by auto
  qed
  show ?thesis
    unfolding bbst_inv_def using i [of "[10, 15, 20, 30, 40]"]
    by (simp add: sample_tree_def sample_root_def)
qed

text \<open>C31: Inserting a fresh node into an ordered tree puts its datum behind all smaller ones and before
  all others, keeps the order, the index and all node counts exact, and never stops with an error; a
  datum that is already indexed is refused and changes nothing.\<close>

theorem insertBBSTNode_correct:
  assumes "bbst_inv t" "orders (DataCompFunc t) key" "sorted (map key (inorder (bt_Root t)))"
    "bn_NodeCount node = 1"
  shows "if low (bn_Data node) \<in> low ` set (inorder (bt_Root t))
    then insertBBSTNode t node = (UTIL_BBST_DUPLICATE_VALUE, t)
    else \<exists>t'. insertBBSTNode t node = (FUNC_RETURN_OK, t') \<and> bbst_inv t' \<and>
      inorder (bt_Root t') = filter (\<lambda>x. key x < key (bn_Data node)) (inorder (bt_Root t)) @ bn_Data node #
        filter (\<lambda>x. \<not> key x < key (bn_Data node)) (inorder (bt_Root t)) \<and>
      sorted (map key (inorder (bt_Root t'))) \<and> getBBSTNodeCount t' = length (inorder (bt_Root t'))"
proof (cases "low (bn_Data node) \<in> low ` set (inorder (bt_Root t))")
  case True
  then have "getHASHTABLENode (NodeIndex t) (bn_Data node) \<noteq> None"
    using assms(1) by (auto simp: bbst_inv_def idx_None)
  with True show ?thesis by (simp add: insertBBSTNode_def)
next
  case False
  obtain t' where t': "insertBBSTNode t node = (FUNC_RETURN_OK, t')" "bbst_inv t'"
    "inorder (bt_Root t') = filter (\<lambda>x. key x < key (bn_Data node)) (inorder (bt_Root t)) @ bn_Data node #
        filter (\<lambda>x. \<not> key x < key (bn_Data node)) (inorder (bt_Root t))"
    "sorted (map key (inorder (bt_Root t')))"
    by (rule insert_spec [OF assms(1-3) False refl assms(4)])
  moreover have "getBBSTNodeCount t' = length (inorder (bt_Root t'))"
    using t'(2) by (simp add: getBBSTNodeCount_def bbst_inv_def count_ok_cnt)
  ultimately show ?thesis using False by (auto simp del: length_inorder)
qed

theorem insertBBSTNode_correct_witness:
  "\<exists>t'. insertBBSTNode sample_tree \<lparr>bn_Data = 17, bn_NodeCount = 1, bn_Depth = 1\<rparr> = (FUNC_RETURN_OK, t') \<and>
     inorder (bt_Root t') = [10, 15, 17, 20, 30, 40] \<and> getBBSTNodeCount t' = 6"
  using insertBBSTNode_correct [OF sample_tree_inv, of uint "\<lparr>bn_Data = 17, bn_NodeCount = 1, bn_Depth = 1\<rparr>"]
  by (auto simp: sample_tree_def sample_root_def orders_def simp del: length_inorder)



text \<open>The stack loop of the mid-order traversal appends the data in order, the pre-order one the first
  \<open>maxcount\<close> data in pre-order (all of them without a limit), and the extreme nodes are the ends of the
  order.\<close>

theorem traversals_correct:
  "traverseBBSTMidOrder t lns = lns @ inorder (bt_Root t) \<and>
   traverseBBSTPreOrder t [] maxcount =
     (if maxcount > 0 then take (nat maxcount) (preorder (bt_Root t)) else preorder (bt_Root t)) \<and>
   getLeftMostNode t = (if bt_Root t = Tip then None else Some (hd (inorder (bt_Root t)))) \<and>
   getRightMostNode t = (if bt_Root t = Tip then None else Some (last (inorder (bt_Root t))))"
  by (simp add: traverseBBSTMidOrder_def midorder_loop_eq traverseBBSTPreOrder_def preorder_loop_eq
      getLeftMostNode_def leftmost_hd getRightMostNode_def rightmost_last Let_def)

text \<open>Clearing (and so freeing) a well-formed tree ends, with an empty tree and an empty index.\<close>

theorem clearBBST_terminates:
  assumes "bbst_inv t"
  shows "(\<exists>t'. clearBBST t = Some t' \<and> bt_Root t' = Tip \<and> bbst_inv t') \<and>
    (\<exists>t'. freeBBST t = Some t' \<and> bt_Root t' = Tip \<and> bt_Free t' = 0)"
  using clear_spec [OF assms] by (auto simp: freeBBST_def freeBBSTFreeNodes_def)

theorem clearBBST_terminates_witness: "\<exists>t'. clearBBST sample_tree = Some t' \<and> bt_Root t' = Tip"
  using clearBBST_terminates [OF sample_tree_inv] by blast



end
