(* ===== verification/RM_SMBuffer.thy ===== *)
theory RM_SMBuffer
  imports RM_Prelude
begin

text \<open>
  The self-maintained buffer of \<^verbatim>\<open>utils/memutilities.c\<close>, in which all messages of the resource manager are
  built and received.  A byte of memory is an optional value, \<^term>\<open>None\<close> being the indeterminate content
  of fresh memory; an access outside of the allocated block makes the operation \<^term>\<open>None\<close>.  \<^verbatim>\<open>Size\<close> and
  \<^verbatim>\<open>Cursor\<close> are signed, the lengths handed in are \<^verbatim>\<open>uint32_t\<close>, and the conversions between them are
  written out.
\<close>

section \<open>Memory blocks\<close>

type_synonym byte = "uint8 option"

definition write_bytes :: "byte list \<Rightarrow> int \<Rightarrow> byte list \<Rightarrow> byte list option" where
  "write_bytes bs pos xs =
     (if 0 \<le> pos \<and> pos + int (length xs) \<le> int (length bs)
      then Some (take (nat pos) bs @ xs @ drop (nat pos + length xs) bs) else None)"

definition realloc :: "byte list \<Rightarrow> nat \<Rightarrow> byte list" where
  "realloc bs n = take n bs @ replicate (n - length bs) None"

section \<open>The buffer\<close>

record SelfMaintainBuffer =
  smb_Context :: addr
  smb_Buffer :: "byte list option"
  smb_Size :: int
  smb_Cursor :: int

definition SELFMAINTAINBUFFER_MAX_SIZE :: int where
  "SELFMAINTAINBUFFER_MAX_SIZE = 1024 * 1024 * 512"

definition initializeSelfMaintainBuffer :: "addr \<Rightarrow> SelfMaintainBuffer" where
  "initializeSelfMaintainBuffer context1 =
     \<lparr>smb_Context = context1, smb_Buffer = None, smb_Size = -1, smb_Cursor = -1\<rparr>"

definition getSMBContentSize :: "SelfMaintainBuffer \<Rightarrow> int" where
  "getSMBContentSize b = smb_Cursor b + 1"

definition resetSelfMaintainBuffer :: "SelfMaintainBuffer \<Rightarrow> SelfMaintainBuffer" where
  "resetSelfMaintainBuffer b = b\<lparr>smb_Cursor := -1\<rparr>"

definition resetSelfMaintainBufferCursor :: "SelfMaintainBuffer \<Rightarrow> int \<Rightarrow> SelfMaintainBuffer" where
  "resetSelfMaintainBufferCursor b newcursor = b\<lparr>smb_Cursor := newcursor\<rparr>"

text \<open>Making room, the first half of both \<^verbatim>\<open>appendSelfMaintainBuffer\<close> (\<^verbatim>\<open>rm_palloc0\<close>, so fresh bytes are 0) and
  \<^verbatim>\<open>prepareSelfMaintainBuffer\<close> (\<^verbatim>\<open>rm_palloc\<close>).  The free space is compared with the length as unsigned
  numbers.\<close>

definition smb_grow :: "byte \<Rightarrow> SelfMaintainBuffer \<Rightarrow> uint32 \<Rightarrow> SelfMaintainBuffer" where
  "smb_grow fresh b sz =
     (case smb_Buffer b of
        None \<Rightarrow> b\<lparr>smb_Buffer := Some (replicate (unat sz) fresh), smb_Cursor := -1, smb_Size := sint sz\<rparr>
      | Some bs \<Rightarrow>
          if (of_int (smb_Size b - smb_Cursor b - 1) :: uint32) < sz then
            let newbuffersize = sint (of_int (smb_Cursor b + 1) + sz)
            in b\<lparr>smb_Buffer := Some (realloc bs (unat (of_int newbuffersize :: uint32))),
                 smb_Size := newbuffersize\<rparr>
          else b)"

definition appendSelfMaintainBuffer ::
  "SelfMaintainBuffer \<Rightarrow> byte list \<Rightarrow> uint32 \<Rightarrow> SelfMaintainBuffer option" where
  "appendSelfMaintainBuffer b src sz = do {
     let b = smb_grow (Some 0) b sz;
     bs \<leftarrow> smb_Buffer b;
     bs \<leftarrow> (if unat sz \<le> length src then write_bytes bs (smb_Cursor b + 1) (take (unat sz) src) else None);
     Some (b\<lparr>smb_Buffer := Some bs, smb_Cursor := sint (of_int (smb_Cursor b) + sz)\<rparr>)
   }"

definition prepareSelfMaintainBuffer ::
  "SelfMaintainBuffer \<Rightarrow> uint32 \<Rightarrow> bool \<Rightarrow> SelfMaintainBuffer option" where
  "prepareSelfMaintainBuffer b sz setzero = do {
     let b = smb_grow None b sz;
     if setzero then do {
       bs \<leftarrow> smb_Buffer b;
       bs \<leftarrow> write_bytes bs (smb_Cursor b + 1) (replicate (unat sz) (Some 0));
       Some (b\<lparr>smb_Buffer := Some bs\<rparr>)
     } else Some b
   }"

definition jumpforwardSelfMaintainBuffer :: "SelfMaintainBuffer \<Rightarrow> uint32 \<Rightarrow> SelfMaintainBuffer" where
  "jumpforwardSelfMaintainBuffer b off = b\<lparr>smb_Cursor := sint (of_int (smb_Cursor b) + off)\<rparr>"

text \<open>The macro \<^verbatim>\<open>appendSMBSimpStr\<close>; \<^verbatim>\<open>str\<close> is the memory that the string points to and \<^verbatim>\<open>len\<close> its length.\<close>

definition appendSMBSimpStr :: "SelfMaintainBuffer \<Rightarrow> byte list \<Rightarrow> uint32 \<Rightarrow> SelfMaintainBuffer option" where
  "appendSMBSimpStr b str len = do {
     b \<leftarrow> appendSelfMaintainBuffer b str len;
     b \<leftarrow> prepareSelfMaintainBuffer b 1 True;
     Some (jumpforwardSelfMaintainBuffer b 1)
   }"

definition SIZE_ALIGN64 :: "int \<Rightarrow> int" where
  "SIZE_ALIGN64 s = push_bit 3 (drop_bit 3 (s + 7))"

definition ZEROPAD :: "byte list" where
  "ZEROPAD = replicate 8 (Some 0)"

definition appendSelfMaintainBufferTill64bitAligned :: "SelfMaintainBuffer \<Rightarrow> SelfMaintainBuffer option" where
  "appendSelfMaintainBufferTill64bitAligned b =
     (let padsize = SIZE_ALIGN64 (smb_Cursor b + 1) - smb_Cursor b - 1
      in if padsize > 0 then appendSelfMaintainBuffer b ZEROPAD (of_int padsize) else Some b)"

definition swapSelfMaintainBuffer ::
  "SelfMaintainBuffer \<Rightarrow> SelfMaintainBuffer \<Rightarrow> SelfMaintainBuffer \<times> SelfMaintainBuffer" where
  "swapSelfMaintainBuffer b1 b2 =
     (b1\<lparr>smb_Buffer := smb_Buffer b2, smb_Cursor := smb_Cursor b2, smb_Size := smb_Size b2,
         smb_Context := smb_Context b2\<rparr>,
      b2\<lparr>smb_Buffer := smb_Buffer b1, smb_Cursor := smb_Cursor b1, smb_Size := smb_Size b1,
         smb_Context := smb_Context b1\<rparr>)"

definition copySelfMaintainBuffer ::
  "SelfMaintainBuffer \<Rightarrow> SelfMaintainBuffer \<Rightarrow> SelfMaintainBuffer option" where
  "copySelfMaintainBuffer b1 b2 =
     appendSelfMaintainBuffer (resetSelfMaintainBuffer b1)
       (case smb_Buffer b2 of None \<Rightarrow> [] | Some bs \<Rightarrow> bs) (of_int (smb_Cursor b2 + 1))"

text \<open>\<^verbatim>\<open>memmove\<close> of the bytes from \<open>shift\<close> on to the front.\<close>

definition shiftLeftSelfMaintainBuffer :: "SelfMaintainBuffer \<Rightarrow> int \<Rightarrow> SelfMaintainBuffer option" where
  "shiftLeftSelfMaintainBuffer b shift =
     (if shift > 0 \<and> smb_Cursor b + 1 < shift then Some (resetSelfMaintainBuffer b)
      else
        let n = smb_Cursor b + 1 - shift in
        if n = 0 then Some (b\<lparr>smb_Cursor := smb_Cursor b - shift\<rparr>)
        else do {
          bs \<leftarrow> smb_Buffer b;
          if 0 \<le> shift \<and> 0 \<le> n \<and> shift + n \<le> int (length bs) then do {
            bs \<leftarrow> write_bytes bs 0 (take (nat n) (drop (nat shift) bs));
            Some (b\<lparr>smb_Buffer := Some bs, smb_Cursor := smb_Cursor b - shift\<rparr>)
          } else None
        })"

section \<open>Content\<close>

definition smb_content :: "SelfMaintainBuffer \<Rightarrow> byte list" where
  "smb_content b = take (nat (smb_Cursor b + 1)) (case smb_Buffer b of None \<Rightarrow> [] | Some bs \<Rightarrow> bs)"

definition smb_inv :: "SelfMaintainBuffer \<Rightarrow> bool" where
  "smb_inv b \<longleftrightarrow>
     (case smb_Buffer b of
        None \<Rightarrow> smb_Size b = -1 \<and> smb_Cursor b = -1
      | Some bs \<Rightarrow> smb_Size b = int (length bs) \<and> -1 \<le> smb_Cursor b \<and> smb_Cursor b < int (length bs) \<and>
          int (length bs) \<le> SELFMAINTAINBUFFER_MAX_SIZE)"

lemma length_content: "smb_inv b \<Longrightarrow> int (length (smb_content b)) = smb_Cursor b + 1"
  by (auto simp: smb_inv_def smb_content_def split: option.splits)

lemma smb_inv_initial: "smb_inv (initializeSelfMaintainBuffer c)" "smb_content (initializeSelfMaintainBuffer c) = []"
  "getSMBContentSize (initializeSelfMaintainBuffer c) = 0"
  by (simp_all add: getSMBContentSize_def smb_inv_def smb_content_def initializeSelfMaintainBuffer_def)

lemma smb_reset: "smb_inv b \<Longrightarrow> smb_inv (resetSelfMaintainBuffer b) \<and> smb_content (resetSelfMaintainBuffer b) = []"
  by (auto simp: smb_inv_def smb_content_def resetSelfMaintainBuffer_def split: option.splits)

lemma sint32_small: "0 \<le> k \<Longrightarrow> k < 2 ^ 31 \<Longrightarrow> sint (word_of_int k :: uint32) = k"
  by (simp add: sint_uint uint_word_of_int signed_take_bit_int_eq_self take_bit_int_eq_self)

lemma uint32_small: "0 \<le> k \<Longrightarrow> k < 2 ^ 32 \<Longrightarrow> uint (word_of_int k :: uint32) = k"
  by (simp add: uint_word_of_int take_bit_int_eq_self)

lemma uint32_neg: "- (2 ^ 32) \<le> k \<Longrightarrow> k < 0 \<Longrightarrow> uint (word_of_int k :: uint32) = k + 2 ^ 32"
  by (simp add: uint_word_of_int take_bit_eq_mod) (smt (verit) mod_add_self2 mod_pos_pos_trivial)

lemma unat32_small: "k < 2 ^ 32 \<Longrightarrow> unat (word_of_int (int k) :: uint32) = k"
  by (metis uint32_small nat_int nat_uint_eq of_nat_0_le_iff of_nat_less_iff of_nat_numeral of_nat_power)

lemma add_uint32: "of_int k + (w :: uint32) = word_of_int (k + uint w)"
  by simp

lemma sint_of_uint32: "uint (w :: uint32) < 2 ^ 31 \<Longrightarrow> sint w = uint w"
  by (metis sint32_small uint_ge_0 word_of_int_uint)

lemma sint_step:
  assumes "int n = c + 1" "c + 1 + uint w \<le> SELFMAINTAINBUFFER_MAX_SIZE"
  shows "sint (of_int c + (w :: uint32)) = c + uint w"
proof -
  obtain m where m: "uint w = int m" using uint_ge_0 [of w] zero_le_imp_eq_int by blast
  have "-1 \<le> c + uint w" using assms(1) m by linarith
  then consider "c + uint w = -1" | "0 \<le> c + uint w" by linarith
  then show ?thesis
    unfolding add_uint32
    by cases (use assms in \<open>simp_all add: sint32_small SELFMAINTAINBUFFER_MAX_SIZE_def del: of_int_add\<close>)
qed

text \<open>Making room keeps the content and leaves enough space behind it.\<close>

lemma smb_grow_spec:
  fixes b :: SelfMaintainBuffer and sz :: uint32 and fresh :: byte
  assumes inv: "smb_inv b" and fits: "getSMBContentSize b + uint sz \<le> SELFMAINTAINBUFFER_MAX_SIZE"
  defines "b' \<equiv> smb_grow fresh b sz"
  shows "smb_inv b'" "smb_Cursor b' = smb_Cursor b" "smb_content b' = smb_content b"
    "\<exists>bs. smb_Buffer b' = Some bs \<and> smb_Cursor b + 1 + uint sz \<le> int (length bs)"
proof -
  have small: "uint sz < 2 ^ 31" "0 \<le> smb_Cursor b + 1"
    using fits inv by (auto simp: getSMBContentSize_def SELFMAINTAINBUFFER_MAX_SIZE_def smb_inv_def split: option.splits)
  obtain n where len: "uint sz = int n" using uint_ge_0 [of sz] zero_le_imp_eq_int by blast
  then have un0: "unat sz = n" by (metis nat_int nat_uint_eq)
  have all: "smb_inv b' \<and> smb_Cursor b' = smb_Cursor b \<and> smb_content b' = smb_content b \<and>
    (\<exists>bs. smb_Buffer b' = Some bs \<and> smb_Cursor b + 1 + uint sz \<le> int (length bs))"
  proof (cases "smb_Buffer b")
    case None
    then show ?thesis
      using inv fits small
      by (auto simp: len un0 b'_def smb_grow_def smb_inv_def smb_content_def getSMBContentSize_def sint_of_uint32
          SELFMAINTAINBUFFER_MAX_SIZE_def)
  next
    case (Some bs)
    let ?n = "smb_Cursor b + 1 + uint sz"
    have n: "sint (of_int (smb_Cursor b + 1) + sz) = ?n" "uint (of_int ?n :: uint32) = ?n"
      using small fits by (auto simp: add_uint32 sint32_small uint32_small getSMBContentSize_def
          SELFMAINTAINBUFFER_MAX_SIZE_def simp del: of_int_add)
    then have un: "unat (of_int ?n :: uint32) = nat ?n" by (metis nat_uint_eq)
    have free: "uint (of_int (smb_Size b - smb_Cursor b - 1) :: uint32) = smb_Size b - smb_Cursor b - 1"
      using inv Some by (auto simp: uint32_small smb_inv_def SELFMAINTAINBUFFER_MAX_SIZE_def simp del: of_int_diff)
    show ?thesis
    proof (cases "smb_Size b - smb_Cursor b - 1 < uint sz")
      case True
      then have b': "b' = b\<lparr>smb_Buffer := Some (realloc bs (nat ?n)), smb_Size := ?n\<rparr>"
        by (simp add: b'_def smb_grow_def Some word_less_def free n(1) un Let_def del: of_int_add of_int_diff)
      have "length bs \<le> nat ?n" using True inv Some by (auto simp: smb_inv_def)
      with True show ?thesis
        using inv fits small Some
        by (auto simp: b' smb_inv_def smb_content_def realloc_def getSMBContentSize_def)
    next
      case False
      then have "b' = b"
        by (simp add: b'_def smb_grow_def Some word_less_def free del: of_int_add of_int_diff)
      with False show ?thesis using inv Some by (auto simp: smb_inv_def)
    qed
  qed
  show "smb_inv b'" "smb_Cursor b' = smb_Cursor b" "smb_content b' = smb_content b"
    "\<exists>bs. smb_Buffer b' = Some bs \<and> smb_Cursor b + 1 + uint sz \<le> int (length bs)"
    using all by blast+
qed

text \<open>Writing behind the content and moving the cursor over it appends.\<close>

lemma write_content:
  assumes "smb_inv b" "smb_Buffer b = Some bs" "smb_Cursor b + 1 + int (length xs) \<le> int (length bs)"
  obtains bs' where "write_bytes bs (smb_Cursor b + 1) xs = Some bs'" "length bs' = length bs"
    "take (nat (smb_Cursor b + 1)) bs' = smb_content b"
    "take (nat (smb_Cursor b + 1 + int (length xs))) bs' = smb_content b @ xs"
proof -
  let ?c = "nat (smb_Cursor b + 1)"
  have c: "0 \<le> smb_Cursor b + 1" "?c + length xs \<le> length bs"
    using assms by (auto simp: smb_inv_def)
  have sum: "nat (smb_Cursor b + 1 + int (length xs)) = ?c + length xs" using c by simp
  show ?thesis
    by (rule that [of "take ?c bs @ xs @ drop (?c + length xs) bs"])
      (use c assms(2,3) in \<open>simp_all add: write_bytes_def smb_content_def sum\<close>)
qed

lemma smb_append:
  assumes inv: "smb_inv b" and src: "unat sz \<le> length src"
    and fits: "getSMBContentSize b + uint sz \<le> SELFMAINTAINBUFFER_MAX_SIZE"
  shows "\<exists>b'. appendSelfMaintainBuffer b src sz = Some b' \<and> smb_inv b' \<and>
    smb_content b' = smb_content b @ take (unat sz) src"
proof -
  let ?g = "smb_grow (Some 0) b sz"
  note g = smb_grow_spec [OF inv fits, where fresh = "Some 0"]
  obtain bs where bs: "smb_Buffer ?g = Some bs" "smb_Cursor b + 1 + uint sz \<le> int (length bs)" using g(4) by blast
  have len: "int (length (take (unat sz) src)) = uint sz" using src by simp
  have "smb_Cursor ?g + 1 + int (length (take (unat sz) src)) \<le> int (length bs)"
    unfolding len g(2) using bs(2) .
  then obtain bs' where bs': "write_bytes bs (smb_Cursor ?g + 1) (take (unat sz) src) = Some bs'"
    "length bs' = length bs" "take (nat (smb_Cursor ?g + 1 + int (length (take (unat sz) src)))) bs' = smb_content ?g @ take (unat sz) src"
    using write_content [OF g(1) bs(1)] by blast
  have cur: "sint (of_int (smb_Cursor b) + sz) = smb_Cursor b + uint sz"
    using sint_step [OF length_content [OF inv]] fits by (simp add: getSMBContentSize_def)
  have "smb_Cursor ?g + 1 + int (length (take (unat sz) src)) = smb_Cursor b + uint sz + 1"
    unfolding len g(2) by simp
  note content = bs'(3) [unfolded this g(3)]
  have inv': "smb_Size ?g = int (length bs)" "int (length bs) \<le> SELFMAINTAINBUFFER_MAX_SIZE" "-1 \<le> smb_Cursor b"
    using g(1,2) bs(1) by (auto simp: smb_inv_def)
  obtain m where m: "uint sz = int m" using uint_ge_0 [of sz] zero_le_imp_eq_int by blast
  have "appendSelfMaintainBuffer b src sz = Some (?g\<lparr>smb_Buffer := Some bs', smb_Cursor := smb_Cursor b + uint sz\<rparr>)"
    using src bs(1) bs'(1) by (simp add: appendSelfMaintainBuffer_def cur g(2))
  then show ?thesis
    using content bs(2) bs'(2) inv' m by (auto simp: smb_inv_def smb_content_def)
qed

lemma align64: "0 \<le> k \<Longrightarrow> k \<le> SIZE_ALIGN64 k \<and> SIZE_ALIGN64 k < k + 8 \<and> 8 dvd SIZE_ALIGN64 k"
proof -
  assume "0 \<le> k"
  have "SIZE_ALIGN64 k = (k + 7) div 8 * 8" by (simp add: SIZE_ALIGN64_def push_bit_eq_mult drop_bit_eq_div)
  then show ?thesis by simp linarith
qed

lemma smb_append_align:
  assumes inv: "smb_inv b" and fits: "getSMBContentSize b + 7 \<le> SELFMAINTAINBUFFER_MAX_SIZE"
  shows "\<exists>b' k. appendSelfMaintainBufferTill64bitAligned b = Some b' \<and> smb_inv b' \<and> k < 8 \<and>
    smb_content b' = smb_content b @ replicate k (Some 0) \<and> 8 dvd length (smb_content b')"
proof -
  let ?n = "length (smb_content b)"
  have n: "smb_Cursor b + 1 = int ?n" using length_content [OF inv] by simp
  define k where "k = (?n + 7) div 8 * 8 - ?n"
  have k: "k < 8" "8 dvd ?n + k" by (auto simp: k_def)
  have pad: "SIZE_ALIGN64 (smb_Cursor b + 1) - smb_Cursor b - 1 = int k"
  proof -
    have "SIZE_ALIGN64 (smb_Cursor b + 1) = int ((?n + 7) div 8 * 8)"
      unfolding n SIZE_ALIGN64_def by (simp add: push_bit_eq_mult drop_bit_eq_div zdiv_int)
    then show ?thesis using n by (simp add: k_def)
  qed
  show ?thesis
  proof (cases "k = 0")
    case True
    then show ?thesis using k pad inv by (auto simp: appendSelfMaintainBufferTill64bitAligned_def)
  next
    case False
    have u: "unat (of_int (int k) :: uint32) = k" "uint (of_int (int k) :: uint32) = int k"
      using k(1) by (simp_all add: unat32_small uint32_small del: of_int_of_nat_eq)
    have "\<exists>b'. appendSelfMaintainBuffer b ZEROPAD (of_int (int k)) = Some b' \<and> smb_inv b' \<and>
        smb_content b' = smb_content b @ take k ZEROPAD"
      using smb_append [OF inv, of "of_int (int k)" ZEROPAD] k fits unfolding u by (simp add: ZEROPAD_def)
    with False k show ?thesis
      unfolding appendSelfMaintainBufferTill64bitAligned_def pad
      by (auto simp: ZEROPAD_def)
  qed
qed

lemma smb_append_string:
  assumes inv: "smb_inv b" and src: "unat len \<le> length str"
    and fits: "getSMBContentSize b + uint len + 1 \<le> SELFMAINTAINBUFFER_MAX_SIZE"
  shows "\<exists>b'. appendSMBSimpStr b str len = Some b' \<and> smb_inv b' \<and>
    smb_content b' = smb_content b @ take (unat len) str @ [Some 0]"
proof -
  obtain b1 where b1: "appendSelfMaintainBuffer b str len = Some b1" "smb_inv b1"
    "smb_content b1 = smb_content b @ take (unat len) str"
    using smb_append [OF inv src] fits by auto
  have "int (length (smb_content b1)) = getSMBContentSize b + uint len"
    unfolding b1(3) using src length_content [OF inv] by (simp add: getSMBContentSize_def)
  then have s1: "smb_Cursor b1 + 1 = getSMBContentSize b + uint len" using length_content [OF b1(2)] by simp
  let ?g = "smb_grow None b1 1"
  note g = smb_grow_spec [OF b1(2), where sz = 1 and fresh = None]
  have f1: "getSMBContentSize b1 + uint (1 :: uint32) \<le> SELFMAINTAINBUFFER_MAX_SIZE"
    using fits s1 by (simp add: getSMBContentSize_def)
  obtain bs where bs: "smb_Buffer ?g = Some bs" "smb_Cursor b1 + 1 + 1 \<le> int (length bs)" using g(4) [OF f1] by auto
  have room: "smb_Cursor ?g + 1 + int (length [Some (0 :: uint8)]) \<le> int (length bs)"
    using bs(2) by (simp add: g(2) [OF f1])
  obtain bs' where bs': "write_bytes bs (smb_Cursor ?g + 1) [Some 0] = Some bs'" "length bs' = length bs"
    "take (nat (smb_Cursor ?g + 1 + int (length [Some (0 :: uint8)]))) bs' = smb_content ?g @ [Some 0]"
    using write_content [OF g(1) [OF f1] bs(1) room] by blast
  have cur: "sint (of_int (smb_Cursor b1) + 1 :: uint32) = smb_Cursor b1 + 1"
    using sint_step [OF length_content [OF b1(2)], of 1] f1 by (simp add: getSMBContentSize_def)
  show ?thesis
    using b1 bs bs' g [OF f1]
    by (simp add: appendSMBSimpStr_def prepareSelfMaintainBuffer_def jumpforwardSelfMaintainBuffer_def cur
        smb_inv_def smb_content_def)
qed

lemma smb_copy:
  assumes "smb_inv b1" "smb_inv b2"
  shows "\<exists>b'. copySelfMaintainBuffer b1 b2 = Some b' \<and> smb_inv b' \<and> smb_content b' = smb_content b2"
proof -
  let ?n = "length (smb_content b2)"
  have n: "smb_Cursor b2 + 1 = int ?n" using length_content [OF assms(2)] by simp
  have le: "int ?n \<le> SELFMAINTAINBUFFER_MAX_SIZE" "?n \<le> length (case smb_Buffer b2 of None \<Rightarrow> [] | Some bs \<Rightarrow> bs)"
    using assms(2) by (auto simp: smb_inv_def smb_content_def SELFMAINTAINBUFFER_MAX_SIZE_def split: option.splits)
  have u: "unat (of_int (int ?n) :: uint32) = ?n" "uint (of_int (int ?n) :: uint32) = int ?n"
    using le(1) by (simp_all add: unat32_small uint32_small SELFMAINTAINBUFFER_MAX_SIZE_def
        del: of_int_of_nat_eq)
  have "take ?n (case smb_Buffer b2 of None \<Rightarrow> [] | Some bs \<Rightarrow> bs) = smb_content b2"
    using n by (simp add: smb_content_def)
  then show ?thesis
    using smb_append [of "resetSelfMaintainBuffer b1" "of_int (int ?n)" "case smb_Buffer b2 of None \<Rightarrow> [] | Some bs \<Rightarrow> bs"]
      smb_reset [OF assms(1)] le
    unfolding u copySelfMaintainBuffer_def n by (simp add: getSMBContentSize_def resetSelfMaintainBuffer_def)
qed

lemma smb_shift:
  assumes inv: "smb_inv b" and "0 \<le> shift"
  shows "\<exists>b'. shiftLeftSelfMaintainBuffer b shift = Some b' \<and> smb_inv b' \<and>
    smb_content b' = drop (nat shift) (smb_content b)"
proof -
  define k0 where "k0 = length (smb_content b)"
  have n: "smb_Cursor b + 1 = int k0" using length_content [OF inv] by (simp add: k0_def)
  consider "int k0 < shift" | "shift = int k0" | "shift < int k0" by linarith
  then show ?thesis
  proof cases
    case 1
    then show ?thesis using smb_reset [OF inv] n by (auto simp: shiftLeftSelfMaintainBuffer_def k0_def)
  next
    case 2
    then have "b\<lparr>smb_Cursor := smb_Cursor b - shift\<rparr> = resetSelfMaintainBuffer b"
      using n by (simp add: resetSelfMaintainBuffer_def eq_diff_eq)
    then have "shiftLeftSelfMaintainBuffer b shift = Some (resetSelfMaintainBuffer b)"
      using 2 n by (simp add: shiftLeftSelfMaintainBuffer_def)
    then show ?thesis using 2 smb_reset [OF inv] by (simp add: k0_def)
  next
    case 3
    then obtain bs where bs: "smb_Buffer b = Some bs" 
      using assms(2) by (cases "smb_Buffer b") (auto simp: smb_content_def k0_def)
    have len: "k0 \<le> length bs" "smb_content b = take k0 bs"
      using n inv by (auto simp: smb_content_def bs smb_inv_def)
    have k: "nat (smb_Cursor b + 1 - shift) = k0 - nat shift" "smb_Cursor b + 1 - shift \<noteq> 0" using n 3 assms(2) by auto
    let ?bs = "take (k0 - nat shift) (drop (nat shift) bs) @ drop (k0 - nat shift) bs"
    let ?b = "b\<lparr>smb_Buffer := Some ?bs, smb_Cursor := smb_Cursor b - shift\<rparr>"
    have w: "write_bytes bs 0 (take (k0 - nat shift) (drop (nat shift) bs)) = Some ?bs"
      using len(1) by (simp add: write_bytes_def diff_le_mono min_absorb2)
    have "shiftLeftSelfMaintainBuffer b shift = Some ?b"
      using 3 k w len(1) assms(2) n bs by (simp add: shiftLeftSelfMaintainBuffer_def)
    moreover have "smb_inv ?b"
      using inv bs 3 n len(1) assms(2) by (simp add: smb_inv_def)
    moreover have "nat (smb_Cursor b - shift + 1) = k0 - nat shift" using k by (simp add: algebra_simps)
    then have "smb_content ?b = drop (nat shift) (smb_content b)"
      using len by (simp add: smb_content_def drop_take)
    ultimately show ?thesis by blast
  qed
qed

section \<open>Building messages\<close>

text \<open>What the builders of messages rely on: an append that fits is never refused, and adds exactly the
  given bytes.  Then a message of many parts is the concatenation of them.\<close>

locale byte_sink =
  fixes inv :: "'b \<Rightarrow> bool" and content :: "'b \<Rightarrow> byte list" and app :: "'b \<Rightarrow> byte list \<Rightarrow> 'b option"
    and limit :: nat
  assumes app: "inv b \<Longrightarrow> length (content b) + length xs \<le> limit \<Longrightarrow>
    \<exists>b'. app b xs = Some b' \<and> inv b' \<and> content b' = content b @ xs"
begin

lemma build:
  "inv b \<Longrightarrow> length (content b) + length (concat parts) \<le> limit \<Longrightarrow>
    \<exists>b'. fold_opt app b parts = Some b' \<and> inv b' \<and> content b' = content b @ concat parts"
proof (induction parts arbitrary: b)
  case (Cons p ps)
  have "length (content b) + length p \<le> limit" using Cons.prems(2) by simp
  from app [OF Cons.prems(1) this] obtain b1 where b1: "app b p = Some b1" "inv b1" "content b1 = content b @ p"
    by blast
  from Cons.IH [OF b1(2)] Cons.prems(2) b1(3) obtain b' where
    "fold_opt app b1 ps = Some b'" "inv b'" "content b' = content b1 @ concat ps" by auto
  with b1 show ?case by simp
qed simp

end

definition append_bytes :: "SelfMaintainBuffer \<Rightarrow> byte list \<Rightarrow> SelfMaintainBuffer option" where
  "append_bytes b xs = appendSelfMaintainBuffer b xs (of_nat (length xs))"

lemma of_nat32: "k \<le> nat SELFMAINTAINBUFFER_MAX_SIZE \<Longrightarrow> unat (of_nat k :: uint32) = k \<and> uint (of_nat k :: uint32) = int k"
  using unat32_small [of k] uint32_small [of "int k"] by (simp add: SELFMAINTAINBUFFER_MAX_SIZE_def)

interpretation smb: byte_sink smb_inv smb_content append_bytes "nat SELFMAINTAINBUFFER_MAX_SIZE"
proof
  fix b and xs :: "byte list"
  assume inv: "smb_inv b" and fits: "length (smb_content b) + length xs \<le> nat SELFMAINTAINBUFFER_MAX_SIZE"
  then have "length xs \<le> nat SELFMAINTAINBUFFER_MAX_SIZE" by simp
  note u = of_nat32 [OF this]
  have "getSMBContentSize b + uint (of_nat (length xs) :: uint32) \<le> SELFMAINTAINBUFFER_MAX_SIZE"
    using fits u length_content [OF inv] by (simp add: getSMBContentSize_def SELFMAINTAINBUFFER_MAX_SIZE_def)
  then show "\<exists>b'. append_bytes b xs = Some b' \<and> smb_inv b' \<and> smb_content b' = smb_content b @ xs"
    using smb_append [OF inv, of "of_nat (length xs)" xs] u by (simp add: append_bytes_def)
qed

section \<open>Properties\<close>

text \<open>C37: On well-formed buffers, and as long as the content stays below the maximum size, no operation
  writes outside of the allocated memory, and the content is what a byte string would be: appends
  concatenate, a string is appended with its terminator, alignment pads with fewer than eight zeros,
  a copy equals its source, and a shift drops the first bytes.\<close>

theorem smb_refines_bytes:
  assumes "smb_inv b" "smb_inv b2" "0 \<le> shift" "unat len \<le> length str"
    "getSMBContentSize b + uint len + 7 \<le> SELFMAINTAINBUFFER_MAX_SIZE"
    "length (smb_content b) + length (concat parts) \<le> nat SELFMAINTAINBUFFER_MAX_SIZE"
  shows "(\<exists>b'. fold_opt append_bytes b parts = Some b' \<and> smb_inv b' \<and> smb_content b' = smb_content b @ concat parts) \<and>
    (\<exists>b'. appendSMBSimpStr b str len = Some b' \<and> smb_inv b' \<and>
       smb_content b' = smb_content b @ take (unat len) str @ [Some 0]) \<and>
    (\<exists>b' k. appendSelfMaintainBufferTill64bitAligned b = Some b' \<and> smb_inv b' \<and> k < 8 \<and>
       smb_content b' = smb_content b @ replicate k (Some 0) \<and> 8 dvd length (smb_content b')) \<and>
    (\<exists>b'. copySelfMaintainBuffer b b2 = Some b' \<and> smb_inv b' \<and> smb_content b' = smb_content b2) \<and>
    (\<exists>b'. shiftLeftSelfMaintainBuffer b shift = Some b' \<and> smb_inv b' \<and>
       smb_content b' = drop (nat shift) (smb_content b)) \<and>
    swapSelfMaintainBuffer b b2 = (b2, b)"
proof -
  obtain m where m: "uint len = int m" using uint_ge_0 [of len] zero_le_imp_eq_int by blast
  have f: "getSMBContentSize b + uint len + 1 \<le> SELFMAINTAINBUFFER_MAX_SIZE" "getSMBContentSize b + 7 \<le> SELFMAINTAINBUFFER_MAX_SIZE"
    using assms(5) m by linarith+
  show ?thesis
    by (intro conjI smb.build smb_append_string smb_append_align smb_copy smb_shift assms f)
      (simp_all add: swapSelfMaintainBuffer_def)
qed

theorem smb_refines_bytes_witness:
  "\<exists>b'. fold_opt append_bytes (initializeSelfMaintainBuffer 1) [[Some 7], [Some 8, Some 9]] = Some b' \<and>
     smb_content b' = [Some 7, Some 8, Some 9]"
  using smb_refines_bytes [of "initializeSelfMaintainBuffer 1" "initializeSelfMaintainBuffer 1" 0 0 "[]" "[[Some 7], [Some 8, Some 9]]"]
  by (auto simp: smb_inv_initial SELFMAINTAINBUFFER_MAX_SIZE_def)

text \<open>C38: The free space is computed as a signed number and compared as an unsigned one: once the cursor
  stands behind the allocated block, as it may after \<^verbatim>\<open>jumpforwardSelfMaintainBuffer\<close>, the next append
  finds room enough, does not reallocate, and writes outside of the block.\<close>

theorem smb_jump_overruns:
  assumes "smb_inv b" "smb_Buffer b = Some bs" "0 < uint sz" "unat sz \<le> length src"
    "smb_Size b < getSMBContentSize b + uint off" "getSMBContentSize b + uint off \<le> SELFMAINTAINBUFFER_MAX_SIZE"
    "uint sz \<le> SELFMAINTAINBUFFER_MAX_SIZE"
  shows "appendSelfMaintainBuffer (jumpforwardSelfMaintainBuffer b off) src sz = None"
proof -
  let ?b = "jumpforwardSelfMaintainBuffer b off"
  have c: "smb_Cursor ?b = smb_Cursor b + uint off" "smb_Buffer ?b = Some bs" "smb_Size ?b = smb_Size b"
    using sint_step [OF length_content [OF assms(1)], of off] assms(2,6)
    by (simp_all add: jumpforwardSelfMaintainBuffer_def getSMBContentSize_def)
  have sz: "smb_Size b = int (length bs)" "-1 \<le> smb_Cursor b" using assms(1,2) by (auto simp: smb_inv_def)
  let ?k = "smb_Size b - (smb_Cursor b + uint off) - 1"
  have "?k < 0" "- SELFMAINTAINBUFFER_MAX_SIZE \<le> ?k"
    using assms(5,6) sz(1) by (auto simp: getSMBContentSize_def)
  then have "uint (of_int ?k :: uint32) = ?k + 2 ^ 32"
    by (intro uint32_neg) (simp_all add: SELFMAINTAINBUFFER_MAX_SIZE_def)
  with \<open>- SELFMAINTAINBUFFER_MAX_SIZE \<le> ?k\<close> have "\<not> (of_int ?k :: uint32) < sz"
    using assms(7) by (simp add: word_less_def SELFMAINTAINBUFFER_MAX_SIZE_def del: of_int_diff of_int_add)
  then have "smb_grow (Some 0) ?b sz = ?b"
    by (simp add: smb_grow_def c del: of_int_diff of_int_add)
  moreover have "write_bytes bs (smb_Cursor ?b + 1) (take (unat sz) src) = None"
    using assms(3-5) sz by (auto simp: write_bytes_def c getSMBContentSize_def)
  ultimately show ?thesis using assms(4) c by (simp add: appendSelfMaintainBuffer_def)
qed

theorem smb_jump_overruns_witness:
  "appendSelfMaintainBuffer (jumpforwardSelfMaintainBuffer
     \<lparr>smb_Context = 1, smb_Buffer = Some [Some 5], smb_Size = 1, smb_Cursor = 0\<rparr> 1) [Some 7] 1 = None"
  by (rule smb_jump_overruns) (simp_all add: smb_inv_def getSMBContentSize_def SELFMAINTAINBUFFER_MAX_SIZE_def)

end
