(* ===== verification/RM_SimpString.thy ===== *)
theory RM_SimpString
  imports RM_SMBuffer
begin

text \<open>
  The strings of \<^verbatim>\<open>utils/simplestring.c\<close>.  \<^verbatim>\<open>Str\<close> is the memory block the string points to, with its
  terminator and whatever lies behind it; reading or writing outside of the block, or scanning past its end
  for a terminator, makes the operation \<^term>\<open>None\<close>.  The source of a copy is a separate block.  The
  conversions are those of \<^verbatim>\<open>sscanf\<close> and \<^verbatim>\<open>sprintf\<close> in the C library.
\<close>

section \<open>Strings in memory\<close>

record SimpStr =
  str_Len :: int
  str_Str :: "uint8 list option"

definition bytes_of :: "string \<Rightarrow> uint8 list" where
  "bytes_of cs = map of_char cs"

text \<open>The C string at the start of a block.\<close>

definition read_cstring :: "uint8 list \<Rightarrow> uint8 list option" where
  "read_cstring bs = (if 0 \<in> set bs then Some (takeWhile (\<lambda>b. b \<noteq> 0) bs) else None)"

definition initSimpleString :: SimpStr where
  "initSimpleString = \<lparr>str_Len = -1, str_Str = None\<rparr>"

definition setSimpleStringWithContent :: "SimpStr \<Rightarrow> uint8 list \<Rightarrow> int \<Rightarrow> SimpStr option" where
  "setSimpleStringWithContent str content len =
     (let n = nat len;
          block = (case str_Str str of
                     None \<Rightarrow> replicate (n + 1) 0
                   | Some bs \<Rightarrow> if str_Len str < len then replicate (n + 1) 0 else bs)
      in if 0 \<le> len \<and> n \<le> length content \<and> n < length block
         then Some \<lparr>str_Len = len, str_Str = Some (take n content @ 0 # drop (n + 1) block)\<rparr>
         else None)"

definition setSimpleStringNoLen :: "SimpStr \<Rightarrow> uint8 list \<Rightarrow> SimpStr option" where
  "setSimpleStringNoLen str content = do {
     s \<leftarrow> read_cstring content;
     setSimpleStringWithContent str content (int (length s))
   }"

definition setSimpleStringFilled :: "SimpStr \<Rightarrow> uint8 \<Rightarrow> int \<Rightarrow> SimpStr option" where
  "setSimpleStringFilled str val len =
     (if 0 \<le> len then Some \<lparr>str_Len = len, str_Str = Some (replicate (nat len) val @ [0])\<rparr> else None)"

definition freeSimpleStringContent :: "SimpStr \<Rightarrow> SimpStr" where
  "freeSimpleStringContent str = \<lparr>str_Len = -1, str_Str = None\<rparr>"

definition setSimpleStringRef :: "uint8 list \<Rightarrow> int \<Rightarrow> SimpStr" where
  "setSimpleStringRef content len = \<lparr>str_Len = len, str_Str = Some content\<rparr>"

definition SimpleStringCopy :: "SimpStr \<Rightarrow> SimpStr \<Rightarrow> SimpStr option" where
  "SimpleStringCopy str src = do {
     bs \<leftarrow> str_Str src;
     setSimpleStringWithContent str bs (str_Len src)
   }"

definition SimpleStringEmpty :: "SimpStr \<Rightarrow> bool" where
  "SimpleStringEmpty str \<longleftrightarrow> str_Len str = 0"

definition SimpleStringSubstring :: "SimpStr \<Rightarrow> int \<Rightarrow> int \<Rightarrow> SimpStr \<Rightarrow> (int \<times> SimpStr) option" where
  "SimpleStringSubstring str start end1 target = do {
     let newlen = (if end1 = -1 then str_Len str - start else end1 - start);
     bs \<leftarrow> str_Str str;
     target \<leftarrow> (if 0 \<le> start \<and> nat start \<le> length bs
                then setSimpleStringWithContent target (drop (nat start) bs) newlen else None);
     Some (newlen, target)
   }"

section \<open>Searching\<close>

text \<open>\<^verbatim>\<open>strstr\<close>: the first position at which the target starts.\<close>

fun strstr :: "uint8 list \<Rightarrow> uint8 list \<Rightarrow> nat option" where
  "strstr [] target = (if target = [] then Some 0 else None)"
| "strstr (x # xs) target =
     (if take (length target) (x # xs) = target then Some 0
      else case strstr xs target of None \<Rightarrow> None | Some n \<Rightarrow> Some (Suc n))"

definition SimpleStringFind :: "SimpStr \<Rightarrow> uint8 list \<Rightarrow> int option" where
  "SimpleStringFind str target =
     (case str_Str str of
        None \<Rightarrow> Some (-1)
      | Some bs \<Rightarrow> do {
          s \<leftarrow> read_cstring bs;
          Some (case strstr s target of None \<Rightarrow> -1 | Some n \<Rightarrow> int n)
        })"

definition cstring :: "SimpStr \<Rightarrow> uint8 list option" where
  "cstring str = do { bs \<leftarrow> str_Str str; read_cstring bs }"

text \<open>Whether \<^verbatim>\<open>SimpleStringComp\<close> is 0.\<close>

definition SimpleStringEq :: "SimpStr \<Rightarrow> uint8 list \<Rightarrow> bool option" where
  "SimpleStringEq str target = do { s \<leftarrow> cstring str; Some (s = target) }"

definition SimpleStringStartWith :: "SimpStr \<Rightarrow> uint8 list \<Rightarrow> drm_code option" where
  "SimpleStringStartWith str pre = do {
     s \<leftarrow> cstring str;
     Some (if take (length pre) s = pre then FUNC_RETURN_OK else FUNC_RETURN_FAIL)
   }"

text \<open>The loops over the first \<^verbatim>\<open>Len\<close> bytes.\<close>

definition SimpleStringLocateChar :: "SimpStr \<Rightarrow> uint8 \<Rightarrow> (drm_code \<times> nat) option" where
  "SimpleStringLocateChar str target = do {
     bs \<leftarrow> (if str_Len str \<le> 0 then Some [] else str_Str str);
     let pre = takeWhile (\<lambda>b. b \<noteq> target) (take (nat (str_Len str)) bs);
     if length pre < nat (str_Len str)
     then (if length pre < length bs then Some (FUNC_RETURN_OK, length pre) else None)
     else Some (FUNC_RETURN_FAIL, 0)
   }"

definition SimpleStringReplaceChar :: "SimpStr \<Rightarrow> uint8 \<Rightarrow> uint8 \<Rightarrow> SimpStr option" where
  "SimpleStringReplaceChar str oldchar newchar =
     (if str_Len str \<le> 0 then Some str
      else do {
        bs \<leftarrow> str_Str str;
        let n = nat (str_Len str);
        if n \<le> length bs
        then Some (str\<lparr>str_Str := Some (map (\<lambda>b. if b = oldchar then newchar else b) (take n bs) @ drop n bs)\<rparr>)
        else None
      })"

text \<open>The replacement is built in a buffer; the tail is appended with \<^verbatim>\<open>appendSMBStr\<close>, terminator included.\<close>

definition SimpleStringReplaceFirst :: "SimpStr \<Rightarrow> uint8 list \<Rightarrow> uint8 list \<Rightarrow> SimpStr option" where
  "SimpleStringReplaceFirst str oldstr newstr = do {
     bs \<leftarrow> str_Str str;
     s \<leftarrow> read_cstring bs;
     case strstr s oldstr of
       None \<Rightarrow> Some str
     | Some pos \<Rightarrow> do {
         let smb = initializeSelfMaintainBuffer 0;
         smb \<leftarrow> (if pos \<noteq> 0 then append_bytes smb (map Some (take pos s)) else Some smb);
         smb \<leftarrow> append_bytes smb (map Some newstr);
         smb \<leftarrow> (if int (length oldstr + pos) < str_Len str
                 then append_bytes smb (map Some (drop (pos + length oldstr) s @ [0])) else Some smb);
         content \<leftarrow> (case smb_Buffer smb of None \<Rightarrow> None | Some b \<Rightarrow> those b);
         setSimpleStringWithContent str content (getSMBContentSize smb)
       }
   }"

section \<open>Serialization\<close>






section \<open>Tokens\<close>

text \<open>The loop over the tokens; \<open>rest\<close> is the memory from \<^verbatim>\<open>prevp\<close> on.\<close>

fun token_loop :: "uint8 \<Rightarrow> nat \<Rightarrow> uint8 list \<Rightarrow> SimpStr list option" where
  "token_loop split 0 rest = Some []"
| "token_loop split (Suc n) rest =
     (if split \<in> set rest \<or> 0 \<in> set rest then do {
        let len = length (takeWhile (\<lambda>b. b \<noteq> split \<and> b \<noteq> 0) rest);
        t \<leftarrow> setSimpleStringWithContent initSimpleString rest (int len);
        ts \<leftarrow> token_loop split n (drop (len + 1) rest);
        Some (t # ts)
      } else None)"

definition SimpleStringTokens :: "SimpStr \<Rightarrow> uint8 \<Rightarrow> SimpStr list option" where
  "SimpleStringTokens str split =
     (case str_Str str of
        None \<Rightarrow> Some []
      | Some bs \<Rightarrow>
          if str_Len str = 0 then Some []
          else
            let tokensize = 1 + count_list (take (nat (str_Len str)) bs) split
            in if nat (str_Len str) \<le> length bs then token_loop split tokensize bs else None)"

section \<open>Numbers\<close>

definition is_space :: "uint8 \<Rightarrow> bool" where
  "is_space b \<longleftrightarrow> b = 32 \<or> 9 \<le> b \<and> b \<le> 13"

definition is_digit :: "uint8 \<Rightarrow> bool" where
  "is_digit b \<longleftrightarrow> 48 \<le> b \<and> b \<le> 57"

definition digits_val :: "uint8 list \<Rightarrow> nat" where
  "digits_val ds = foldl (\<lambda>a d. 10 * a + (unat d - 48)) 0 ds"

text \<open>An optional sign.\<close>

fun scan_sign :: "uint8 list \<Rightarrow> bool \<times> uint8 list" where
  "scan_sign [] = (False, [])"
| "scan_sign (b # bs) = (if b = 45 then (True, bs) else if b = 43 then (False, bs) else (False, b # bs))"

text \<open>An integer as \<^verbatim>\<open>strtol\<close> reads it: white space, a sign, digits; the bytes behind it are ignored.\<close>

definition scan_integer :: "uint8 list \<Rightarrow> int option" where
  "scan_integer s =
     (let (neg, r) = scan_sign (dropWhile is_space s);
          ds = takeWhile is_digit r
      in if ds = [] then None else Some (if neg then - int (digits_val ds) else int (digits_val ds)))"

text \<open>\<^verbatim>\<open>%d\<close> and \<^verbatim>\<open>%ld\<close> read a 64-bit integer, saturating, \<^verbatim>\<open>%d\<close> keeps its low 32 bits; \<^verbatim>\<open>%u\<close> goes
  through \<^verbatim>\<open>strtoul\<close>, which negates modulo \<open>2 ^ 64\<close>.\<close>

definition sat64 :: "int \<Rightarrow> int" where
  "sat64 v = max (- (2 ^ 63)) (min (2 ^ 63 - 1) v)"

definition scan_d :: "uint8 list \<Rightarrow> int option" where
  "scan_d s = do { v \<leftarrow> scan_integer s; Some (sint (of_int (sat64 v) :: uint32)) }"

definition scan_ld :: "uint8 list \<Rightarrow> int option" where
  "scan_ld s = do { v \<leftarrow> scan_integer s; Some (sat64 v) }"

definition scan_u :: "uint8 list \<Rightarrow> uint32 option" where
  "scan_u s = do {
     v \<leftarrow> scan_integer s;
     Some (if \<bar>v\<bar> \<ge> 2 ^ 64 then of_int (2 ^ 64 - 1) else of_int v)
   }"

text \<open>\<^verbatim>\<open>%lf\<close> on decimal notation: digits with an optional fraction and exponent.  An exponent letter must be
  followed by an exponent.  Hexadecimal floats, \<^verbatim>\<open>inf\<close> and \<^verbatim>\<open>nan\<close> are not covered.\<close>

definition scan_exponent :: "uint8 list \<Rightarrow> int option" where
  "scan_exponent r =
     (case r of
        b # r' \<Rightarrow>
          if b = 101 \<or> b = 69 then
            let (neg, r'') = scan_sign r'; ds = takeWhile is_digit r''
            in if ds = [] then None else Some (if neg then - int (digits_val ds) else int (digits_val ds))
          else Some 0
      | [] \<Rightarrow> Some 0)"

definition scan_lf :: "uint8 list \<Rightarrow> double option" where
  "scan_lf s =
     (let (neg, r) = scan_sign (dropWhile is_space s);
          ip = takeWhile is_digit r; r1 = dropWhile is_digit r;
          fp = (case r1 of b # r2 \<Rightarrow> if b = 46 then takeWhile is_digit r2 else [] | [] \<Rightarrow> []);
          r3 = (case r1 of b # r2 \<Rightarrow> if b = 46 then dropWhile is_digit r2 else r1 | [] \<Rightarrow> [])
      in if ip = [] \<and> fp = [] then None
         else do {
           e \<leftarrow> scan_exponent r3;
           let m = of_nat (digits_val (ip @ fp)) / 10 ^ length fp;
           let v = (if e \<ge> 0 then m * 10 ^ nat e else m / 10 ^ nat (- e));
           Some (if neg then - v else v)
         })"

section \<open>Conversions\<close>

text \<open>The result is \<^term>\<open>None\<close> for a bad access, otherwise the return code with the value.\<close>

definition SimpleStringIsPercentage :: "SimpStr \<Rightarrow> bool option" where
  "SimpleStringIsPercentage str =
     (if str_Len str \<le> 1 then Some False
      else do {
        s \<leftarrow> cstring str;
        if s = [] then None else Some (last s = 37)
      })"

definition SimpleStringToPercentage :: "SimpStr \<Rightarrow> (drm_code \<times> int) option" where
  "SimpleStringToPercentage str = do {
     s \<leftarrow> cstring str;
     Some (case scan_d s of
             Some val \<Rightarrow> if val \<ge> 0 \<and> val \<le> 100 then (FUNC_RETURN_OK, val) else (UTIL_SIMPSTRING_WRONG_FORMAT, 0)
           | None \<Rightarrow> (UTIL_SIMPSTRING_WRONG_FORMAT, 0))
   }"

definition to_int32 :: "int \<Rightarrow> int" where
  "to_int32 k = sint (of_int k :: uint32)"

definition SimpleStringToStorageSizeMB :: "SimpStr \<Rightarrow> (drm_code \<times> int) option" where
  "SimpleStringToStorageSizeMB str = do {
     s \<leftarrow> cstring str;
     let tail = int (length s) - 1;
     Some
       (if tail < 2 \<or> tail > 255 then (UTIL_SIMPSTRING_WRONG_FORMAT, 0)
        else
          let buff = take (nat (tail - 1)) s in
          case scan_d buff of
            None \<Rightarrow> (UTIL_SIMPSTRING_WRONG_FORMAT, 0)
          | Some val \<Rightarrow>
              let c1 = s ! nat tail; c2 = s ! nat (tail - 1); b = (c1 = 98 \<or> c1 = 66) in
              if b \<and> (c2 = 109 \<or> c2 = 77) then (FUNC_RETURN_OK, val)
              else if b \<and> (c2 = 103 \<or> c2 = 71) then (FUNC_RETURN_OK, to_int32 (val * 1024))
              else if b \<and> (c2 = 116 \<or> c2 = 84) then (FUNC_RETURN_OK, to_int32 (val * 1024 * 1024))
              else (UTIL_SIMPSTRING_WRONG_FORMAT, 0))
   }"

text \<open>The position of the string in a table of names.\<close>

definition SimpleStringToMapIndexInt8 :: "SimpStr \<Rightarrow> uint8 list list \<Rightarrow> (drm_code \<times> int) option" where
  "SimpleStringToMapIndexInt8 str strlist = do {
     s \<leftarrow> cstring str;
     let n = length (takeWhile (\<lambda>t. t \<noteq> s) (take 127 strlist));
     Some (if n < length (take 127 strlist) then (FUNC_RETURN_OK, int n) else (UTIL_SIMPSTR_NO_MATCH, -1))
   }"

definition SimpleStringToBool :: "SimpStr \<Rightarrow> (drm_code \<times> bool) option" where
  "SimpleStringToBool str = do {
     s \<leftarrow> cstring str;
     Some (if s = bytes_of ''false'' \<or> s = bytes_of ''FALSE'' then (FUNC_RETURN_OK, False)
           else if s = bytes_of ''true'' \<or> s = bytes_of ''TRUE'' then (FUNC_RETURN_OK, True)
           else (UTIL_SIMPSTRING_WRONG_FORMAT, False))
   }"

definition SimpleStringToInt8 :: "SimpStr \<Rightarrow> (drm_code \<times> int) option" where
  "SimpleStringToInt8 str = do {
     s \<leftarrow> cstring str;
     Some (case scan_d s of
             Some val \<Rightarrow> if val \<ge> -128 \<and> val \<le> 127 then (FUNC_RETURN_OK, val) else (UTIL_SIMPSTRING_WRONG_FORMAT, 0)
           | None \<Rightarrow> (UTIL_SIMPSTRING_WRONG_FORMAT, 0))
   }"

definition SimpleStringToInt32 :: "SimpStr \<Rightarrow> (drm_code \<times> int) option" where
  "SimpleStringToInt32 str = do {
     s \<leftarrow> cstring str;
     Some (case scan_d s of Some val \<Rightarrow> (FUNC_RETURN_OK, val) | None \<Rightarrow> (UTIL_SIMPSTRING_WRONG_FORMAT, 0))
   }"

definition SimpleStringToUInt32 :: "SimpStr \<Rightarrow> (drm_code \<times> uint32) option" where
  "SimpleStringToUInt32 str = do {
     s \<leftarrow> cstring str;
     Some (case scan_u s of Some val \<Rightarrow> (FUNC_RETURN_OK, val) | None \<Rightarrow> (UTIL_SIMPSTRING_WRONG_FORMAT, 0))
   }"

definition SimpleStringToInt64 :: "SimpStr \<Rightarrow> (drm_code \<times> int) option" where
  "SimpleStringToInt64 str = do {
     s \<leftarrow> cstring str;
     Some (case scan_ld s of Some val \<Rightarrow> (FUNC_RETURN_OK, val) | None \<Rightarrow> (UTIL_SIMPSTRING_WRONG_FORMAT, 0))
   }"

definition SimpleStringToDouble :: "SimpStr \<Rightarrow> (drm_code \<times> double) option" where
  "SimpleStringToDouble str = do {
     s \<leftarrow> cstring str;
     Some (case scan_lf s of Some val \<Rightarrow> (FUNC_RETURN_OK, val) | None \<Rightarrow> (UTIL_SIMPSTRING_WRONG_FORMAT, 0))
   }"

text \<open>\<^verbatim>\<open>Oid\<close> is unsigned, but scanned with \<^verbatim>\<open>%d\<close>.\<close>

definition SimpleStringToOid :: "SimpStr \<Rightarrow> (drm_code \<times> uint32) option" where
  "SimpleStringToOid str = do {
     s \<leftarrow> cstring str;
     Some (case scan_d s of Some val \<Rightarrow> (FUNC_RETURN_OK, of_int val) | None \<Rightarrow> (UTIL_SIMPSTRING_WRONG_FORMAT, 0))
   }"

text \<open>\<^verbatim>\<open>sprintf\<close> of a decimal integer into a buffer of a given size.\<close>

fun dec_digits :: "nat \<Rightarrow> uint8 list" where
  "dec_digits n = (if n < 10 then [48 + of_nat n] else dec_digits (n div 10) @ [48 + of_nat (n mod 10)])"

declare dec_digits.simps [simp del]

definition print_d :: "int \<Rightarrow> uint8 list" where
  "print_d k = (if k < 0 then 45 # dec_digits (nat (- k)) else dec_digits (nat k))"

definition sprintf_d :: "nat \<Rightarrow> int \<Rightarrow> uint8 list option" where
  "sprintf_d bufsize k = (if length (print_d k) < bufsize then Some (print_d k @ [0]) else None)"

definition SimpleStringSetOid :: "SimpStr \<Rightarrow> uint32 \<Rightarrow> SimpStr option" where
  "SimpleStringSetOid str val = do { valuestr \<leftarrow> sprintf_d 64 (uint val); setSimpleStringNoLen str valuestr }"

definition SimpleStringSetInt8 :: "SimpStr \<Rightarrow> int \<Rightarrow> SimpStr option" where
  "SimpleStringSetInt8 str val = do { valuestr \<leftarrow> sprintf_d 8 val; setSimpleStringNoLen str valuestr }"

definition SimpleStringSetInt32 :: "SimpStr \<Rightarrow> int \<Rightarrow> SimpStr option" where
  "SimpleStringSetInt32 str val = do { valuestr \<leftarrow> sprintf_d 8 val; setSimpleStringNoLen str valuestr }"

definition SimpleStringSetBool :: "SimpStr \<Rightarrow> bool \<Rightarrow> SimpStr option" where
  "SimpleStringSetBool str val =
     setSimpleStringNoLen str ((if val then bytes_of ''true'' else bytes_of ''false'') @ [0])"

definition SimpleStringSetName :: "SimpStr \<Rightarrow> uint8 list \<Rightarrow> SimpStr option" where
  "SimpleStringSetName str val = setSimpleStringNoLen str val"

section \<open>Contents\<close>

definition str_inv :: "SimpStr \<Rightarrow> bool" where
  "str_inv str \<longleftrightarrow>
     (case str_Str str of
        None \<Rightarrow> str_Len str = -1
      | Some bs \<Rightarrow> 0 \<le> str_Len str \<and> str_Len str < int (length bs) \<and> bs ! nat (str_Len str) = 0)"

definition str_content :: "SimpStr \<Rightarrow> uint8 list" where
  "str_content str = take (nat (str_Len str)) (case str_Str str of None \<Rightarrow> [] | Some bs \<Rightarrow> bs)"

lemma str_inv_init: "str_inv initSimpleString"
  by (simp add: str_inv_def initSimpleString_def)

lemma set_content:
  assumes "str_inv str" "n \<le> length content"
  shows "\<exists>s. setSimpleStringWithContent str content (int n) = Some s \<and> str_inv s \<and> str_content s = take n content \<and>
    str_Len s = int n"
  using assms
  by (auto simp: setSimpleStringWithContent_def str_inv_def str_content_def Let_def nth_append split: option.splits)

lemma read_cstring_app: "0 \<notin> set s \<Longrightarrow> read_cstring (s @ 0 # r) = Some s"
  by (induction s) (auto simp: read_cstring_def)

lemma cstring_content:
  assumes "str_inv str" "str_Str str \<noteq> None" "0 \<notin> set (str_content str)"
  shows "cstring str = Some (str_content str)"
proof -
  obtain bs where bs: "str_Str str = Some bs" using assms(2) by blast
  let ?n = "nat (str_Len str)"
  have n: "?n < length bs" "bs ! ?n = 0" using assms(1) bs by (auto simp: str_inv_def)
  have "bs = take ?n bs @ 0 # drop (Suc ?n) bs" using id_take_nth_drop [OF n(1)] n(2) by simp
  then show ?thesis
    using read_cstring_app [of "take ?n bs" "drop (Suc ?n) bs"] assms(3) bs by (simp add: cstring_def str_content_def)
qed

lemma set_no_len:
  assumes "str_inv str" "0 \<notin> set s"
  shows "\<exists>t. setSimpleStringNoLen str (s @ [0]) = Some t \<and> str_inv t \<and> str_content t = s \<and> cstring t = Some s"
proof -
  obtain t where t: "setSimpleStringWithContent str (s @ [0]) (int (length s)) = Some t" "str_inv t" "str_content t = s"
    "str_Len t = int (length s)"
    using set_content [OF assms(1), of "length s" "s @ [0]"] by auto
  moreover have "str_Str t \<noteq> None" using t(2,4) by (auto simp: str_inv_def split: option.splits)
  ultimately show ?thesis
    using assms(2) by (simp add: setSimpleStringNoLen_def read_cstring_app cstring_content)
qed

section \<open>Decimal numbers\<close>

lemma digit_byte: "d < 10 \<Longrightarrow> is_digit (48 + of_nat d) \<and> unat (48 + of_nat d :: uint8) - 48 = d \<and> (48 + of_nat d :: uint8) \<noteq> 0"
proof -
  assume d: "d < 10"
  then have u: "unat (48 + of_nat d :: uint8) = 48 + d"
    by (simp add: unat_word_ariths unat_of_nat take_bit_nat_eq_self)
  then have "(48 + of_nat d :: uint8) \<noteq> 0" by (metis add_is_0 unat_0 zero_neq_numeral)
  with u d show ?thesis by (simp add: is_digit_def word_le_nat_alt)
qed

lemma digit_not_other: "is_digit d \<Longrightarrow> \<not> is_space d \<and> d \<noteq> 45 \<and> d \<noteq> 43"
  by (auto simp: is_digit_def is_space_def word_le_nat_alt)

lemma digits_val_snoc: "digits_val (ds @ [d]) = 10 * digits_val ds + (unat d - 48)"
  by (simp add: digits_val_def)

lemma dec_digits_spec:
  "digits_val (dec_digits n) = n \<and> (\<forall>d \<in> set (dec_digits n). is_digit d \<and> d \<noteq> 0) \<and> dec_digits n \<noteq> []"
proof (induction n rule: dec_digits.induct)
  case (1 n)
  show ?case
  proof (cases "n < 10")
    case True
    then show ?thesis using digit_byte [OF True] by (simp add: dec_digits.simps [of n] digits_val_def)
  next
    case False
    have "n mod 10 < 10" by simp
    with 1 [OF False] False show ?thesis
      using digit_byte [of "n mod 10"] by (subst (1 2 3) dec_digits.simps) (auto simp: digits_val_snoc)
  qed
qed

lemma length_dec_digits: "length (dec_digits n) \<le> Suc k \<longleftrightarrow> n < 10 ^ Suc k"
proof (induction n arbitrary: k rule: dec_digits.induct)
  case (1 n)
  show ?case
  proof (cases "n < 10")
    case True
    then have "n < 10 * 10 ^ k" using one_le_power [of "10 :: nat" k] by linarith
    with True show ?thesis by (simp add: dec_digits.simps [of n])
  next
    case False
    note IH = 1 [OF False]
    show ?thesis
    proof (cases k)
      case 0
      then show ?thesis using False dec_digits_spec [of "n div 10"] by (subst dec_digits.simps) (auto simp: Suc_le_eq)
    next
      case (Suc j)
      then show ?thesis using False IH [of j] by (subst dec_digits.simps) (auto simp: div_less_iff_less_mult)
    qed
  qed
qed

lemma print_d_bytes: "0 \<notin> set (print_d k)"
  using dec_digits_spec by (auto simp: print_d_def)

lemma scan_print: "scan_integer (print_d k) = Some k"
proof -
  have sign: "scan_sign (dec_digits n) = (False, dec_digits n)" "dropWhile is_space (dec_digits n) = dec_digits n" for n
    using dec_digits_spec [of n] digit_not_other by (cases "dec_digits n"; simp)+
  have all: "takeWhile is_digit (dec_digits n) = dec_digits n" for n
    using dec_digits_spec [of n] by (simp add: takeWhile_eq_all_conv)
  show ?thesis
    by (cases "k < 0") (use dec_digits_spec in \<open>simp_all add: print_d_def scan_integer_def sign all is_space_def\<close>)
qed

lemma length_print_d: "length (print_d k) < 8 \<longleftrightarrow> - (10 ^ 6) < k \<and> k < 10 ^ 7"
proof (cases "k < 0")
  case True
  have "length (print_d k) < 8 \<longleftrightarrow> length (dec_digits (nat (- k))) \<le> Suc 5"
    using True by (auto simp: print_d_def)
  also have "\<dots> \<longleftrightarrow> nat (- k) < 10 ^ Suc 5" by (rule length_dec_digits)
  finally show ?thesis using True by (simp add: zless_nat_eq_int_zless nat_less_iff) linarith
next
  case False
  have "length (print_d k) < 8 \<longleftrightarrow> length (dec_digits (nat k)) \<le> Suc 6"
    using False by (auto simp: print_d_def)
  also have "\<dots> \<longleftrightarrow> nat k < 10 ^ Suc 6" by (rule length_dec_digits)
  finally show ?thesis using False by (simp add: nat_less_iff)
qed

lemma sat64_id: "- (2 ^ 63) \<le> v \<Longrightarrow> v < 2 ^ 63 \<Longrightarrow> sat64 v = v"
  by (simp add: sat64_def)

lemma sint_of_int32: "- (2 ^ 31) \<le> k \<Longrightarrow> k < 2 ^ 31 \<Longrightarrow> sint (of_int k :: uint32) = k"
proof -
  assume "- (2 ^ 31) \<le> k" "k < 2 ^ 31"
  then have "signed_take_bit 31 k = k" by (simp add: signed_take_bit_int_eq_self)
  moreover have "sint (of_int k :: uint32) = signed_take_bit 31 k" by transfer simp
  ultimately show ?thesis by simp
qed

lemma scan_d_print: "- (2 ^ 31) \<le> k \<Longrightarrow> k < 2 ^ 31 \<Longrightarrow> scan_d (print_d k) = Some k"
  using sint_of_int32 [of k] by (simp add: scan_d_def scan_print sat64_def)

section \<open>Serialized strings\<close>




section \<open>Tokens\<close>

fun join_with :: "uint8 \<Rightarrow> uint8 list list \<Rightarrow> uint8 list" where
  "join_with c [] = []"
| "join_with c [s] = s"
| "join_with c (s # t # ts) = s @ c # join_with c (t # ts)"

lemma takeWhile_stop: "(\<And>b. b \<in> set v \<Longrightarrow> P b) \<Longrightarrow> \<not> P c \<Longrightarrow> takeWhile P (v @ c # x) = v"
  by (induction v) auto

lemma token_step:
  assumes "split \<notin> set w" "0 \<notin> set w" "c = split \<or> c = 0"
  shows "\<exists>t. str_inv t \<and> str_content t = w \<and>
    token_loop split (Suc n) (w @ c # x) = (case token_loop split n x of None \<Rightarrow> None | Some ts \<Rightarrow> Some (t # ts))"
proof -
  have tk: "takeWhile (\<lambda>b. b \<noteq> split \<and> b \<noteq> 0) (w @ c # x) = w"
    using assms by (intro takeWhile_stop) auto
  obtain t where t: "setSimpleStringWithContent initSimpleString (w @ c # x) (int (length w)) = Some t" "str_inv t"
    "str_content t = w"
    using set_content [OF str_inv_init, of "length w" "w @ c # x"] by auto
  have "token_loop split (Suc n) (w @ c # x) = (case token_loop split n x of None \<Rightarrow> None | Some ts \<Rightarrow> Some (t # ts))"
    using assms(3) t(1) tk by (auto simp: Let_def split: option.splits)
  with t(2,3) show ?thesis by blast
qed

lemma token_loop_spec:
  assumes "split \<noteq> 0" "0 \<notin> set s"
  shows "\<exists>ts. token_loop split (Suc (count_list s split)) (s @ 0 # r) = Some ts \<and>
    join_with split (map str_content ts) = s \<and> (\<forall>t \<in> set ts. split \<notin> set (str_content t) \<and> str_inv t) \<and>
    length ts = Suc (count_list s split)"
  using assms(2)
proof (induction "length s" arbitrary: s rule: less_induct)
  case less
  show ?case
  proof (cases "split \<in> set s")
    case False
    from token_step [OF False less.prems, of 0 0 r] obtain t where
      t: "str_inv t" "str_content t = s" "token_loop split (Suc 0) (s @ 0 # r) = Some [t]" by auto
    have "count_list s split = 0" using False by (simp add: count_list_0_iff)
    with t False show ?thesis by (intro exI [of _ "[t]"]) simp
  next
    case True
    then obtain w s' where s: "s = w @ split # s'" and w: "split \<notin> set w" using split_list_first by metis
    then have z: "0 \<notin> set w" "0 \<notin> set s'" "length s' < length s" using less.prems by auto
    from less.hyps [OF z(3,2)] obtain ts where ts: "token_loop split (Suc (count_list s' split)) (s' @ 0 # r) = Some ts"
      "join_with split (map str_content ts) = s'" "\<forall>t \<in> set ts. split \<notin> set (str_content t) \<and> str_inv t"
      "length ts = Suc (count_list s' split)" by blast
    have cnt: "count_list s split = Suc (count_list s' split)"
      using w by (simp add: s count_list_append count_list_0_iff [THEN iffD2])
    from token_step [OF w z(1), of split "Suc (count_list s' split)" "s' @ 0 # r"] ts(1) obtain t where
      t: "str_inv t" "str_content t = w"
        "token_loop split (Suc (Suc (count_list s' split))) (w @ split # s' @ 0 # r) = Some (t # ts)" by auto
    have "join_with split (map str_content (t # ts)) = s" using ts(2,4) t(2) by (cases ts) (auto simp: s)
    moreover have "token_loop split (Suc (count_list s split)) (s @ 0 # r) = Some (t # ts)"
      using t(3) unfolding cnt by (simp only: s append_assoc append_Cons)
    ultimately show ?thesis using ts(3,4) t(1,2) w cnt by (intro exI [of _ "t # ts"]) simp
  qed
qed

section \<open>Replacement\<close>

text \<open>The length after a replacement counts the terminator that \<^verbatim>\<open>appendSMBStr\<close> put into the buffer.\<close>

lemma replaceFirst_counts_terminator:
  "map_option (\<lambda>s. (str_Len s, cstring s))
     (SimpleStringReplaceFirst \<lparr>str_Len = 3, str_Str = Some [97, 98, 99, 0]\<rparr> [97] [120]) =
   Some (4, Some [120, 98, 99])"
  by code_simp

section \<open>Properties\<close>

text \<open>C39: Numbers survive the way through a string: every \<^verbatim>\<open>Oid\<close> and every 8-bit integer is read back as
  written, and so is a 32-bit integer whose notation fits the eight bytes of the static buffer; for every
  other 32-bit integer \<^verbatim>\<open>SimpleStringSetInt32\<close> writes past that buffer.\<close>

theorem number_strings_roundtrip:
  assumes "str_inv str" "- (2 ^ 31) \<le> k" "k < 2 ^ 31"
  shows "(\<exists>s. SimpleStringSetOid str w = Some s \<and> SimpleStringToOid s = Some (FUNC_RETURN_OK, w)) \<and>
    (-128 \<le> k \<and> k \<le> 127 \<longrightarrow> (\<exists>s. SimpleStringSetInt8 str k = Some s \<and> SimpleStringToInt8 s = Some (FUNC_RETURN_OK, k))) \<and>
    (if -1000000 < k \<and> k < 10000000
     then \<exists>s. SimpleStringSetInt32 str k = Some s \<and> SimpleStringToInt32 s = Some (FUNC_RETURN_OK, k)
     else SimpleStringSetInt32 str k = None)"
proof -
  note set = set_no_len [OF assms(1) print_d_bytes]
  have "unat w < 10 ^ Suc 9" using unsigned_less [of w, where 'a = nat] by simp
  then have "length (dec_digits (unat w)) \<le> Suc 9" by (simp only: length_dec_digits)
  then have "length (print_d (uint w)) < 64" by (simp add: print_d_def)
  moreover have "scan_d (print_d (uint w)) = Some (sint w)"
    using uint_lt2p [of w] sat64_id [of "uint w"] uint_ge_0 [of w] by (simp add: scan_d_def scan_print)
  ultimately have oid: "\<exists>s. SimpleStringSetOid str w = Some s \<and> SimpleStringToOid s = Some (FUNC_RETURN_OK, w)"
    using set [of "uint w"] by (auto simp: SimpleStringSetOid_def sprintf_d_def SimpleStringToOid_def)
  note sc = scan_d_print [OF assms(2,3)]
  have fit: "length (print_d k) < 8 \<longleftrightarrow> -1000000 < k \<and> k < 10000000"
    using length_print_d [of k] by simp
  obtain s where s: "setSimpleStringNoLen str (print_d k @ [0]) = Some s" "cstring s = Some (print_d k)"
    using set [of k] by blast
  have i32: "if length (print_d k) < 8
     then \<exists>s. SimpleStringSetInt32 str k = Some s \<and> SimpleStringToInt32 s = Some (FUNC_RETURN_OK, k)
     else SimpleStringSetInt32 str k = None"
    using s sc by (simp add: SimpleStringSetInt32_def sprintf_d_def SimpleStringToInt32_def)
  have i8: "\<exists>s. SimpleStringSetInt8 str k = Some s \<and> SimpleStringToInt8 s = Some (FUNC_RETURN_OK, k)"
    if "-128 \<le> k \<and> k \<le> 127"
    using s sc fit that by (simp add: SimpleStringSetInt8_def sprintf_d_def SimpleStringToInt8_def)
  show ?thesis using oid i8 i32 unfolding fit by blast
qed

theorem number_strings_roundtrip_witness:
  "SimpleStringSetInt32 initSimpleString 12345678 = None \<and>
   (\<exists>s. SimpleStringSetInt32 initSimpleString (-42) = Some s \<and> SimpleStringToInt32 s = Some (FUNC_RETURN_OK, -42))"
proof
  show "SimpleStringSetInt32 initSimpleString 12345678 = None"
    using number_strings_roundtrip [OF str_inv_init, of 12345678 0] by simp
  show "\<exists>s. SimpleStringSetInt32 initSimpleString (-42) = Some s \<and> SimpleStringToInt32 s = Some (FUNC_RETURN_OK, -42)"
    using number_strings_roundtrip [OF str_inv_init, of "-42" 0] by simp
qed



text \<open>A non-empty string is cut into tokens that contain no separator and whose concatenation with
  separators in between is the string; no byte outside of the string is read.\<close>

theorem tokens_join:
  assumes "str_inv str" "str_Str str \<noteq> None" "split \<noteq> 0" "0 \<notin> set (str_content str)" "str_content str \<noteq> []"
  shows "\<exists>ts. SimpleStringTokens str split = Some ts \<and> join_with split (map str_content ts) = str_content str \<and>
    (\<forall>t \<in> set ts. split \<notin> set (str_content t) \<and> str_inv t) \<and> length ts = Suc (count_list (str_content str) split)"
proof -
  obtain bs where bs: "str_Str str = Some bs" using assms(2) by blast
  let ?n = "nat (str_Len str)"
  have n: "?n < length bs" "bs ! ?n = 0" "str_Len str \<noteq> 0"
    using assms(1,5) bs by (auto simp: str_inv_def str_content_def)
  have c: "str_content str = take ?n bs" by (simp add: str_content_def bs)
  obtain r where r: "bs = str_content str @ 0 # r"
    using id_take_nth_drop [OF n(1)] n(2) c by metis
  have "SimpleStringTokens str split = token_loop split (Suc (count_list (str_content str) split)) bs"
    using n c by (simp add: SimpleStringTokens_def bs Let_def)
  then show ?thesis
    using token_loop_spec [OF assms(3,4), of r] by (simp only: r [symmetric])
qed

theorem tokens_join_witness:
  "\<exists>ts. SimpleStringTokens \<lparr>str_Len = 3, str_Str = Some [97, 44, 98, 0]\<rparr> 44 = Some ts \<and> length ts = 2 \<and>
     join_with 44 (map str_content ts) = [97, 44, 98]"
proof -
  let ?s = "\<lparr>str_Len = 3, str_Str = Some [97, 44, 98, 0]\<rparr>"
  have c: "str_content ?s = [97, 44, 98]" by (simp add: str_content_def)
  have "str_inv ?s" "str_Str ?s \<noteq> None" "(44 :: uint8) \<noteq> 0" "0 \<notin> set (str_content ?s)" "str_content ?s \<noteq> []"
    by (simp_all add: str_inv_def c)
  from tokens_join [OF this] show ?thesis unfolding c by auto
qed

end
