(* ===== verification/RM_WaterMark.thy ===== *)
theory RM_WaterMark
  imports RM_Prelude
begin

text \<open>
  The water marks of a memory/core ratio, \<^verbatim>\<open>markMemoryCoreRatioWaterMark\<close> of \<^verbatim>\<open>resqueuemanager.c\<close>: the
  queue of marks is kept as a list (\<^verbatim>\<open>DQueue\<close> behaves as one), newest last.  The queue is shown to be a
  sliding-window maximum: its head is the largest memory usage of the last \<^verbatim>\<open>rm_resource_timeout\<close> seconds.
\<close>

section \<open>Marking\<close>

record DynMemoryCoreRatioWaterMark =
  wm_ClusterMemoryMB :: int
  wm_ClusterVCore :: double
  wm_LastRecordTime :: uint64

text \<open>The mark of the current second: the last mark, raised, when it is of this second, otherwise a new
  one; with the marks before it.\<close>

definition cutLastMark ::
  "DynMemoryCoreRatioWaterMark list \<Rightarrow> uint64 \<Rightarrow> int \<Rightarrow> double
   \<Rightarrow> DynMemoryCoreRatioWaterMark \<times> DynMemoryCoreRatioWaterMark list" where
  "cutLastMark marks cursec memmb core =
     (if marks \<noteq> [] \<and> wm_LastRecordTime (last marks) = cursec then
        let lastmark = last marks in
        (lastmark\<lparr>wm_ClusterMemoryMB := (if wm_ClusterMemoryMB lastmark > memmb then wm_ClusterMemoryMB lastmark else memmb),
                  wm_ClusterVCore := (if wm_ClusterVCore lastmark > core then wm_ClusterVCore lastmark else core)\<rparr>,
         butlast marks)
      else (\<lparr>wm_ClusterMemoryMB = memmb, wm_ClusterVCore = core, wm_LastRecordTime = cursec\<rparr>, marks))"

text \<open>The two loops that remove marks, from the head and from the tail.\<close>

fun removeOldMarks :: "int \<Rightarrow> DynMemoryCoreRatioWaterMark \<Rightarrow> DynMemoryCoreRatioWaterMark list
   \<Rightarrow> DynMemoryCoreRatioWaterMark list" where
  "removeOldMarks rm_resource_timeout lastmark [] = []"
| "removeOldMarks rm_resource_timeout lastmark (firstmark # marks) =
     (if wm_LastRecordTime lastmark - wm_LastRecordTime firstmark > of_int rm_resource_timeout
      then removeOldMarks rm_resource_timeout lastmark marks else firstmark # marks)"

function removeLowMarks :: "DynMemoryCoreRatioWaterMark \<Rightarrow> DynMemoryCoreRatioWaterMark list
   \<Rightarrow> DynMemoryCoreRatioWaterMark list" where
  "removeLowMarks lastmark marks =
     (if marks \<noteq> [] \<and> wm_ClusterMemoryMB (last marks) \<le> wm_ClusterMemoryMB lastmark
      then removeLowMarks lastmark (butlast marks) else marks)"
  by pat_completeness auto
termination
  by (relation "measure (\<lambda>(l, marks). length marks)") (simp_all add: diff_less)

declare removeLowMarks.simps [simp del]

definition markMemoryCoreRatioWaterMark ::
  "int \<Rightarrow> DynMemoryCoreRatioWaterMark list \<Rightarrow> uint64 \<Rightarrow> int \<Rightarrow> double \<Rightarrow> DynMemoryCoreRatioWaterMark list" where
  "markMemoryCoreRatioWaterMark rm_resource_timeout marks curmicrosec memmb core =
     (let cursec = curmicrosec div 1000000;
          (lastmark, marks) = cutLastMark marks cursec memmb core;
          marks = removeOldMarks rm_resource_timeout lastmark marks;
          marks = removeLowMarks lastmark marks
      in marks @ [lastmark])"

section \<open>The window\<close>

type_synonym usage = "uint64 \<times> int \<times> double"

definition run_marks :: "int \<Rightarrow> usage list \<Rightarrow> DynMemoryCoreRatioWaterMark list" where
  "run_marks timeout us = foldl (\<lambda>marks (t, mem, core). markMemoryCoreRatioWaterMark timeout marks t mem core) [] us"

definition sec :: "usage \<Rightarrow> uint64" where
  "sec u = fst u div 1000000"

definition mem_of_usage :: "usage \<Rightarrow> int" where
  "mem_of_usage u = fst (snd u)"

text \<open>The reference: the usages reported in the window that ends at a given second.\<close>

definition window :: "int \<Rightarrow> uint64 \<Rightarrow> usage list \<Rightarrow> usage list" where
  "window timeout now us = filter (\<lambda>u. now - sec u \<le> of_int timeout) us"

definition marks_sorted :: "DynMemoryCoreRatioWaterMark list \<Rightarrow> bool" where
  "marks_sorted marks \<longleftrightarrow>
     sorted_wrt (\<lambda>a b. wm_LastRecordTime a < wm_LastRecordTime b \<and> wm_ClusterMemoryMB b < wm_ClusterMemoryMB a) marks"

lemma removeOldMarks_eq:
  "removeOldMarks timeout l marks =
     dropWhile (\<lambda>f. of_int timeout < wm_LastRecordTime l - wm_LastRecordTime f) marks"
  by (induction marks) auto

lemma removeLowMarks_eq:
  "removeLowMarks l marks = rev (dropWhile (\<lambda>f. wm_ClusterMemoryMB f \<le> wm_ClusterMemoryMB l) (rev marks))"
proof (induction marks rule: rev_induct)
  case Nil
  then show ?case by (simp add: removeLowMarks.simps)
next
  case (snoc m marks)
  then show ?case by (subst removeLowMarks.simps) simp
qed

text \<open>Later times are less old.\<close>

lemma minus_antimono: "a \<le> b \<Longrightarrow> b \<le> now \<Longrightarrow> now - b \<le> now - (a :: uint64)"
  by (simp add: word_le_nat_alt unat_sub)

lemma minus_left_mono: "a \<le> b \<Longrightarrow> b \<le> now \<Longrightarrow> b - a \<le> now - (a :: uint64)"
  by (simp add: word_le_nat_alt unat_sub)

lemma sorted_dropWhile:
  assumes "marks_sorted marks" and "\<forall>m \<in> set marks. wm_LastRecordTime m \<le> now"
    and m: "m \<in> set (dropWhile (\<lambda>f. bnd < now - wm_LastRecordTime f) marks)"
  shows "now - wm_LastRecordTime m \<le> bnd"
  using assms
proof (induction marks)
  case (Cons f fs)
  show ?case
  proof (cases "bnd < now - wm_LastRecordTime f")
    case True
    then show ?thesis using Cons by (auto simp: marks_sorted_def)
  next
    case False
    then have f: "now - wm_LastRecordTime f \<le> bnd" by simp
    have "m = f \<or> m \<in> set fs" using Cons.prems(3) False by auto
    then show ?thesis
    proof
      assume "m \<in> set fs"
      then have "wm_LastRecordTime f \<le> wm_LastRecordTime m" "wm_LastRecordTime m \<le> now"
        using Cons.prems(1,2) by (auto simp: marks_sorted_def)
      then show ?thesis using minus_antimono f by (meson order_trans)
    qed (use f in simp)
  qed
qed simp

lemma in_dropWhile: "x \<in> set xs \<Longrightarrow> \<not> P x \<Longrightarrow> x \<in> set (dropWhile P xs)"
  by (induction xs) auto

lemma marks_sorted_dropWhile: "marks_sorted marks \<Longrightarrow> marks_sorted (dropWhile P marks)"
  unfolding marks_sorted_def by (induction marks) auto

lemma marks_sorted_rev_dropWhile:
  "marks_sorted marks \<Longrightarrow> marks_sorted (rev (dropWhile P (rev marks)))"
  unfolding marks_sorted_def by (induction marks rule: rev_induct) (auto simp: sorted_wrt_append)

text \<open>What is left of a falling list after removing the low end is above the bound.\<close>

lemma rev_dropWhile_high:
  "marks_sorted marks \<Longrightarrow> m \<in> set (rev (dropWhile (\<lambda>f. wm_ClusterMemoryMB f \<le> b) (rev marks))) \<Longrightarrow> b < wm_ClusterMemoryMB m"
proof (induction marks rule: rev_induct)
  case (snoc x marks)
  show ?case
  proof (cases "wm_ClusterMemoryMB x \<le> b")
    case True
    then show ?thesis using snoc by (auto simp: marks_sorted_def sorted_wrt_append)
  next
    case False
    then have "m \<in> set marks \<or> m = x" using snoc.prems(2) by auto
    then show ?thesis using False snoc.prems(1) by (auto simp: marks_sorted_def sorted_wrt_append)
  qed
qed simp

section \<open>Invariant\<close>

definition marks_inv :: "int \<Rightarrow> usage list \<Rightarrow> DynMemoryCoreRatioWaterMark list \<Rightarrow> bool" where
  "marks_inv timeout us marks \<longleftrightarrow>
     us \<noteq> [] \<and> marks_sorted marks \<and> marks \<noteq> [] \<and> wm_LastRecordTime (last marks) = sec (last us) \<and>
     (\<forall>m \<in> set marks. wm_LastRecordTime m \<le> sec (last us) \<and> sec (last us) - wm_LastRecordTime m \<le> of_int timeout \<and>
        (\<exists>u \<in> set us. sec u = wm_LastRecordTime m \<and> mem_of_usage u = wm_ClusterMemoryMB m)) \<and>
     (\<forall>u \<in> set us. sec (last us) - sec u \<le> of_int timeout \<longrightarrow>
        (\<exists>m \<in> set marks. sec u \<le> wm_LastRecordTime m \<and> mem_of_usage u \<le> wm_ClusterMemoryMB m))"

lemma cut_spec:
  assumes "us = [] \<and> marks = [] \<or> marks_inv timeout us marks \<and> sec (last us) \<le> sec u"
    and cut: "cutLastMark marks (sec u) (mem_of_usage u) core = (l, ms)"
  shows "marks_sorted ms" "\<forall>m \<in> set ms. wm_LastRecordTime m < sec u" "set ms \<subseteq> set marks"
    "wm_LastRecordTime l = sec u" "mem_of_usage u \<le> wm_ClusterMemoryMB l"
    "\<exists>v \<in> set (us @ [u]). sec v = sec u \<and> mem_of_usage v = wm_ClusterMemoryMB l"
    "\<forall>m \<in> set marks. m \<in> set ms \<or> wm_LastRecordTime m \<le> sec u \<and> wm_ClusterMemoryMB m \<le> wm_ClusterMemoryMB l"
proof -
  have "marks_sorted ms \<and> (\<forall>m \<in> set ms. wm_LastRecordTime m < sec u) \<and> set ms \<subseteq> set marks \<and>
    wm_LastRecordTime l = sec u \<and> mem_of_usage u \<le> wm_ClusterMemoryMB l \<and>
    (\<exists>v \<in> set (us @ [u]). sec v = sec u \<and> mem_of_usage v = wm_ClusterMemoryMB l) \<and>
    (\<forall>m \<in> set marks. m \<in> set ms \<or> wm_LastRecordTime m \<le> sec u \<and> wm_ClusterMemoryMB m \<le> wm_ClusterMemoryMB l)"
  proof (cases "marks \<noteq> [] \<and> wm_LastRecordTime (last marks) = sec u")
    case True
    then have inv: "marks_inv timeout us marks" and ne: "marks \<noteq> []" using assms(1) by auto
    obtain v where v: "v \<in> set us" "sec v = sec u" "mem_of_usage v = wm_ClusterMemoryMB (last marks)"
      using inv True last_in_set [OF ne] unfolding marks_inv_def by metis
    obtain pre k where mk: "marks = pre @ [k]" using ne by (cases marks rule: rev_cases) auto
    have srt: "marks_sorted (pre @ [k])" using inv by (simp add: marks_inv_def mk)
    have ms: "ms = pre" and l: "wm_LastRecordTime l = sec u"
      "wm_ClusterMemoryMB l = max (wm_ClusterMemoryMB k) (mem_of_usage u)"
      using cut True by (auto simp: cutLastMark_def Let_def mk)
    have "\<exists>w \<in> set (us @ [u]). sec w = sec u \<and> mem_of_usage w = wm_ClusterMemoryMB l"
    proof (cases "mem_of_usage u \<le> wm_ClusterMemoryMB k")
      case True
      then show ?thesis using v l(2) by (intro bexI [of _ v]) (auto simp: mk)
    next
      case False
      then show ?thesis using l(2) by (intro bexI [of _ u]) auto
    qed
    then show ?thesis using srt l True by (auto simp: marks_sorted_def sorted_wrt_append ms mk)
  next
    case False
    have l: "l = \<lparr>wm_ClusterMemoryMB = mem_of_usage u, wm_ClusterVCore = core, wm_LastRecordTime = sec u\<rparr>" "ms = marks"
      using cut False by (auto simp: cutLastMark_def)
    have "marks_sorted marks \<and> (\<forall>m \<in> set marks. wm_LastRecordTime m < sec u)"
    proof (cases "marks = []")
      case True
      then show ?thesis by (simp add: marks_sorted_def)
    next
      case ne: False
      then have inv: "marks_inv timeout us marks" "sec (last us) \<le> sec u" using assms(1) by auto
      then have "sec (last us) < sec u" using False ne by (auto simp: marks_inv_def)
      then show ?thesis using inv by (auto simp: marks_inv_def)
    qed
    then show ?thesis using l by auto
  qed
  then show "marks_sorted ms" "\<forall>m \<in> set ms. wm_LastRecordTime m < sec u" "set ms \<subseteq> set marks"
    "wm_LastRecordTime l = sec u" "mem_of_usage u \<le> wm_ClusterMemoryMB l"
    "\<exists>v \<in> set (us @ [u]). sec v = sec u \<and> mem_of_usage v = wm_ClusterMemoryMB l"
    "\<forall>m \<in> set marks. m \<in> set ms \<or> wm_LastRecordTime m \<le> sec u \<and> wm_ClusterMemoryMB m \<le> wm_ClusterMemoryMB l"
    by blast+
qed

lemma mark_step:
  assumes prev: "us = [] \<and> marks = [] \<or> marks_inv timeout us marks \<and> sec (last us) \<le> sec u"
    and mono: "\<forall>v \<in> set us. sec v \<le> sec (last us)"
  shows "marks_inv timeout (us @ [u]) (markMemoryCoreRatioWaterMark timeout marks (fst u) (mem_of_usage u) core)"
proof -
  obtain l ms where cut: "cutLastMark marks (sec u) (mem_of_usage u) core = (l, ms)" by fastforce
  note C = cut_spec [OF prev cut]
  define kept where "kept = dropWhile (\<lambda>f. of_int timeout < sec u - wm_LastRecordTime f) ms"
  define high where "high = rev (dropWhile (\<lambda>f. wm_ClusterMemoryMB f \<le> wm_ClusterMemoryMB l) (rev kept))"
  have marks': "markMemoryCoreRatioWaterMark timeout marks (fst u) (mem_of_usage u) core = high @ [l]"
    using cut C(4) by (simp add: markMemoryCoreRatioWaterMark_def sec_def [symmetric] removeOldMarks_eq removeLowMarks_eq
        kept_def high_def Let_def)
  have sub: "set high \<subseteq> set kept" "set kept \<subseteq> set ms"
    by (auto simp: high_def kept_def dest: set_dropWhileD)
  have "marks_sorted kept" unfolding kept_def by (rule marks_sorted_dropWhile [OF C(1)])
  note hs = marks_sorted_rev_dropWhile [OF this] rev_dropWhile_high [OF this]
  have above: "wm_ClusterMemoryMB l < wm_ClusterMemoryMB m" if "m \<in> set high" for m
    using hs(2) [of m] that by (simp add: high_def)
  have "marks_sorted high" using hs(1) unfolding high_def .
  then have srt: "marks_sorted (high @ [l])"
    using above C(2,4) sub by (auto simp: marks_sorted_def sorted_wrt_append)
  have recent: "sec u - wm_LastRecordTime m \<le> of_int timeout" if "m \<in> set high" for m
    using sorted_dropWhile [OF C(1), of "sec u" m "of_int timeout"] C(2) sub that
    by (auto simp: kept_def less_imp_le)
  have from_us: "\<exists>v \<in> set us. sec v = wm_LastRecordTime m \<and> mem_of_usage v = wm_ClusterMemoryMB m" if "m \<in> set high" for m
  proof -
    have "m \<in> set marks" using that sub C(3) by auto
    then show ?thesis using prev by (auto simp: marks_inv_def)
  qed
  have covered: "\<exists>m \<in> set (high @ [l]). sec v \<le> wm_LastRecordTime m \<and> mem_of_usage v \<le> wm_ClusterMemoryMB m"
    if v: "v \<in> set (us @ [u])" "sec u - sec v \<le> of_int timeout" for v
  proof (cases "v = u")
    case True
    then show ?thesis using C(4,5) by auto
  next
    case False
    then have vus: "v \<in> set us" using v(1) by auto
    then have inv: "marks_inv timeout us marks" "sec (last us) \<le> sec u" using prev by auto
    have "sec (last us) - sec v \<le> sec u - sec v"
      using minus_left_mono mono vus inv(2) by blast
    then have "sec (last us) - sec v \<le> of_int timeout" using v(2) by (rule order_trans)
    then obtain k where k: "k \<in> set marks" "sec v \<le> wm_LastRecordTime k" "mem_of_usage v \<le> wm_ClusterMemoryMB k"
      using inv(1) vus by (auto simp: marks_inv_def)
    show ?thesis
    proof (cases "wm_ClusterMemoryMB k \<le> wm_ClusterMemoryMB l")
      case True
      have "wm_LastRecordTime k \<le> sec u" using C(2,7) k(1) by (auto simp: less_imp_le)
      then have "sec v \<le> wm_LastRecordTime l" using k(2) C(4) by simp
      with True k(3) show ?thesis by auto
    next
      case high': False
      then have "k \<in> set ms" using C(7) k(1) by auto
      have "sec u - wm_LastRecordTime k \<le> sec u - sec v"
        using C(2) \<open>k \<in> set ms\<close> k(2) by (intro minus_antimono) (auto simp: less_imp_le)
      then have "\<not> of_int timeout < sec u - wm_LastRecordTime k" using v(2) by (simp add: not_less order_trans)
      then have "k \<in> set kept" unfolding kept_def by (rule in_dropWhile [OF \<open>k \<in> set ms\<close>])
      then have "k \<in> set high" unfolding high_def using high' in_dropWhile [of k "rev kept"] by auto
      then show ?thesis using k by auto
    qed
  qed
  have self: "sec u - sec u \<le> of_int timeout" by simp
  show ?thesis
    unfolding marks_inv_def marks'
    using srt C(2,4,6) recent from_us covered sub self by (auto simp: less_imp_le)
qed

lemma run_marks_snoc:
  "run_marks timeout (us @ [u]) =
     markMemoryCoreRatioWaterMark timeout (run_marks timeout us) (fst u) (mem_of_usage u) (snd (snd u))"
  by (simp add: run_marks_def mem_of_usage_def split_beta)

lemma run_marks_inv:
  "us \<noteq> [] \<Longrightarrow> sorted (map fst us) \<Longrightarrow>
   marks_inv timeout us (run_marks timeout us) \<and> (\<forall>v \<in> set us. sec v \<le> sec (last us))"
proof (induction us rule: rev_induct)
  case (snoc u us)
  have le: "sec v \<le> sec u" if "v \<in> set us" for v
  proof -
    have "fst v \<le> fst u" using snoc.prems that by (auto simp: sorted_append)
    then show ?thesis by (simp add: sec_def word_le_nat_alt unat_div div_le_mono)
  qed
  show ?case
  proof (cases "us = []")
    case True
    then show ?thesis using mark_step [of "[]" "[]" timeout u] by (simp add: run_marks_def split_beta mem_of_usage_def)
  next
    case False
    then have "marks_inv timeout us (run_marks timeout us)" "\<forall>v \<in> set us. sec v \<le> sec (last us)"
      using snoc by (auto simp: sorted_append)
    then show ?thesis using mark_step [of us "run_marks timeout us" timeout u] le False
      by (simp add: run_marks_snoc)
  qed
qed simp

section \<open>The sliding-window maximum\<close>

text \<open>C26: after any non-empty series of usage reports with non-decreasing clock readings, the head of the
  water-mark queue (which is what the ratio's limit is taken from) carries the largest memory usage
  reported within the last \<^verbatim>\<open>rm_resource_timeout\<close> seconds, and the queue runs from older and larger to newer
  and strictly smaller marks.\<close>

theorem water_mark_is_window_maximum:
  assumes "us \<noteq> []" and "sorted (map fst us)"
  shows "wm_ClusterMemoryMB (hd (run_marks timeout us)) =
           Max (set (map mem_of_usage (window timeout (sec (last us)) us))) \<and>
         marks_sorted (run_marks timeout us)"
proof -
  let ?ms = "run_marks timeout us" and ?w = "window timeout (sec (last us)) us"
  have inv: "marks_inv timeout us ?ms" using run_marks_inv [OF assms] by simp
  then have srt: "marks_sorted ?ms" by (simp add: marks_inv_def)
  have ne: "?ms \<noteq> []" using inv by (simp add: marks_inv_def)
  then obtain m ms where ms: "?ms = m # ms" by (cases ?ms) auto
  have "\<exists>u \<in> set us. sec u = wm_LastRecordTime m \<and> mem_of_usage u = wm_ClusterMemoryMB m \<and> sec (last us) - sec u \<le> of_int timeout"
    using inv unfolding marks_inv_def ms by fastforce
  then have isin: "wm_ClusterMemoryMB m \<in> set (map mem_of_usage ?w)"
    unfolding window_def set_map set_filter by (metis (mono_tags, lifting) imageI mem_Collect_eq)
  have top: "wm_ClusterMemoryMB k \<le> wm_ClusterMemoryMB m" if "k \<in> set ?ms" for k
    using srt that unfolding ms by (auto simp: marks_sorted_def less_imp_le)
  have "x \<le> wm_ClusterMemoryMB m" if x: "x \<in> set (map mem_of_usage ?w)" for x
  proof -
    obtain u where u: "u \<in> set us" "sec (last us) - sec u \<le> of_int timeout" "x = mem_of_usage u"
      using x by (auto simp: window_def)
    then obtain k where "k \<in> set ?ms" "mem_of_usage u \<le> wm_ClusterMemoryMB k"
      using inv unfolding marks_inv_def by blast
    then show ?thesis using top u(3) by fastforce
  qed
  then have "Max (set (map mem_of_usage ?w)) = wm_ClusterMemoryMB m"
    using isin by (intro Max_eqI) auto
  then show ?thesis using srt by (simp add: ms)
qed

definition three_usages :: "usage list" where
  "three_usages = [(1000000, 50, 5), (2000000, 30, 3), (9000000, 10, 1)]"

theorem water_mark_is_window_maximum_witness:
  "three_usages \<noteq> [] \<and> sorted (map fst three_usages) \<and>
   wm_ClusterMemoryMB (hd (run_marks 7 three_usages)) = 30 \<and> marks_sorted (run_marks 7 three_usages)"
proof -
  have h: "three_usages \<noteq> []" "sorted (map fst three_usages)"
    by (simp_all add: three_usages_def)
  have "set (map mem_of_usage (window 7 (sec (last three_usages)) three_usages)) = {30, 10}"
    by (simp add: three_usages_def window_def sec_def mem_of_usage_def)
  then show ?thesis using h water_mark_is_window_maximum [OF h, of 7] by simp
qed

end
