(* ===== verification/RM_Ratio.thy ===== *)
theory RM_Ratio
  imports RM_HashTable RM_WaterMark
begin

text \<open>
  Resource bundles and the memory/core ratios that the resource queue manager tracks, of
  \<^verbatim>\<open>resqueuemanager.c\<close>: the bundle arithmetic, the table from ratios to their indices, the trackers and the
  counters of the resource that is allocated or pending per ratio.
\<close>

section \<open>Resource bundles\<close>

record ResourceBundle =
  rb_MemoryMB :: int
  rb_Core :: double
  rb_Ratio :: uint32

definition resetResourceBundleData :: "ResourceBundle \<Rightarrow> int \<Rightarrow> double \<Rightarrow> uint32 \<Rightarrow> ResourceBundle" where
  "resetResourceBundleData detail mem core ratio = detail\<lparr>rb_MemoryMB := mem, rb_Core := core, rb_Ratio := ratio\<rparr>"

definition addResourceBundleData :: "ResourceBundle \<Rightarrow> int \<Rightarrow> double \<Rightarrow> ResourceBundle" where
  "addResourceBundleData detail mem core = detail\<lparr>rb_MemoryMB := rb_MemoryMB detail + mem, rb_Core := rb_Core detail + core\<rparr>"

definition minusResourceBundleData :: "ResourceBundle \<Rightarrow> int \<Rightarrow> double \<Rightarrow> ResourceBundle" where
  "minusResourceBundleData detail mem core = detail\<lparr>rb_MemoryMB := rb_MemoryMB detail - mem, rb_Core := rb_Core detail - core\<rparr>"

definition resetResourceBundleDataByBundle :: "ResourceBundle \<Rightarrow> ResourceBundle \<Rightarrow> ResourceBundle" where
  "resetResourceBundleDataByBundle detail src = resetResourceBundleData detail (rb_MemoryMB src) (rb_Core src) (rb_Ratio src)"

definition addResourceBundleDataByBundle :: "ResourceBundle \<Rightarrow> ResourceBundle \<Rightarrow> ResourceBundle" where
  "addResourceBundleDataByBundle detail src = addResourceBundleData detail (rb_MemoryMB src) (rb_Core src)"

definition minusResourceBundleDataByBundle :: "ResourceBundle \<Rightarrow> ResourceBundle \<Rightarrow> ResourceBundle" where
  "minusResourceBundleDataByBundle detail src = minusResourceBundleData detail (rb_MemoryMB src) (rb_Core src)"

text \<open>A bundle of zeros, what \<^verbatim>\<open>resetResourceBundleData(.., 0, 0.0, 0)\<close> leaves.\<close>

abbreviation zero_bundle :: ResourceBundle where
  "zero_bundle \<equiv> \<lparr>rb_MemoryMB = 0, rb_Core = 0, rb_Ratio = 0\<rparr>"

lemma minus_add_bundle [simp]:
  "addResourceBundleData (minusResourceBundleData b m c) m c = b"
  "minusResourceBundleData (addResourceBundleData b m c) m c = b"
  "minusResourceBundleData b 0 0 = b" "addResourceBundleData b 0 0 = b"
  by (simp_all add: addResourceBundleData_def minusResourceBundleData_def)

lemma minus_minus_bundle:
  "minusResourceBundleData (minusResourceBundleData b m c) m' c' = minusResourceBundleData b (m + m') (c + c')"
  by (simp add: minusResourceBundleData_def)

section \<open>Ratio trackers\<close>

record DynMemoryCoreRatioTrack =
  mt_MemCoreRatio :: uint32
  mt_RatioIndex :: int
  mt_ClusterMemory :: int
  mt_ClusterVCore :: double
  mt_ClusterMemoryMaxMB :: int
  mt_ClusterVCoreMax :: double
  mt_TotalPending :: ResourceBundle
  mt_TotalPendingStartTime :: uint64
  mt_TotalAllocated :: ResourceBundle
  mt_TotalRequest :: ResourceBundle
  mt_TotalUsed :: ResourceBundle
  mt_ClusterWeightMarker :: double
  mt_QueueTrackers :: "addr list"   \<comment> \<open>the queue tracks of this ratio\<close>
  mt_QueueIndexForLeftResource :: int

definition createDynMemoryCoreRatioTrack :: "uint32 \<Rightarrow> int \<Rightarrow> DynMemoryCoreRatioTrack" where
  "createDynMemoryCoreRatioTrack ratio index =
     (let b = \<lparr>rb_MemoryMB = 0, rb_Core = 0, rb_Ratio = ratio\<rparr> in
      \<lparr>mt_MemCoreRatio = ratio, mt_RatioIndex = -1, mt_ClusterMemory = 0, mt_ClusterVCore = 0,
       mt_ClusterMemoryMaxMB = 0, mt_ClusterVCoreMax = 0, mt_TotalPending = b, mt_TotalPendingStartTime = 0,
       mt_TotalAllocated = b, mt_TotalRequest = b, mt_TotalUsed = b, mt_ClusterWeightMarker = 0,
       mt_QueueTrackers = [], mt_QueueIndexForLeftResource = 0\<rparr>)"

definition removeQueueTrackFromMemoryCoreTrack ::
    "DynMemoryCoreRatioTrack \<Rightarrow> addr \<Rightarrow> drm_code \<times> DynMemoryCoreRatioTrack" where
  "removeQueueTrackFromMemoryCoreTrack mctrack track =
     (if track \<in> set (mt_QueueTrackers mctrack)
      then (FUNC_RETURN_OK, mctrack\<lparr>mt_QueueTrackers := remove1 track (mt_QueueTrackers mctrack)\<rparr>)
      else (RESQUEMGR_NO_QUE_IN_RATIO, mctrack))"

section \<open>The part of the manager that tracks ratios\<close>

definition RESOURCE_QUEUE_RATIO_SIZE :: nat where
  "RESOURCE_QUEUE_RATIO_SIZE = 32"

text \<open>The four arrays of the ratios have \<^const>\<open>RESOURCE_QUEUE_RATIO_SIZE\<close> elements.\<close>

record DynResourceQueueManager =
  Queues :: "addr list"
  QueuesIDIndex :: "(uint8 list, addr) HASHTABLE"
  QueuesNameIndex :: "(SimpString, addr) HASHTABLE"
  RootTrack :: ptr
  DefaultTrack :: ptr
  Users :: "addr list"
  UsersIDIndex :: "(uint8 list, addr) HASHTABLE"
  UsersNameIndex :: "(SimpString, addr) HASHTABLE"
  RatioCount :: int
  RatioIndex :: "(uint64, int) HASHTABLE"
  RatioReverseIndex :: "uint32 list"
  RatioReferenceCounter :: "int list"
  RatioTrackers :: "DynMemoryCoreRatioTrack option list"
  RatioWaterMarks :: "DynMemoryCoreRatioWaterMark list list"
  LastCheckingDeadAllocationTime :: uint64
  LastCheckingQueuedTimeoutTime :: uint64
  GRMQueueCapacity :: double
  GRMQueueCurCapacity :: double
  GRMQueueMaxCapacity :: double
  GRMQueueResourceTight :: bool
  ForcedReturnGRMContainerCount :: int
  toRunQueryDispatch :: bool

definition initializeResourceQueueManager :: DynResourceQueueManager where
  "initializeResourceQueueManager =
     \<lparr>Queues = [],
      QueuesIDIndex = initializeHASHTABLE HASHTABLE_Hash_CHARARRAY HASHTABLE_Comp_CHARARRAY 256 (1024 * 1024 * 1024) False,
      QueuesNameIndex = initializeHASHTABLE HASHTABLE_Hash_SIMPSTR HASHTABLE_Comp_SIMPSTR 256 (1024 * 1024 * 1024) False,
      RootTrack = None, DefaultTrack = None, Users = [],
      UsersIDIndex = initializeHASHTABLE HASHTABLE_Hash_CHARARRAY HASHTABLE_Comp_CHARARRAY 256 (1024 * 1024 * 1024) False,
      UsersNameIndex = initializeHASHTABLE HASHTABLE_Hash_SIMPSTR HASHTABLE_Comp_SIMPSTR 256 (1024 * 1024 * 1024) False,
      RatioCount = 0,
      RatioIndex = initializeHASHTABLE HASHTABLE_Hash_UINT32 HASHTABLE_Comp_UINT32 256 (1024 * 1024 * 1024) False,
      RatioReverseIndex = replicate RESOURCE_QUEUE_RATIO_SIZE (- 1),
      RatioReferenceCounter = replicate RESOURCE_QUEUE_RATIO_SIZE 0,
      RatioTrackers = replicate RESOURCE_QUEUE_RATIO_SIZE None,
      RatioWaterMarks = replicate RESOURCE_QUEUE_RATIO_SIZE [],
      LastCheckingDeadAllocationTime = 0, LastCheckingQueuedTimeoutTime = 0,
      GRMQueueCapacity = 1, GRMQueueCurCapacity = 0, GRMQueueMaxCapacity = 1, GRMQueueResourceTight = False,
      ForcedReturnGRMContainerCount = 0, toRunQueryDispatch = False\<rparr>"

text \<open>\<^verbatim>\<open>TYPCONVERT(void *, ratio)\<close>.\<close>

definition ratio_key :: "uint32 \<Rightarrow> uint64" where
  "ratio_key ratio = ucast ratio"

definition getResourceQueueRatioIndex :: "DynResourceQueueManager \<Rightarrow> uint32 \<Rightarrow> int" where
  "getResourceQueueRatioIndex m ratio =
     (if ratio \<le> 0 then -1
      else case getHASHTABLENode (RatioIndex m) (ratio_key ratio) of
             Some (k, Some i) \<Rightarrow> i
           | Some (k, None) \<Rightarrow> 0
           | None \<Rightarrow> -1)"

text \<open>The tracker of an index, \<^term>\<open>None\<close> when there is none to dereference.\<close>

definition ratio_tracker :: "DynResourceQueueManager \<Rightarrow> int \<Rightarrow> DynMemoryCoreRatioTrack option" where
  "ratio_tracker m i = (if 0 \<le> i \<and> i < int (length (RatioTrackers m)) then RatioTrackers m ! nat i else None)"

definition put_tracker :: "DynResourceQueueManager \<Rightarrow> int \<Rightarrow> DynMemoryCoreRatioTrack \<Rightarrow> DynResourceQueueManager" where
  "put_tracker m i tr = m\<lparr>RatioTrackers := (RatioTrackers m)[nat i := Some tr]\<rparr>"

text \<open>\<^verbatim>\<open>uint32_t ratio = trunc(1.0 * memorymb / core)\<close>.\<close>

definition ratio_of :: "int \<Rightarrow> double \<Rightarrow> uint32" where
  "ratio_of memorymb core = of_int (c_trunc (of_int memorymb / core))"

definition addNewResourceToResourceManager ::
    "DynResourceQueueManager \<Rightarrow> int \<Rightarrow> double \<Rightarrow> (drm_code \<times> DynResourceQueueManager) option" where
  "addNewResourceToResourceManager m memorymb core =
     (if memorymb = 0 \<and> core = 0 then Some (FUNC_RETURN_OK, m)
      else let ratioindex = getResourceQueueRatioIndex m (ratio_of memorymb core) in
        if ratioindex \<ge> 0 then do {
          tr \<leftarrow> ratio_tracker m ratioindex;
          let m = put_tracker m ratioindex
                    (tr\<lparr>mt_TotalAllocated := addResourceBundleData (mt_TotalAllocated tr) memorymb core\<rparr>);
          Some (FUNC_RETURN_OK, m\<lparr>toRunQueryDispatch := True\<rparr>)
        }
        else Some (RESQUEMGR_NO_RATIO, m))"

definition addNewResourceToResourceManagerByBundle ::
    "DynResourceQueueManager \<Rightarrow> ResourceBundle \<Rightarrow> (drm_code \<times> DynResourceQueueManager) option" where
  "addNewResourceToResourceManagerByBundle m bundle =
     addNewResourceToResourceManager m (rb_MemoryMB bundle) (rb_Core bundle)"

definition minusResourceFromReourceManager ::
    "DynResourceQueueManager \<Rightarrow> int \<Rightarrow> double \<Rightarrow> (drm_code \<times> DynResourceQueueManager) option" where
  "minusResourceFromReourceManager m memorymb core =
     (if memorymb = 0 \<and> core = 0 then Some (FUNC_RETURN_OK, m)
      else let ratioindex = getResourceQueueRatioIndex m (ratio_of memorymb core) in
        if ratioindex \<ge> 0 then do {
          tr \<leftarrow> ratio_tracker m ratioindex;
          let m = put_tracker m ratioindex
                    (tr\<lparr>mt_TotalAllocated := minusResourceBundleData (mt_TotalAllocated tr) memorymb core\<rparr>);
          Some (FUNC_RETURN_OK, m)
        }
        else Some (RESQUEMGR_NO_RATIO, m))"

definition minusResourceFromResourceManagerByBundle ::
    "DynResourceQueueManager \<Rightarrow> ResourceBundle \<Rightarrow> (drm_code \<times> DynResourceQueueManager) option" where
  "minusResourceFromResourceManagerByBundle m bundle =
     minusResourceFromReourceManager m (rb_MemoryMB bundle) (rb_Core bundle)"

text \<open>Pending requests to the global resource manager; \<open>now\<close> is the clock.\<close>

definition removePendingResourceRequestInRootQueue ::
    "DynResourceQueueManager \<Rightarrow> uint64 \<Rightarrow> int \<Rightarrow> uint32 \<Rightarrow> DynResourceQueueManager option" where
  "removePendingResourceRequestInRootQueue m now memorymb core =
     (if memorymb = 0 \<and> core = 0 then Some m
      else if core = 0 then None
      else do {
        let ratio = (of_int memorymb :: uint32) div core;
        pair \<leftarrow> getHASHTABLENode (RatioIndex m) (ratio_key ratio);
        let ratioindex = (case snd pair of None \<Rightarrow> 0 | Some i \<Rightarrow> i);
        tr \<leftarrow> ratio_tracker m ratioindex;
        let pend = minusResourceBundleData (mt_TotalPending tr) memorymb (of_int (uint core));
        let tr = tr\<lparr>mt_TotalPending := pend\<rparr>;
        let tr = (if rb_MemoryMB pend = 0 \<and> rb_Core pend = 0 then tr\<lparr>mt_TotalPendingStartTime := 0\<rparr>
                  else if memorymb > 0 \<and> core > 0 then tr\<lparr>mt_TotalPendingStartTime := now\<rparr> else tr);
        Some (put_tracker m ratioindex tr)
      })"

text \<open>The loop over the ratios; the core count is converted to \<^verbatim>\<open>uint32_t\<close>.\<close>

fun clearPendingFrom :: "DynResourceQueueManager \<Rightarrow> uint64 \<Rightarrow> nat \<Rightarrow> nat \<Rightarrow> DynResourceQueueManager option" where
  "clearPendingFrom m now i 0 = Some m"
| "clearPendingFrom m now i (Suc n) = do {
     tr \<leftarrow> ratio_tracker m (int i);
     m \<leftarrow> (if rb_MemoryMB (mt_TotalPending tr) > 0
           then removePendingResourceRequestInRootQueue m now (rb_MemoryMB (mt_TotalPending tr))
                  (of_int (c_trunc (rb_Core (mt_TotalPending tr))))
           else Some m);
     clearPendingFrom m now (Suc i) n
   }"

definition clearPendingResourceRequestInRootQueue ::
    "DynResourceQueueManager \<Rightarrow> uint64 \<Rightarrow> DynResourceQueueManager option" where
  "clearPendingResourceRequestInRootQueue m now = clearPendingFrom m now 0 (nat (RatioCount m))"

end
