(* ===== verification/RM_Pool.thy ===== *)
theory RM_Pool
  imports RM_Ratio
begin

text \<open>
  The resource pool, \<^verbatim>\<open>resourcepool.c\<close>: segments with their sets of containers, the ordered indices over
  them, and the allocation of virtual segments to a query and their return.  Segments are objects of a
  heap, so that the tables, the indices and the counters of a query share them.

  An ordered index (a balanced tree, theory \<open>RM_BBST\<close>) is represented by its in-order sequence: insertion
  puts a datum behind the smaller ones and before the others, as the theorem on \<^verbatim>\<open>insertBBSTNode\<close> there states
  for a sorted tree.  The comparison functions read the heap, and are passed its current state.
\<close>

section \<open>Containers and segments\<close>

record GRMContainer =
  gc_ID :: int
  gc_MemoryMB :: int
  gc_Core :: int
  gc_Life :: int
  gc_CalcDecPending :: bool
  gc_HostName :: "uint8 list"
  gc_Resource :: ptr

record GRMContainerSet =
  cs_Allocated :: ResourceBundle
  cs_Available :: ResourceBundle
  cs_Containers :: "GRMContainer list"

record SegStat =
  st_Info :: "uint8 list"   \<comment> \<open>the bytes of the \<^verbatim>\<open>SegInfoData\<close>, \<^verbatim>\<open>Info.Size\<close> of them\<close>
  st_ID :: int
  st_FTSAvailable :: uint8
  st_GRMAvailable :: uint8
  st_FTSTotalMemoryMB :: uint32
  st_FTSTotalCore :: uint32
  st_GRMTotalMemoryMB :: uint32
  st_GRMTotalCore :: uint32

record SegResource =
  sr_Stat :: SegStat
  sr_Allocated :: ResourceBundle
  sr_Available :: ResourceBundle
  sr_IOBytesWorkload :: int
  sr_SliceWorkload :: int
  sr_LastUpdateTime :: uint64
  sr_RUAlivePending :: bool
  sr_ContainerSets :: "GRMContainerSet option list"
  sr_GRMContainerCount :: int
  sr_IncPending :: ResourceBundle
  sr_DecPending :: ResourceBundle
  sr_OldInuse :: ResourceBundle

definition SEGSTAT_ID_INVALID :: int where
  "SEGSTAT_ID_INVALID = -1"

definition RESOURCE_SEG_STATUS_UNSET :: uint8 where
  "RESOURCE_SEG_STATUS_UNSET = 0"

definition RESOURCE_SEG_STATUS_AVAILABLE :: uint8 where
  "RESOURCE_SEG_STATUS_AVAILABLE = 1"

definition IS_SEGRESOURCE_USABLE :: "SegResource \<Rightarrow> bool" where
  "IS_SEGRESOURCE_USABLE s \<longleftrightarrow> \<not> sr_RUAlivePending s \<and> st_FTSAvailable (sr_Stat s) = RESOURCE_SEG_STATUS_AVAILABLE"

definition createSegResource :: "SegStat \<Rightarrow> uint64 \<Rightarrow> SegResource" where
  "createSegResource segstat now =
     \<lparr>sr_Stat = segstat\<lparr>st_FTSAvailable := RESOURCE_SEG_STATUS_UNSET, st_GRMAvailable := RESOURCE_SEG_STATUS_UNSET\<rparr>,
      sr_Allocated = zero_bundle, sr_Available = zero_bundle, sr_IOBytesWorkload = 0, sr_SliceWorkload = 0,
      sr_LastUpdateTime = now, sr_RUAlivePending = False,
      sr_ContainerSets = replicate RESOURCE_QUEUE_RATIO_SIZE None, sr_GRMContainerCount = 0,
      sr_IncPending = zero_bundle, sr_DecPending = zero_bundle, sr_OldInuse = zero_bundle\<rparr>"

definition createGRMContainerSet :: GRMContainerSet where
  "createGRMContainerSet = \<lparr>cs_Allocated = zero_bundle, cs_Available = zero_bundle, cs_Containers = []\<rparr>"

definition popGRMContainerSetContainerList :: "GRMContainerSet \<Rightarrow> GRMContainer option \<times> GRMContainerSet" where
  "popGRMContainerSetContainerList ctns =
     (case cs_Containers ctns of
        [] \<Rightarrow> (None, ctns)
      | res # rest \<Rightarrow>
          (Some res, ctns\<lparr>cs_Containers := rest,
             cs_Allocated := minusResourceBundleData (cs_Allocated ctns) (gc_MemoryMB res) (of_int (gc_Core res)),
             cs_Available := minusResourceBundleData (cs_Available ctns) (gc_MemoryMB res) (of_int (gc_Core res))\<rparr>))"

definition appendGRMContainerSetContainer :: "GRMContainerSet \<Rightarrow> GRMContainer \<Rightarrow> GRMContainerSet" where
  "appendGRMContainerSetContainer ctns ctn =
     ctns\<lparr>cs_Containers := cs_Containers ctns @ [ctn],
       cs_Allocated := addResourceBundleData (cs_Allocated ctns) (gc_MemoryMB ctn) (of_int (gc_Core ctn)),
       cs_Available := addResourceBundleData (cs_Available ctns) (gc_MemoryMB ctn) (of_int (gc_Core ctn))\<rparr>"

definition moveGRMContainerSetContainerList ::
    "GRMContainerSet \<Rightarrow> GRMContainerSet \<Rightarrow> GRMContainerSet \<times> GRMContainerSet" where
  "moveGRMContainerSetContainerList tctns sctns =
     (tctns\<lparr>cs_Allocated := addResourceBundleDataByBundle (cs_Allocated tctns) (cs_Allocated sctns),
        cs_Available := addResourceBundleDataByBundle (cs_Available tctns) (cs_Available sctns),
        cs_Containers := cs_Containers tctns @ cs_Containers sctns\<rparr>,
      sctns\<lparr>cs_Containers := [], cs_Allocated := resetResourceBundleData (cs_Allocated sctns) 0 0 0,
        cs_Available := resetResourceBundleData (cs_Available sctns) 0 0 0\<rparr>)"

text \<open>The container set of an index, \<^verbatim>\<open>segres->ContainerSets[rindex]\<close>.\<close>

definition ctn_set :: "SegResource \<Rightarrow> int \<Rightarrow> GRMContainerSet option" where
  "ctn_set s i = (if 0 \<le> i \<and> i < int (length (sr_ContainerSets s)) then sr_ContainerSets s ! nat i else None)"

definition put_ctn_set :: "SegResource \<Rightarrow> int \<Rightarrow> GRMContainerSet \<Rightarrow> SegResource" where
  "put_ctn_set s i c = s\<lparr>sr_ContainerSets := (sr_ContainerSets s)[nat i := Some c]\<rparr>"

definition getGRMContainerSet ::
    "DynResourceQueueManager \<Rightarrow> SegResource \<Rightarrow> uint32 \<Rightarrow> drm_code \<times> GRMContainerSet option" where
  "getGRMContainerSet m s ratio =
     (let rindex = getResourceQueueRatioIndex m ratio in
      if rindex < 0 then (RESOURCEPOOL_NO_RATIO, None) else (FUNC_RETURN_OK, ctn_set s rindex))"

definition createAndGetGRMContainerSet ::
    "DynResourceQueueManager \<Rightarrow> SegResource \<Rightarrow> uint32 \<Rightarrow> drm_code \<times> GRMContainerSet option \<times> SegResource" where
  "createAndGetGRMContainerSet m s ratio =
     (let rindex = getResourceQueueRatioIndex m ratio in
      if rindex < 0 then (RESOURCEPOOL_NO_RATIO, None, s)
      else case ctn_set s rindex of
             None \<Rightarrow> (FUNC_RETURN_OK, Some createGRMContainerSet, put_ctn_set s rindex createGRMContainerSet)
           | Some c \<Rightarrow> (FUNC_RETURN_OK, Some c, s))"

section \<open>The pool\<close>

record ResourcePool =
  rp_heap :: "addr \<Rightarrow> SegResource option"
  SegmentIDCounter :: uint32
  Segments :: "(uint64, addr) HASHTABLE"
  SegmentHostNameIndexed :: "(SimpString, int) HASHTABLE"
  SegmentHostAddrIndexed :: "(uint8 list, int) HASHTABLE"
  AvailNodeCount :: uint32
  FTSTotal :: ResourceBundle
  GRMTotal :: ResourceBundle
  OrderedSegResAvailByRatio :: "addr list option list"
  OrderedSegResAllocByRatio :: "addr list option list"
  OrderedIOBytesWorkload :: "addr list"
  HDFSHostNameIndexed :: "(SimpString, int) HASHTABLE"
  GRMHostNameIndexed :: "(SimpString, int) HASHTABLE"
  MemCoreRatio :: uint32
  MemCoreRatioMajorityCounter :: uint32
  ToAcceptContainers :: "(SimpString, GRMContainerSet) HASHTABLE"
  ToKickContainers :: "(SimpString, GRMContainerSet) HASHTABLE"
  AcceptedContainers :: "GRMContainer list"
  KickedContainers :: "GRMContainer list"
  AddPendingContainerCount :: int
  RetPendingContainerCount :: int

text \<open>The heap is empty at the start.\<close>

definition initializeResourcePoolManager :: ResourcePool where
  "initializeResourcePoolManager =
     (let names = initializeHASHTABLE HASHTABLE_Hash_SIMPSTR HASHTABLE_Comp_SIMPSTR 256 (1024 * 1024 * 1024) False;
          sets = initializeHASHTABLE HASHTABLE_Hash_SIMPSTR HASHTABLE_Comp_SIMPSTR 256 (1024 * 1024 * 1024) False
      in \<lparr>rp_heap = Map.empty, SegmentIDCounter = 0,
          Segments = initializeHASHTABLE HASHTABLE_Hash_UINT32 HASHTABLE_Comp_UINT32 256 (1024 * 1024 * 1024) False,
          SegmentHostNameIndexed = names,
          SegmentHostAddrIndexed = initializeHASHTABLE HASHTABLE_Hash_CHARARRAY HASHTABLE_Comp_CHARARRAY 256 (1024 * 1024 * 1024) False,
          AvailNodeCount = 0, FTSTotal = zero_bundle, GRMTotal = zero_bundle,
          OrderedSegResAvailByRatio = replicate RESOURCE_QUEUE_RATIO_SIZE None,
          OrderedSegResAllocByRatio = replicate RESOURCE_QUEUE_RATIO_SIZE None, OrderedIOBytesWorkload = [],
          HDFSHostNameIndexed = names, GRMHostNameIndexed = names, MemCoreRatio = 0, MemCoreRatioMajorityCounter = 0,
          ToAcceptContainers = sets, ToKickContainers = sets, AcceptedContainers = [], KickedContainers = [],
          AddPendingContainerCount = 0, RetPendingContainerCount = 0\<rparr>)"

definition seg_key :: "int \<Rightarrow> uint64" where
  "seg_key segid = of_int segid"

definition getSegResource :: "ResourcePool \<Rightarrow> int \<Rightarrow> ptr" where
  "getSegResource p segid =
     (case getHASHTABLENode (Segments p) (seg_key segid) of None \<Rightarrow> None | Some pair \<Rightarrow> snd pair)"

definition put_seg :: "ResourcePool \<Rightarrow> addr \<Rightarrow> SegResource \<Rightarrow> ResourcePool" where
  "put_seg p a s = p\<lparr>rp_heap := (rp_heap p)(a \<mapsto> s)\<rparr>"

section \<open>Ordered indices\<close>

definition INT32_MIN :: int where
  "INT32_MIN = - (2 ^ 31)"

text \<open>What the three comparison functions compare.\<close>

definition free_of :: "(addr \<Rightarrow> SegResource option) \<Rightarrow> int \<Rightarrow> addr \<Rightarrow> int" where
  "free_of heap ridx a =
     (case heap a of
        None \<Rightarrow> INT32_MIN
      | Some s \<Rightarrow>
          if IS_SEGRESOURCE_USABLE s
          then (case (if ridx < 0 then None else ctn_set s ridx) of None \<Rightarrow> 0 | Some c \<Rightarrow> rb_MemoryMB (cs_Available c))
          else INT32_MIN)"

definition alloc_of :: "(addr \<Rightarrow> SegResource option) \<Rightarrow> int \<Rightarrow> addr \<Rightarrow> int" where
  "alloc_of heap ridx a =
     (case heap a of
        None \<Rightarrow> INT32_MIN
      | Some s \<Rightarrow>
          if IS_SEGRESOURCE_USABLE s
          then (case (if ridx < 0 then None else ctn_set s ridx) of None \<Rightarrow> 0 | Some c \<Rightarrow> rb_MemoryMB (cs_Allocated c))
          else INT32_MIN)"

definition iobytes_of :: "(addr \<Rightarrow> SegResource option) \<Rightarrow> addr \<Rightarrow> int" where
  "iobytes_of heap a =
     (case heap a of
        None \<Rightarrow> INT32_MIN
      | Some s \<Rightarrow> if IS_SEGRESOURCE_USABLE s then sr_IOBytesWorkload s else INT32_MIN)"

definition comp_ratioFree :: "(addr \<Rightarrow> SegResource option) \<Rightarrow> int \<Rightarrow> addr \<Rightarrow> addr \<Rightarrow> int" where
  "comp_ratioFree heap ridx val1 val2 =
     (let v1 = free_of heap ridx val1; v2 = free_of heap ridx val2
      in if v2 > v1 then 1 else if v1 = v2 then 0 else -1)"

definition comp_ratioAlloc :: "(addr \<Rightarrow> SegResource option) \<Rightarrow> int \<Rightarrow> addr \<Rightarrow> addr \<Rightarrow> int" where
  "comp_ratioAlloc heap ridx val1 val2 =
     (let v1 = alloc_of heap ridx val1; v2 = alloc_of heap ridx val2
      in if v2 > v1 then 1 else if v1 = v2 then 0 else -1)"

definition comp_iobytes :: "(addr \<Rightarrow> SegResource option) \<Rightarrow> addr \<Rightarrow> addr \<Rightarrow> int" where
  "comp_iobytes heap val1 val2 =
     (let v1 = iobytes_of heap val1; v2 = iobytes_of heap val2
      in if v1 > v2 then 1 else if v1 = v2 then 0 else -1)"

definition index_insert :: "(addr \<Rightarrow> addr \<Rightarrow> int) \<Rightarrow> addr \<Rightarrow> addr list \<Rightarrow> addr list" where
  "index_insert cmp d xs = filter (\<lambda>x. cmp x d < 0) xs @ d # filter (\<lambda>x. \<not> cmp x d < 0) xs"

text \<open>Reordering one datum.  The index of an untracked ratio is an error; an index that was never created
  is a null pointer.\<close>

definition index_at :: "addr list option list \<Rightarrow> int \<Rightarrow> addr list option" where
  "index_at trees i = (if 0 \<le> i \<and> i < int (length trees) then trees ! nat i else None)"

definition reorderSegResourceAvailIndex ::
    "DynResourceQueueManager \<Rightarrow> ResourcePool \<Rightarrow> addr \<Rightarrow> uint32 \<Rightarrow> (drm_code \<times> ResourcePool) option" where
  "reorderSegResourceAvailIndex m p a ratio =
     (let rindex = getResourceQueueRatioIndex m ratio in
      if rindex < 0 then Some (RESOURCEPOOL_NO_RATIO, p)
      else do {
        tree \<leftarrow> index_at (OrderedSegResAvailByRatio p) rindex;
        if a \<notin> set tree then Some (UTIL_BBST_NOT_IN_THIS_TREE, p)
        else Some (FUNC_RETURN_OK, p\<lparr>OrderedSegResAvailByRatio := (OrderedSegResAvailByRatio p)
               [nat rindex := Some (index_insert (comp_ratioFree (rp_heap p) rindex) a (remove1 a tree))]\<rparr>)
      })"

definition reorderSegResourceAllocIndex ::
    "DynResourceQueueManager \<Rightarrow> ResourcePool \<Rightarrow> addr \<Rightarrow> uint32 \<Rightarrow> (drm_code \<times> ResourcePool) option" where
  "reorderSegResourceAllocIndex m p a ratio =
     (let rindex = getResourceQueueRatioIndex m ratio in
      if rindex < 0 then Some (RESOURCEPOOL_NO_RATIO, p)
      else do {
        tree \<leftarrow> index_at (OrderedSegResAllocByRatio p) rindex;
        if a \<notin> set tree then Some (UTIL_BBST_NOT_IN_THIS_TREE, p)
        else Some (FUNC_RETURN_OK, p\<lparr>OrderedSegResAllocByRatio := (OrderedSegResAllocByRatio p)
               [nat rindex := Some (index_insert (comp_ratioAlloc (rp_heap p) rindex) a (remove1 a tree))]\<rparr>)
      })"

definition reorderSegResourceIOBytesWorkloadIndex :: "ResourcePool \<Rightarrow> addr \<Rightarrow> drm_code \<times> ResourcePool" where
  "reorderSegResourceIOBytesWorkloadIndex p a =
     (if a \<notin> set (OrderedIOBytesWorkload p) then (RESOURCEPOOL_INTERNAL_NO_HOST_INDEX, p)
      else (FUNC_RETURN_OK, p\<lparr>OrderedIOBytesWorkload :=
              index_insert (comp_iobytes (rp_heap p)) a (remove1 a (OrderedIOBytesWorkload p))\<rparr>))"

section \<open>Finding the segment of a host name\<close>

text \<open>\<open>resolve\<close> is the resolver of the operating system, \<^verbatim>\<open>getHostIPV4AddressesByHostNameAsString\<close>: the official
  name of a host and its addresses.\<close>

type_synonym resolver = "uint8 list \<Rightarrow> (uint8 list \<times> uint8 list list) option"

definition name_key :: "uint8 list \<Rightarrow> SimpString" where
  "name_key name = \<lparr>ss_Str = name, ss_Len = int (length name)\<rparr>"

text \<open>\<^verbatim>\<open>TYPCONVERT(uint32_t, pair->Value)\<close>, where \<^verbatim>\<open>NULL\<close> stands for 0.\<close>

definition id_of_pair :: "'k \<times> int option \<Rightarrow> int" where
  "id_of_pair pair = (case snd pair of None \<Rightarrow> 0 | Some i \<Rightarrow> i)"

definition getSegIDByHostName :: "ResourcePool \<Rightarrow> uint8 list \<Rightarrow> drm_code \<times> int" where
  "getSegIDByHostName p hostname =
     (case getHASHTABLENode (SegmentHostNameIndexed p) (name_key hostname) of
        Some pair \<Rightarrow> (FUNC_RETURN_OK, id_of_pair pair)
      | None \<Rightarrow> (FUNC_RETURN_FAIL, SEGSTAT_ID_INVALID))"

definition getSegIDByHostAddr :: "ResourcePool \<Rightarrow> uint8 list \<Rightarrow> drm_code \<times> int" where
  "getSegIDByHostAddr p hostaddr =
     (case getHASHTABLENode (SegmentHostAddrIndexed p) hostaddr of
        Some pair \<Rightarrow> (FUNC_RETURN_OK, id_of_pair pair)
      | None \<Rightarrow> (FUNC_RETURN_FAIL, SEGSTAT_ID_INVALID))"

fun tryAddresses :: "ResourcePool \<Rightarrow> uint8 list list \<Rightarrow> drm_code \<times> int" where
  "tryAddresses p [] = (RESOURCEPOOL_UNRESOLVED_HOST, SEGSTAT_ID_INVALID)"
| "tryAddresses p (addr # addrs) =
     (case getSegIDByHostAddr p addr of
        (FUNC_RETURN_OK, segid) \<Rightarrow> (FUNC_RETURN_OK, segid)
      | _ \<Rightarrow> tryAddresses p addrs)"

definition getSegIDByHostNameInternal ::
    "resolver \<Rightarrow> ResourcePool \<Rightarrow> (SimpString, int) HASHTABLE \<Rightarrow> uint8 list \<Rightarrow> drm_code \<times> int \<times> (SimpString, int) HASHTABLE" where
  "getSegIDByHostNameInternal resolve p hashtable hostname =
     (case getHASHTABLENode hashtable (name_key hostname) of
        Some pair \<Rightarrow> (FUNC_RETURN_OK, id_of_pair pair, hashtable)
      | None \<Rightarrow>
          case resolve hostname of
            None \<Rightarrow> (FUNC_RETURN_FAIL, SEGSTAT_ID_INVALID, hashtable)
          | Some (ohostname, gottenaddr) \<Rightarrow>
              let (res, segid) = (case getSegIDByHostName p ohostname of
                                 (FUNC_RETURN_OK, segid) \<Rightarrow> (FUNC_RETURN_OK, segid)
                               | _ \<Rightarrow> tryAddresses p gottenaddr)
              in (res, segid, if res = FUNC_RETURN_OK then ht_set hashtable (name_key hostname) (Some segid) else hashtable))"

definition getSegIDByHDFSHostName :: "resolver \<Rightarrow> ResourcePool \<Rightarrow> uint8 list \<Rightarrow> drm_code \<times> int \<times> ResourcePool" where
  "getSegIDByHDFSHostName resolve p hostname =
     (let (res, segid, tbl) = getSegIDByHostNameInternal resolve p (HDFSHostNameIndexed p) hostname
      in (res, segid, p\<lparr>HDFSHostNameIndexed := tbl\<rparr>))"

definition getSegIDByGRMHostName :: "resolver \<Rightarrow> ResourcePool \<Rightarrow> uint8 list \<Rightarrow> drm_code \<times> int \<times> ResourcePool" where
  "getSegIDByGRMHostName resolve p hostname =
     (let (res, segid, tbl) = getSegIDByHostNameInternal resolve p (GRMHostNameIndexed p) hostname
      in (res, segid, p\<lparr>GRMHostNameIndexed := tbl\<rparr>))"

section \<open>Allocating virtual segments\<close>

record VSegmentCounterInternal =
  vs_HDFSNameIndex :: uint32
  vs_VSegmentCount :: uint32
  vs_SegId :: uint32
  vs_Resource :: addr

definition createVSegmentCounter :: "uint32 \<Rightarrow> addr \<Rightarrow> SegResource \<Rightarrow> VSegmentCounterInternal" where
  "createVSegmentCounter hdfsnameindex a s =
     \<lparr>vs_HDFSNameIndex = hdfsnameindex, vs_VSegmentCount = 1, vs_SegId = of_int (st_ID (sr_Stat s)), vs_Resource = a\<rparr>"

text \<open>\<^verbatim>\<open>ctns\<close> is the container set of the segment at an index; its counters and those of the segment change
  together.\<close>

definition allocateResourceFromSegment ::
    "SegResource \<Rightarrow> int \<Rightarrow> int \<Rightarrow> double \<Rightarrow> int \<Rightarrow> SegResource option" where
  "allocateResourceFromSegment s rindex memory core slicesize = do {
     ctns \<leftarrow> ctn_set s rindex;
     let s = put_ctn_set s rindex (ctns\<lparr>cs_Available := minusResourceBundleData (cs_Available ctns) memory core\<rparr>);
     Some (s\<lparr>sr_Available := minusResourceBundleData (sr_Available s) memory core,
             sr_SliceWorkload := sr_SliceWorkload s + slicesize\<rparr>)
   }"

definition recycleResourceToSegment ::
    "SegResource \<Rightarrow> int option \<Rightarrow> int \<Rightarrow> double \<Rightarrow> int \<Rightarrow> int \<Rightarrow> SegResource" where
  "recycleResourceToSegment s rindex memory core iobytes slicesize =
     (let s = s\<lparr>sr_IOBytesWorkload := sr_IOBytesWorkload s - iobytes,
                sr_SliceWorkload := sr_SliceWorkload s - slicesize\<rparr>
      in case Option.bind rindex (ctn_set s) of
           None \<Rightarrow> s
         | Some ctns \<Rightarrow>
             let s = put_ctn_set s (the rindex)
                       (ctns\<lparr>cs_Available := addResourceBundleData (cs_Available ctns) memory core\<rparr>)
             in s\<lparr>sr_Available := addResourceBundleData (sr_Available s) memory core\<rparr>)"

text \<open>The arguments of an allocation that it reads, and its local variables.  \<^verbatim>\<open>ratio\<close> is \<^verbatim>\<open>memory/core\<close>.\<close>

record AllocArgs =
  aa_nodecount :: int
  aa_memory :: uint32
  aa_core :: double
  aa_iobytes :: int
  aa_slicesize :: int
  aa_vseglimitpseg :: int
  aa_preferredhostname :: "uint8 list list"
  aa_fixnodecount :: bool

record AllocState =
  as_pool :: ResourcePool
  as_vsegcnttbl :: "(uint64, VSegmentCounterInternal) HASHTABLE"
  as_tmplist :: "addr list"
  as_nodecountleft :: int
  as_impossiblecount :: int
  as_skipchosenmachine :: bool

definition aa_ratio :: "AllocArgs \<Rightarrow> uint32" where
  "aa_ratio q = ratio_of (uint (aa_memory q)) (aa_core q)"

text \<open>Take the resource of one virtual segment from a segment, and reorder it in the index by available
  resource.\<close>

definition take_vseg :: "DynResourceQueueManager \<Rightarrow> AllocArgs \<Rightarrow> ResourcePool \<Rightarrow> addr \<Rightarrow> SegResource \<Rightarrow> ResourcePool option" where
  "take_vseg m q p a s = do {
     s \<leftarrow> allocateResourceFromSegment s (getResourceQueueRatioIndex m (aa_ratio q))
           (sint (aa_memory q)) (aa_core q) (aa_slicesize q);
     (res, p) \<leftarrow> reorderSegResourceAvailIndex m (put_seg p a s) a (aa_ratio q);
     Some p
   }"

text \<open>Stage 1 looks for the preferred hosts, one virtual segment on each.  The comparison of the available
  memory with the quota is one of unsigned numbers.\<close>

fun allocateByLocality ::
    "resolver \<Rightarrow> int \<Rightarrow> DynResourceQueueManager \<Rightarrow> AllocArgs \<Rightarrow> uint32 \<Rightarrow> uint8 list list \<Rightarrow> AllocState \<Rightarrow> AllocState option" where
  "allocateByLocality resolve slicelimit m q i [] st = Some st"
| "allocateByLocality resolve slicelimit m q i (hostname # hostnames) st =
     (let (res, segid, p) = getSegIDByHDFSHostName resolve (as_pool st) hostname;
          st = st\<lparr>as_pool := p\<rparr>
      in
      if res \<noteq> FUNC_RETURN_OK then allocateByLocality resolve slicelimit m q (i + 1) hostnames st
      else do {
        a \<leftarrow> getSegResource p segid;
        s \<leftarrow> rp_heap p a;
        if \<not> IS_SEGRESOURCE_USABLE s then allocateByLocality resolve slicelimit m q (i + 1) hostnames st
        else
          let (res, ctns) = getGRMContainerSet m s (aa_ratio q) in
          if res \<noteq> FUNC_RETURN_OK then allocateByLocality resolve slicelimit m q (i + 1) hostnames st
          else
            let segcountact = (case ctns of
                                 None \<Rightarrow> 0
                               | Some c \<Rightarrow> (of_int (rb_MemoryMB (cs_Available c)) :: uint32) div aa_memory q)
            in
            if segcountact = 0 \<or> sr_SliceWorkload s + aa_slicesize q > slicelimit
            then allocateByLocality resolve slicelimit m q (i + 1) hostnames st
            else do {
              p \<leftarrow> take_vseg m q p a s;
              let vsegcnt = createVSegmentCounter i a s;
              let st = st\<lparr>as_pool := p,
                          as_vsegcnttbl := ht_set (as_vsegcnttbl st) (seg_key (st_ID (sr_Stat s))) (Some vsegcnt),
                          as_nodecountleft := as_nodecountleft st - 1\<rparr>;
              if as_nodecountleft st = 0 then Some st
              else allocateByLocality resolve slicelimit m q (i + 1) hostnames st
            }
      })"

text \<open>The index of the preferred host name that leads to a segment, or their number.\<close>

fun findHDFSNameIndex :: "resolver \<Rightarrow> ResourcePool \<Rightarrow> int \<Rightarrow> uint32 \<Rightarrow> uint8 list list \<Rightarrow> uint32 \<times> ResourcePool" where
  "findHDFSNameIndex resolve p wanted k [] = (k, p)"
| "findHDFSNameIndex resolve p wanted k (hostname # hostnames) =
     (let (res, syncid, p) = getSegIDByHDFSHostName resolve p hostname
      in if syncid = wanted then (k, p) else findHDFSNameIndex resolve p wanted (k + 1) hostnames)"

text \<open>The body of the loop of stage 2, in three parts: whether the segment at the front of the index can
  take a virtual segment, given its counter; taking it; and the end of the body.\<close>

definition can_take ::
    "int \<Rightarrow> DynResourceQueueManager \<Rightarrow> AllocArgs \<Rightarrow> bool \<Rightarrow> SegResource \<Rightarrow> VSegmentCounterInternal option \<Rightarrow> bool" where
  "can_take slicelimit m q skipchosenmachine s curhost \<longleftrightarrow>
     IS_SEGRESOURCE_USABLE s \<and>
     (case curhost of
        None \<Rightarrow> True
      | Some c \<Rightarrow> \<not> (\<not> aa_fixnodecount q \<and> vs_VSegmentCount c \<ge> of_int (aa_vseglimitpseg q)) \<and> \<not> skipchosenmachine) \<and>
     (let (res, ctns) = getGRMContainerSet m s (aa_ratio q) in
      res = FUNC_RETURN_OK \<and>
      \<not> (\<not> aa_fixnodecount q \<and> sr_SliceWorkload s + aa_slicesize q > slicelimit) \<and>
      (case ctns of
         None \<Rightarrow> False
       | Some c \<Rightarrow> (of_int (rb_MemoryMB (cs_Available c)) :: uint32) \<ge> aa_memory q \<and> rb_Core (cs_Available c) \<ge> aa_core q))"

definition chooseSegment ::
    "resolver \<Rightarrow> DynResourceQueueManager \<Rightarrow> AllocArgs \<Rightarrow> AllocState \<Rightarrow> addr \<Rightarrow> SegResource \<Rightarrow> VSegmentCounterInternal option
     \<Rightarrow> AllocState option" where
  "chooseSegment resolve m q st a s curhost = do {
     p \<leftarrow> take_vseg m q (as_pool st) a s;
     let (p, vsegcnt) =
       (case curhost of
          Some c \<Rightarrow> (p, c\<lparr>vs_VSegmentCount := vs_VSegmentCount c + 1\<rparr>)
        | None \<Rightarrow>
            let (k, p) = findHDFSNameIndex resolve p (st_ID (sr_Stat s)) 0 (aa_preferredhostname q)
            in (p, createVSegmentCounter k a s));
     Some (st\<lparr>as_pool := p,
              as_vsegcnttbl := ht_set (as_vsegcnttbl st) (seg_key (st_ID (sr_Stat s))) (Some vsegcnt),
              as_nodecountleft := as_nodecountleft st - 1, as_impossiblecount := 0\<rparr>)
   }"

definition refillIndex :: "ResourcePool \<Rightarrow> addr list \<Rightarrow> ResourcePool" where
  "refillIndex p tmplist =
     p\<lparr>OrderedIOBytesWorkload :=
         foldl (\<lambda>tree a. index_insert (comp_iobytes (rp_heap p)) a tree) (OrderedIOBytesWorkload p) tmplist\<rparr>"

definition endOfBody :: "int \<Rightarrow> AllocState \<Rightarrow> AllocState" where
  "endOfBody fullcount st =
     (let st = (if as_impossiblecount st \<ge> fullcount
                then st\<lparr>as_impossiblecount := (if as_skipchosenmachine st then 0 else as_impossiblecount st),
                        as_skipchosenmachine := False\<rparr>
                else st)
      in if OrderedIOBytesWorkload (as_pool st) = []
         then st\<lparr>as_pool := refillIndex (as_pool st) (as_tmplist st), as_tmplist := []\<rparr>
         else st)"

definition allocateByWorkloadBody ::
    "resolver \<Rightarrow> int \<Rightarrow> DynResourceQueueManager \<Rightarrow> AllocArgs \<Rightarrow> int \<Rightarrow> AllocState \<Rightarrow> AllocState option" where
  "allocateByWorkloadBody resolve slicelimit m q fullcount st =
     (case OrderedIOBytesWorkload (as_pool st) of
        [] \<Rightarrow> None
      | a # rest \<Rightarrow> do {
          let st = st\<lparr>as_pool := (as_pool st)\<lparr>OrderedIOBytesWorkload := rest\<rparr>, as_tmplist := as_tmplist st @ [a]\<rparr>;
          s \<leftarrow> rp_heap (as_pool st) a;
          let curhost = (case getHASHTABLENode (as_vsegcnttbl st) (seg_key (st_ID (sr_Stat s))) of
                           None \<Rightarrow> None | Some pair \<Rightarrow> snd pair);
          st \<leftarrow> (if can_take slicelimit m q (as_skipchosenmachine st) s curhost
                 then chooseSegment resolve m q st a s curhost
                 else Some (st\<lparr>as_impossiblecount := as_impossiblecount st + 1\<rparr>));
          Some (endOfBody fullcount st)
        })"

definition loop_cond :: "int \<Rightarrow> AllocState \<Rightarrow> bool" where
  "loop_cond fullcount st \<longleftrightarrow>
     as_nodecountleft st > 0 \<and> OrderedIOBytesWorkload (as_pool st) \<noteq> [] \<and> as_impossiblecount st < fullcount"

text \<open>Every round either takes a virtual segment, or counts one more impossible segment; when all are
  impossible, the chosen segments are considered again, once.\<close>

lemma endOfBody_simps [simp]:
  "as_nodecountleft (endOfBody fullcount st) = as_nodecountleft st"
  "as_vsegcnttbl (endOfBody fullcount st) = as_vsegcnttbl st"
  "rp_heap (as_pool (endOfBody fullcount st)) = rp_heap (as_pool st)"
  "as_skipchosenmachine (endOfBody fullcount st) \<longleftrightarrow> as_skipchosenmachine st \<and> as_impossiblecount st < fullcount"
  "as_impossiblecount (endOfBody fullcount st) =
     (if as_impossiblecount st \<ge> fullcount \<and> as_skipchosenmachine st then 0 else as_impossiblecount st)"
  by (auto simp: endOfBody_def Let_def refillIndex_def)

lemma chooseSegment_simps:
  assumes "chooseSegment resolve m q st a s curhost = Some st'"
  shows "as_nodecountleft st' = as_nodecountleft st - 1" "as_impossiblecount st' = 0"
    "as_skipchosenmachine st' = as_skipchosenmachine st" "as_tmplist st' = as_tmplist st"
  using assms by (auto simp: chooseSegment_def Let_def bind_eq_Some_conv split: prod.splits option.splits)

lemma body_cases:
  assumes "allocateByWorkloadBody resolve slicelimit m q fullcount st = Some st'"
  obtains a rest s curhost st1 where
    "OrderedIOBytesWorkload (as_pool st) = a # rest" "rp_heap (as_pool st) a = Some s"
    "curhost = Option.bind (ht_get (as_vsegcnttbl st) (seg_key (st_ID (sr_Stat s)))) id"
    "st1 = st\<lparr>as_pool := (as_pool st)\<lparr>OrderedIOBytesWorkload := rest\<rparr>, as_tmplist := as_tmplist st @ [a]\<rparr>"
    "if can_take slicelimit m q (as_skipchosenmachine st) s curhost
     then \<exists>st2. chooseSegment resolve m q st1 a s curhost = Some st2 \<and> st' = endOfBody fullcount st2
     else st' = endOfBody fullcount (st1\<lparr>as_impossiblecount := as_impossiblecount st + 1\<rparr>)"
proof -
  obtain a rest where ar: "OrderedIOBytesWorkload (as_pool st) = a # rest"
    using assms by (auto simp: allocateByWorkloadBody_def split: list.splits)
  obtain s where s: "rp_heap (as_pool st) a = Some s"
    using assms ar by (auto simp: allocateByWorkloadBody_def Let_def bind_eq_Some_conv)
  define curhost where "curhost = Option.bind (ht_get (as_vsegcnttbl st) (seg_key (st_ID (sr_Stat s)))) id"
  have ch: "(case getHASHTABLENode (as_vsegcnttbl st) (seg_key (st_ID (sr_Stat s))) of None \<Rightarrow> None | Some pair \<Rightarrow> snd pair) = curhost"
    by (simp add: curhost_def ht_get_def split: option.splits)
  show ?thesis
  proof (rule that [OF ar s curhost_def refl])
    show "if can_take slicelimit m q (as_skipchosenmachine st) s curhost
     then \<exists>st2. chooseSegment resolve m q (st\<lparr>as_pool := (as_pool st)\<lparr>OrderedIOBytesWorkload := rest\<rparr>, as_tmplist := as_tmplist st @ [a]\<rparr>) a s curhost = Some st2 \<and> st' = endOfBody fullcount st2
     else st' = endOfBody fullcount (st\<lparr>as_pool := (as_pool st)\<lparr>OrderedIOBytesWorkload := rest\<rparr>, as_tmplist := as_tmplist st @ [a]\<rparr>\<lparr>as_impossiblecount := as_impossiblecount st + 1\<rparr>)"
      using assms ar s ch by (auto simp: allocateByWorkloadBody_def Let_def bind_eq_Some_conv split: if_splits)
  qed
qed

lemma body_decreases:
  assumes "loop_cond fullcount st" "allocateByWorkloadBody resolve slicelimit m q fullcount st = Some st'"
  shows "nat (as_nodecountleft st') < nat (as_nodecountleft st) \<or>
    as_nodecountleft st' = as_nodecountleft st \<and>
      (as_skipchosenmachine st \<and> \<not> as_skipchosenmachine st' \<or>
       as_skipchosenmachine st = as_skipchosenmachine st' \<and> as_impossiblecount st' = as_impossiblecount st + 1)"
proof (rule body_cases [OF assms(2)])
  fix a rest s curhost st1
  assume st1: "st1 = st\<lparr>as_pool := (as_pool st)\<lparr>OrderedIOBytesWorkload := rest\<rparr>, as_tmplist := as_tmplist st @ [a]\<rparr>"
    and st': "if can_take slicelimit m q (as_skipchosenmachine st) s curhost
     then \<exists>st2. chooseSegment resolve m q st1 a s curhost = Some st2 \<and> st' = endOfBody fullcount st2
     else st' = endOfBody fullcount (st1\<lparr>as_impossiblecount := as_impossiblecount st + 1\<rparr>)"
  show ?thesis
  proof (cases "can_take slicelimit m q (as_skipchosenmachine st) s curhost")
    case True
    then obtain st2 where "chooseSegment resolve m q st1 a s curhost = Some st2" "st' = endOfBody fullcount st2"
      using st' by auto
    then show ?thesis using chooseSegment_simps(1) [of resolve m q st1 a s curhost st2] assms(1) st1
      by (auto simp: loop_cond_def)
  next
    case False
    then show ?thesis using st' st1 by auto
  qed
qed

function allocateByWorkload ::
    "resolver \<Rightarrow> int \<Rightarrow> DynResourceQueueManager \<Rightarrow> AllocArgs \<Rightarrow> int \<Rightarrow> AllocState \<Rightarrow> AllocState option" where
  "allocateByWorkload resolve slicelimit m q fullcount st =
     (if loop_cond fullcount st
      then case allocateByWorkloadBody resolve slicelimit m q fullcount st of
             None \<Rightarrow> None
           | Some st' \<Rightarrow> allocateByWorkload resolve slicelimit m q fullcount st'
      else Some st)"
  by pat_completeness auto
termination
proof (relation "measures [\<lambda>(r, l, m, q, f, st). nat (as_nodecountleft st),
    \<lambda>(r, l, m, q, f, st). of_bool (as_skipchosenmachine st), \<lambda>(r, l, m, q, f, st). nat (f - as_impossiblecount st)]")
  fix resolve slicelimit m q fullcount st st'
  assume "loop_cond fullcount st" "allocateByWorkloadBody resolve slicelimit m q fullcount st = Some st'"
  then show "((resolve, slicelimit, m, q, fullcount, st'), resolve, slicelimit, m, q, fullcount, st)
    \<in> measures [\<lambda>(r, l, m, q, f, st). nat (as_nodecountleft st),
    \<lambda>(r, l, m, q, f, st). of_bool (as_skipchosenmachine st), \<lambda>(r, l, m, q, f, st). nat (f - as_impossiblecount st)]"
    using body_decreases [of fullcount st resolve slicelimit m q st'] by (auto simp: loop_cond_def)
qed simp

declare allocateByWorkload.simps [simp del]

text \<open>Step 3: the io bytes are distributed over the chosen segments.\<close>

fun addWorkload :: "int \<Rightarrow> VSegmentCounterInternal option list \<Rightarrow> ResourcePool \<Rightarrow> ResourcePool option" where
  "addWorkload vsegiobytes [] p = Some p"
| "addWorkload vsegiobytes (v # vs) p = do {
     vsegcounter \<leftarrow> v;
     s \<leftarrow> rp_heap p (vs_Resource vsegcounter);
     let p = put_seg p (vs_Resource vsegcounter)
           (s\<lparr>sr_IOBytesWorkload := sr_IOBytesWorkload s + vsegiobytes * uint (vs_VSegmentCount vsegcounter)\<rparr>);
     addWorkload vsegiobytes vs (snd (reorderSegResourceIOBytesWorkloadIndex p (vs_Resource vsegcounter)))
   }"

record AllocResult =
  ar_vsegcounters :: "VSegmentCounterInternal list"
  ar_totalvsegcount :: int
  ar_vsegiobytes :: int

definition newVSegCntTable :: "(uint64, VSegmentCounterInternal) HASHTABLE" where
  "newVSegCntTable = initializeHASHTABLE HASHTABLE_Hash_UINT32 HASHTABLE_Comp_UINT32 256 (1024 * 1024 * 1024) False"

definition allocateResourceFromResourcePoolIOBytes ::
    "resolver \<Rightarrow> int \<Rightarrow> DynResourceQueueManager \<Rightarrow> ResourcePool \<Rightarrow> AllocArgs \<Rightarrow> VSegmentCounterInternal list
     \<Rightarrow> (AllocResult \<times> ResourcePool) option" where
  "allocateResourceFromResourcePoolIOBytes resolve slicelimit m p q vsegcounters = do {
     let fullcount = int (length (OrderedIOBytesWorkload p));
     let st = \<lparr>as_pool = p,
               as_vsegcnttbl = newVSegCntTable,
               as_tmplist = [], as_nodecountleft = aa_nodecount q, as_impossiblecount = 0, as_skipchosenmachine = True\<rparr>;
     st \<leftarrow> (if aa_nodecount q < sint (AvailNodeCount p)
            then allocateByLocality resolve slicelimit m q 0 (aa_preferredhostname q) st else Some st);
     st \<leftarrow> allocateByWorkload resolve slicelimit m q fullcount st;
     let p = refillIndex (as_pool st) (as_tmplist st);
     let total1 = aa_nodecount q - as_nodecountleft st;
     let vsegiobytes = (if total1 > 0 then c_div (aa_iobytes q) total1 else 0);
     let vsegcntlist = map snd (getAllPAIRRefIntoList (as_vsegcnttbl st) []);
     p \<leftarrow> addWorkload vsegiobytes vsegcntlist p;
     Some (\<lparr>ar_vsegcounters = vsegcounters @ List.map_filter id vsegcntlist, ar_totalvsegcount = total1,
            ar_vsegiobytes = vsegiobytes\<rparr>, p)
   }"

text \<open>The products are computed as \<^verbatim>\<open>uint32_t\<close> and passed as \<^verbatim>\<open>int32_t\<close>.\<close>

fun returnResourceToResourcePool ::
    "DynResourceQueueManager \<Rightarrow> ResourcePool \<Rightarrow> int \<Rightarrow> double \<Rightarrow> int \<Rightarrow> int \<Rightarrow> VSegmentCounterInternal list \<Rightarrow> bool
     \<Rightarrow> ResourcePool option" where
  "returnResourceToResourcePool m p memory core vsegiobytes slicesize [] isold = Some p"
| "returnResourceToResourcePool m p memory core vsegiobytes slicesize (vsegcnt # hosts) isold = do {
     let ratio = ratio_of memory core;
     let a = vs_Resource vsegcnt;
     segres \<leftarrow> rp_heap p a;
     p \<leftarrow> (if \<not> isold then do {
              let rindex = getResourceQueueRatioIndex m ratio;
              let segres = recycleResourceToSegment segres (if rindex < 0 then None else Some rindex)
                    (sint (of_int memory * vs_VSegmentCount vsegcnt))
                    (core * of_int (uint (vs_VSegmentCount vsegcnt)))
                    (vsegiobytes * uint (vs_VSegmentCount vsegcnt))
                    (sint (of_int slicesize * vs_VSegmentCount vsegcnt));
              (res, p) \<leftarrow> reorderSegResourceAvailIndex m (put_seg p a segres) a ratio;
              Some (snd (reorderSegResourceIOBytesWorkloadIndex p a))
            }
            else Some (put_seg p a (segres\<lparr>sr_OldInuse := minusResourceBundleData (sr_OldInuse segres) memory core\<rparr>)));
     returnResourceToResourcePool m p memory core vsegiobytes slicesize hosts isold
   }"

end
