(* ===== verification/RM_ConnTrack.thy ===== *)
theory RM_ConnTrack
  imports RM_Pool RM_SMBuffer
begin

text \<open>
  The connection tracks of \<^verbatim>\<open>conntrack.c\<close>: the pool of connection ids, the table from ids to tracks, the
  life of a track from its creation to its release, the machine of its progress, and the loop that hands
  received requests to their handlers.  Tracks live in a heap; an operation on a released track is
  \<^term>\<open>None\<close>.  Socket addresses are not part of a track here.
\<close>

section \<open>Progress\<close>

datatype CONN_PROCESS_PROGRESSES =
    CONN_PP_INFO_NOTSET
  | CONN_PP_ESTABLISHED
  | CONN_PP_REGISTER_DONE
  | CONN_PP_RESOURCE_QUEUE_ALLOC_WAIT
  | CONN_PP_RESOURCE_QUEUE_ALLOC_DONE
  | CONN_PP_DDL_REQUEST_ACCEPTED
  | CONN_PP_FAILS
  | CONN_PP_REGISTER_FAIL
  | CONN_PP_RESOURCE_ACQUIRE_FAIL
  | CONN_PP_RESOURCE_QUEUE_ALLOC_FAIL
  | CONN_PP_TIMEOUT_FAIL
  | CONN_PP_TRANSFORM_ERROR

text \<open>\<^verbatim>\<open>Progress > CONN_PP_FAILS\<close>.\<close>

definition is_fail :: "CONN_PROCESS_PROGRESSES \<Rightarrow> bool" where
  "is_fail p \<longleftrightarrow> p \<in> {CONN_PP_REGISTER_FAIL, CONN_PP_RESOURCE_ACQUIRE_FAIL, CONN_PP_RESOURCE_QUEUE_ALLOC_FAIL,
     CONN_PP_TIMEOUT_FAIL, CONN_PP_TRANSFORM_ERROR}"

section \<open>Tracks\<close>

record ConnectionTrack =
  ct_ConnectTime :: uint64
  ct_RegisterTime :: uint64
  ct_ResRequestTime :: uint64
  ct_ResAllocTime :: uint64
  ct_LastActTime :: uint64
  ct_HeadQueueTime :: uint64
  ct_MessageSize :: uint32
  ct_MessageMark1 :: uint8
  ct_MessageMark2 :: uint8
  ct_MessageID :: uint16
  ct_MessageBuff :: SelfMaintainBuffer
  ct_MessageReceiveTime :: uint64
  ct_ConnID :: int
  ct_UserID :: "uint8 list"
  ct_QueueID :: uint32
  ct_Progress :: CONN_PROCESS_PROGRESSES
  ct_ResponseSent :: bool
  ct_SessionID :: int
  ct_SegMemoryMB :: int
  ct_SegCore :: double
  ct_SegIOBytes :: int
  ct_SegNum :: int
  ct_SegNumMin :: int
  ct_SegNumActual :: int
  ct_SegPreferredHostCount :: int
  ct_SegPreferredHostNames :: "nat list option"   \<comment> \<open>offsets into the message buffer\<close>
  ct_SegPreferredScanSizeMB :: "nat option"       \<comment> \<open>offset into the message buffer\<close>
  ct_SliceSize :: int
  ct_IOBytes :: int
  ct_MaxSegCountFixed :: int
  ct_MinSegCountFixed :: int
  ct_VSegLimitPerSeg :: int
  ct_VSegLimit :: int
  ct_Resource :: "VSegmentCounterInternal list"
  ct_QueueTrack :: ptr
  ct_User :: ptr
  ct_isOld :: bool
  ct_troubledByFragment :: bool
  ct_troubledByFragmentTimestamp :: uint64
  ct_CommBuffer :: ptr

definition INVALID_CONNID :: int where
  "INVALID_CONNID = -1"

definition HAWQRM_QD_CONNECTION_MAX_CAPABILITY :: int where
  "HAWQRM_QD_CONNECTION_MAX_CAPABILITY = 0x10000"

text \<open>The state of the manager, with the heap of tracks.\<close>

record ConnectionTrackManager =
  ct_heap :: "addr \<rightharpoonup> ConnectionTrack"
  ct_brk :: addr
  Connections :: "(uint64, addr) HASHTABLE"
  FreeConnIDs :: "int list"
  ConnHavingRequests :: "addr list"
  ConnToSend :: "addr list"

definition initializeConnectionTrackManager :: ConnectionTrackManager where
  "initializeConnectionTrackManager =
     \<lparr>ct_heap = Map.empty, ct_brk = 1,
      Connections = initializeHASHTABLE HASHTABLE_Hash_UINT32 HASHTABLE_Comp_UINT32 256
        (of_int (HAWQRM_QD_CONNECTION_MAX_CAPABILITY * 2)) False,
      FreeConnIDs = [0..HAWQRM_QD_CONNECTION_MAX_CAPABILITY - 1], ConnHavingRequests = [], ConnToSend = []\<rparr>"

section \<open>Connection ids\<close>

definition useConnectionID :: "ConnectionTrackManager \<Rightarrow> drm_code \<times> int \<times> ConnectionTrackManager" where
  "useConnectionID m =
     (case FreeConnIDs m of
        [] \<Rightarrow> (CONNTRACK_CONNID_FULL, INVALID_CONNID, m)
      | c # cs \<Rightarrow> (FUNC_RETURN_OK, c, m\<lparr>FreeConnIDs := cs\<rparr>))"

definition returnConnectionID :: "ConnectionTrackManager \<Rightarrow> int \<Rightarrow> ConnectionTrackManager" where
  "returnConnectionID m connid = m\<lparr>FreeConnIDs := FreeConnIDs m @ [connid]\<rparr>"

text \<open>\<^verbatim>\<open>TYPCONVERT(void *, connid)\<close>\<close>

definition conn_key :: "int \<Rightarrow> uint64" where
  "conn_key connid = of_int connid"

definition getInUseConnectionTrack :: "ConnectionTrackManager \<Rightarrow> int \<Rightarrow> drm_code \<times> ptr" where
  "getInUseConnectionTrack m connid =
     (case getHASHTABLENode (Connections m) (conn_key connid) of
        None \<Rightarrow> (CONNTRACK_NO_CONNID, None)
      | Some pair \<Rightarrow> (FUNC_RETURN_OK, snd pair))"

section \<open>The life of a track\<close>

definition createEmptyConnectionTrack :: ConnectionTrack where
  "createEmptyConnectionTrack =
     \<lparr>ct_ConnectTime = 0, ct_RegisterTime = 0, ct_ResRequestTime = 0, ct_ResAllocTime = 0, ct_LastActTime = 0,
      ct_HeadQueueTime = 0, ct_MessageSize = 0, ct_MessageMark1 = 0, ct_MessageMark2 = 0, ct_MessageID = 0,
      ct_MessageBuff = initializeSelfMaintainBuffer 0, ct_MessageReceiveTime = 0, ct_ConnID = INVALID_CONNID,
      ct_UserID = replicate 64 0, ct_QueueID = 0, ct_Progress = CONN_PP_INFO_NOTSET, ct_ResponseSent = False,
      ct_SessionID = -1, ct_SegMemoryMB = -1, ct_SegCore = -1, ct_SegIOBytes = 0, ct_SegNum = -1,
      ct_SegNumMin = -1, ct_SegNumActual = -1, ct_SegPreferredHostCount = 0, ct_SegPreferredHostNames = None,
      ct_SegPreferredScanSizeMB = None, ct_SliceSize = 0, ct_IOBytes = 0, ct_MaxSegCountFixed = 0,
      ct_MinSegCountFixed = 0, ct_VSegLimitPerSeg = -1, ct_VSegLimit = -1, ct_Resource = [],
      ct_QueueTrack = None, ct_User = None, ct_isOld = False, ct_troubledByFragment = False,
      ct_troubledByFragmentTimestamp = 0, ct_CommBuffer = None\<rparr>"

definition useConnectionTrack :: "ConnectionTrackManager \<Rightarrow> drm_code \<times> ptr \<times> ConnectionTrackManager" where
  "useConnectionTrack m =
     (if FreeConnIDs m = [] then (CONNTRACK_CONNID_FULL, None, m)
      else (FUNC_RETURN_OK, Some (ct_brk m),
            m\<lparr>ct_heap := (ct_heap m)(ct_brk m \<mapsto> createEmptyConnectionTrack), ct_brk := Suc (ct_brk m)\<rparr>))"

definition put_track :: "ConnectionTrackManager \<Rightarrow> addr \<Rightarrow> ConnectionTrack \<Rightarrow> ConnectionTrackManager" where
  "put_track m a t = m\<lparr>ct_heap := (ct_heap m)(a \<mapsto> t)\<rparr>"

definition trackConnectionTrack :: "ConnectionTrackManager \<Rightarrow> addr \<Rightarrow> ConnectionTrackManager option" where
  "trackConnectionTrack m a = do {
     t \<leftarrow> ct_heap m a;
     Some (m\<lparr>Connections := ht_set (Connections m) (conn_key (ct_ConnID t)) (Some a)\<rparr>)
   }"

text \<open>\<^verbatim>\<open>freeSegPreferredHostInfo\<close> and \<^verbatim>\<open>freeUsedConnectionTrack\<close>: the memory of the track is released.\<close>

definition freeUsedConnectionTrack :: "ConnectionTrackManager \<Rightarrow> addr \<Rightarrow> ConnectionTrackManager" where
  "freeUsedConnectionTrack m a = m\<lparr>ct_heap := (ct_heap m)(a := None)\<rparr>"

definition returnConnectionTrack :: "ConnectionTrackManager \<Rightarrow> addr \<Rightarrow> ConnectionTrackManager option" where
  "returnConnectionTrack m a = do {
     t \<leftarrow> ct_heap m a;
     let m = (if ct_ConnID t \<noteq> -1 then
                let m = returnConnectionID m (ct_ConnID t)
                in m\<lparr>Connections := ht_remove (Connections m) (conn_key (ct_ConnID t))\<rparr>
              else m);
     Some (freeUsedConnectionTrack m a)
   }"


definition transformConnectionTrackProgress :: "ConnectionTrack \<Rightarrow> CONN_PROCESS_PROGRESSES \<Rightarrow> ConnectionTrack" where
  "transformConnectionTrackProgress t progress = t\<lparr>ct_Progress := progress\<rparr>"

text \<open>What \<^verbatim>\<open>retrieveConnectionTrack\<close> copies from the old track.\<close>

definition copyOldTrack :: "ConnectionTrack \<Rightarrow> ConnectionTrack \<Rightarrow> ConnectionTrack" where
  "copyOldTrack t old = t\<lparr>
     ct_ConnID := ct_ConnID old, ct_Progress := ct_Progress old, ct_QueueID := ct_QueueID old,
     ct_QueueTrack := ct_QueueTrack old, ct_RegisterTime := ct_RegisterTime old,
     ct_ResAllocTime := ct_ResAllocTime old, ct_ResRequestTime := ct_ResRequestTime old,
     ct_Resource := ct_Resource t @ ct_Resource old, ct_ResponseSent := ct_ResponseSent old,
     ct_MaxSegCountFixed := ct_MaxSegCountFixed old, ct_MinSegCountFixed := ct_MinSegCountFixed old,
     ct_VSegLimitPerSeg := ct_VSegLimitPerSeg old, ct_VSegLimit := ct_VSegLimit old,
     ct_SliceSize := ct_SliceSize old, ct_SegIOBytes := ct_SegIOBytes old, ct_IOBytes := ct_IOBytes old,
     ct_SegCore := ct_SegCore old, ct_SegMemoryMB := ct_SegMemoryMB old, ct_SegNum := ct_SegNum old,
     ct_SegNumActual := ct_SegNumActual old, ct_SegNumMin := ct_SegNumMin old,
     ct_SegPreferredHostCount := ct_SegPreferredHostCount old, ct_isOld := ct_isOld old,
     ct_troubledByFragment := ct_troubledByFragment old,
     ct_troubledByFragmentTimestamp := ct_troubledByFragmentTimestamp old,
     ct_SessionID := ct_SessionID old, ct_User := ct_User old, ct_UserID := ct_UserID old\<rparr>"

definition retrieveConnectionTrack ::
  "ConnectionTrackManager \<Rightarrow> addr \<Rightarrow> int \<Rightarrow> (drm_code \<times> ConnectionTrackManager) option" where
  "retrieveConnectionTrack m a connid = do {
     t \<leftarrow> ct_heap m a;
     if ct_ConnID t \<noteq> -1 then Some (FUNC_RETURN_OK, m)
     else
       let (res, oldct) = getInUseConnectionTrack m connid in
       if res \<noteq> FUNC_RETURN_OK
       then Some (res, put_track m a (transformConnectionTrackProgress t CONN_PP_TRANSFORM_ERROR))
       else do {
         b \<leftarrow> oldct;
         old \<leftarrow> ct_heap m b;
         let m = put_track m a (copyOldTrack t old);
         old' \<leftarrow> ct_heap m b;
         let m = put_track m b (old'\<lparr>ct_Resource := [], ct_ConnID := INVALID_CONNID\<rparr>);
         m \<leftarrow> returnConnectionTrack m b;
         m \<leftarrow> trackConnectionTrack m a;
         Some (FUNC_RETURN_OK, m)
       }
   }"

text \<open>The connection id part of the registration handlers (\<^verbatim>\<open>handleRMRequestConnectionReg\<close>): a fresh id
  is written into the track, which then is tracked.\<close>

definition registerConnID :: "ConnectionTrackManager \<Rightarrow> addr \<Rightarrow> (drm_code \<times> ConnectionTrackManager) option" where
  "registerConnID m a = do {
     t \<leftarrow> ct_heap m a;
     let (res, connid, m) = useConnectionID m;
     let m = put_track m a (t\<lparr>ct_ConnID := connid\<rparr>);
     if res = FUNC_RETURN_OK then do {
       m \<leftarrow> trackConnectionTrack m a;
       Some (res, m)
     } else Some (res, m)
   }"

section \<open>Messages\<close>

definition setConnectionTrackMessageBuffer ::
  "ConnectionTrack \<Rightarrow> byte list \<Rightarrow> uint32 \<Rightarrow> ConnectionTrack option" where
  "setConnectionTrackMessageBuffer t content sz = do {
     b \<leftarrow> appendSelfMaintainBuffer (resetSelfMaintainBuffer (ct_MessageBuff t)) content sz;
     Some (t\<lparr>ct_MessageBuff := b\<rparr>)
   }"

definition addNewMessageToConnTrack ::
  "ConnectionTrackManager \<Rightarrow> addr \<Rightarrow> uint16 \<Rightarrow> uint8 \<Rightarrow> uint8 \<Rightarrow> byte list \<Rightarrow> uint32
   \<Rightarrow> ConnectionTrackManager option" where
  "addNewMessageToConnTrack m a messageid mark1 mark2 buffer buffersize = do {
     t \<leftarrow> ct_heap m a;
     b \<leftarrow> appendSelfMaintainBuffer (resetSelfMaintainBuffer (ct_MessageBuff t)) buffer buffersize;
     let t = t\<lparr>ct_MessageID := messageid, ct_MessageMark1 := mark1, ct_MessageMark2 := mark2,
               ct_MessageSize := buffersize, ct_MessageBuff := b\<rparr>;
     let m = put_track m a t;
     Some (m\<lparr>ConnHavingRequests := ConnHavingRequests m @ [a]\<rparr>)
   }"

definition sentMessageFromConnTrack :: "ConnectionTrackManager \<Rightarrow> addr \<Rightarrow> ConnectionTrackManager option" where
  "sentMessageFromConnTrack m a = do {
     t \<leftarrow> ct_heap m a;
     Some (put_track m a (t\<lparr>ct_ResponseSent := True\<rparr>))
   }"

definition buildResponseIntoConnTrack ::
  "ConnectionTrackManager \<Rightarrow> addr \<Rightarrow> byte list \<Rightarrow> uint32 \<Rightarrow> uint8 \<Rightarrow> uint8 \<Rightarrow> uint16
   \<Rightarrow> ConnectionTrackManager option" where
  "buildResponseIntoConnTrack m a content sz mark1 mark2 messageid = do {
     t \<leftarrow> ct_heap m a;
     let t = t\<lparr>ct_MessageID := messageid, ct_MessageMark1 := mark1, ct_MessageMark2 := mark2,
               ct_MessageSize := sz, ct_ResponseSent := False\<rparr>;
     t \<leftarrow> setConnectionTrackMessageBuffer t content sz;
     Some (put_track m a t)
   }"

text \<open>The end of a socket connection; the flag tells whether the track was given back.\<close>

definition cleanupConnTrack :: "ConnectionTrackManager \<Rightarrow> ptr \<Rightarrow> (bool \<times> ConnectionTrackManager) option" where
  "cleanupConnTrack m userdata =
     (case userdata of
        None \<Rightarrow> Some (False, m)
      | Some a \<Rightarrow> do {
          t \<leftarrow> ct_heap m a;
          if ct_ConnID t = -1 \<or> ct_Progress t = CONN_PP_ESTABLISHED \<or> is_fail (ct_Progress t) then do {
            m \<leftarrow> returnConnectionTrack m a;
            Some (True, m)
          }
          else Some (False, put_track m a (t\<lparr>ct_CommBuffer := None\<rparr>))
        })"



section \<open>Invariant\<close>

definition in_range :: "int \<Rightarrow> bool" where
  "in_range c \<longleftrightarrow> 0 \<le> c \<and> c < HAWQRM_QD_CONNECTION_MAX_CAPABILITY"

definition tab :: "ConnectionTrackManager \<Rightarrow> int \<Rightarrow> addr option option" where
  "tab m c = ht_get (Connections m) (conn_key c)"

definition same_id :: "int \<Rightarrow> int \<Rightarrow> bool" where
  "same_id c d \<longleftrightarrow> (of_int c :: uint32) = of_int d"

definition ct_inv :: "ConnectionTrackManager \<Rightarrow> bool" where
  "ct_inv m \<longleftrightarrow>
     ht_inv HASHTABLE_Hash_UINT32 HASHTABLE_Comp_UINT32 (\<lambda>_. True) (Connections m) \<and>
     distinct (FreeConnIDs m) \<and> (\<forall>c \<in> set (FreeConnIDs m). in_range c) \<and>
     (\<forall>c. in_range c \<longrightarrow> (c \<in> set (FreeConnIDs m) \<longleftrightarrow> tab m c = None)) \<and>
     (\<forall>a t. ct_heap m a = Some t \<longrightarrow> ct_ConnID t \<noteq> -1 \<longrightarrow> in_range (ct_ConnID t) \<and> tab m (ct_ConnID t) = Some (Some a)) \<and>
     (\<forall>c v. tab m c = Some v \<longrightarrow>
        (\<exists>a t. v = Some a \<and> ct_heap m a = Some t \<and> same_id c (ct_ConnID t) \<and> in_range (ct_ConnID t))) \<and>
     (\<forall>a. ct_heap m a \<noteq> None \<longrightarrow> a < ct_brk m)"

lemma ucast_conn_key: "(ucast (conn_key c) :: uint32) = of_int c"
  unfolding conn_key_def by transfer simp

lemma comp_key: "HASHTABLE_Comp_UINT32 (conn_key c) (conn_key d) = 0 \<longleftrightarrow> same_id c d"
  by (simp add: HASHTABLE_Comp_UINT32_def ucast_conn_key same_id_def)

lemma same_id_range: "in_range c \<Longrightarrow> in_range d \<Longrightarrow> same_id c d \<longleftrightarrow> c = d"
proof -
  assume "in_range c" "in_range d"
  then have "uint (of_int c :: uint32) = c" "uint (of_int d :: uint32) = d"
    by (simp_all add: in_range_def HAWQRM_QD_CONNECTION_MAX_CAPABILITY_def uint32_small)
  then show ?thesis unfolding same_id_def by metis
qed

lemma same_id_refl [simp]: "same_id c c" by (simp add: same_id_def)

lemma in_range_not_invalid [simp]: "\<not> in_range (-1)" by (simp add: in_range_def)

lemma tab_laws:
  assumes "ht_inv HASHTABLE_Hash_UINT32 HASHTABLE_Comp_UINT32 (\<lambda>_. True) (Connections m)"
  shows "ht_get (ht_set (Connections m) (conn_key c) v) (conn_key d) = (if same_id d c then Some v else tab m d)"
    "ht_get (ht_remove (Connections m) (conn_key c)) (conn_key d) = (if same_id d c then None else tab m d)"
    "ht_inv HASHTABLE_Hash_UINT32 HASHTABLE_Comp_UINT32 (\<lambda>_. True) (ht_set (Connections m) (conn_key c) v)"
    "ht_inv HASHTABLE_Hash_UINT32 HASHTABLE_Comp_UINT32 (\<lambda>_. True) (ht_remove (Connections m) (conn_key c))"
  using key_uint32.ht_keyed [OF assms TrueI TrueI] by (auto simp: comp_key tab_def)

lemma getInUse_tab:
  "getInUseConnectionTrack m c = (case tab m c of None \<Rightarrow> (CONNTRACK_NO_CONNID, None) | Some v \<Rightarrow> (FUNC_RETURN_OK, v))"
  by (simp add: getInUseConnectionTrack_def tab_def ht_get_def split: option.splits)

lemma ct_inv_initial: "ct_inv initializeConnectionTrackManager"
proof -
  have "tab initializeConnectionTrackManager c = None" for c
    by (simp add: tab_def initializeConnectionTrackManager_def initialize_inv)
  then show ?thesis
    by (simp add: ct_inv_def) (simp add: initializeConnectionTrackManager_def initialize_inv in_range_def)
qed

lemma ct_invD:
  assumes "ct_inv m"
  shows "ht_inv HASHTABLE_Hash_UINT32 HASHTABLE_Comp_UINT32 (\<lambda>_. True) (Connections m)"
    "distinct (FreeConnIDs m)" "c \<in> set (FreeConnIDs m) \<Longrightarrow> in_range c"
    "in_range c \<Longrightarrow> c \<in> set (FreeConnIDs m) \<longleftrightarrow> tab m c = None"
    "ct_heap m a = Some t \<Longrightarrow> ct_ConnID t \<noteq> -1 \<Longrightarrow> in_range (ct_ConnID t) \<and> tab m (ct_ConnID t) = Some (Some a)"
    "tab m c = Some v \<Longrightarrow> \<exists>a t. v = Some a \<and> ct_heap m a = Some t \<and> same_id c (ct_ConnID t) \<and> in_range (ct_ConnID t)"
    "ct_heap m a = Some t \<Longrightarrow> a < ct_brk m"
  using assms unfolding ct_inv_def by blast+

lemma ct_invI:
  assumes "ht_inv HASHTABLE_Hash_UINT32 HASHTABLE_Comp_UINT32 (\<lambda>_. True) (Connections m)"
    "distinct (FreeConnIDs m)" "\<And>c. c \<in> set (FreeConnIDs m) \<Longrightarrow> in_range c"
    "\<And>c. in_range c \<Longrightarrow> c \<in> set (FreeConnIDs m) \<longleftrightarrow> tab m c = None"
    "\<And>a t. ct_heap m a = Some t \<Longrightarrow> ct_ConnID t \<noteq> -1 \<Longrightarrow> in_range (ct_ConnID t) \<and> tab m (ct_ConnID t) = Some (Some a)"
    "\<And>c v. tab m c = Some v \<Longrightarrow>
       \<exists>a t. v = Some a \<and> ct_heap m a = Some t \<and> same_id c (ct_ConnID t) \<and> in_range (ct_ConnID t)"
    "\<And>a t. ct_heap m a = Some t \<Longrightarrow> a < ct_brk m"
  shows "ct_inv m"
  using assms unfolding ct_inv_def by blast

lemma inv_put:
  assumes inv: "ct_inv m" and a: "ct_heap m a = Some t" and id: "ct_ConnID t' = ct_ConnID t"
  shows "ct_inv (put_track m a t')"
proof -
  have tab: "tab (put_track m a t') c = tab m c" for c by (simp add: tab_def put_track_def)
  have "\<exists>b u. v = Some b \<and> ct_heap (put_track m a t') b = Some u \<and> same_id c (ct_ConnID u) \<and> in_range (ct_ConnID u)"
    if v: "tab m c = Some v" for c v
  proof -
    obtain b u where u: "v = Some b" "ct_heap m b = Some u" "same_id c (ct_ConnID u)" "in_range (ct_ConnID u)"
      using ct_invD(6) [OF inv v] by blast
    then show ?thesis by (cases "b = a") (use a id in \<open>simp_all add: put_track_def\<close>)
  qed
  note found = this
  show ?thesis
    by (rule ct_invI, unfold tab)
      (use ct_invD [OF inv] a id found in \<open>auto simp: put_track_def split: if_splits\<close>)
qed

lemma inv_accept:
  assumes inv: "ct_inv m" and use: "useConnectionTrack m = (FUNC_RETURN_OK, Some a, m')"
  shows "ct_inv m'"
proof -
  have m': "m' = m\<lparr>ct_heap := (ct_heap m)(ct_brk m \<mapsto> createEmptyConnectionTrack), ct_brk := Suc (ct_brk m)\<rparr>"
    using use by (auto simp: useConnectionTrack_def split: if_splits)
  have fresh: "ct_heap m (ct_brk m) = None" using ct_invD(7) [OF inv, of "ct_brk m"] by (cases "ct_heap m (ct_brk m)") auto
  have tab: "tab m' c = tab m c" for c by (simp add: tab_def m')
  have "\<exists>b u. v = Some b \<and> ct_heap m' b = Some u \<and> same_id c (ct_ConnID u) \<and> in_range (ct_ConnID u)"
    if v: "tab m c = Some v" for c v
  proof -
    obtain b u where u: "v = Some b" "ct_heap m b = Some u" "same_id c (ct_ConnID u)" "in_range (ct_ConnID u)"
      using ct_invD(6) [OF inv v] by blast
    then have "b \<noteq> ct_brk m" using fresh by auto
    with u show ?thesis by (simp add: m')
  qed
  note found = this
  show ?thesis
    by (rule ct_invI, unfold tab)
      (use ct_invD [OF inv] found in
        \<open>auto simp: m' createEmptyConnectionTrack_def INVALID_CONNID_def less_Suc_eq split: if_splits\<close>)
qed

text \<open>Giving an id to a track that has none.\<close>

lemma inv_register:
  assumes inv: "ct_inv m" and a: "ct_heap m a = Some t" and none: "ct_ConnID t = -1"
  shows "\<exists>res m'. registerConnID m a = Some (res, m') \<and> ct_inv m'"
proof (cases "FreeConnIDs m")
  case Nil
  then show ?thesis
    using inv_put [OF inv a] none a by (simp add: registerConnID_def useConnectionID_def INVALID_CONNID_def)
next
  case (Cons c cs)
  let ?t = "t\<lparr>ct_ConnID := c\<rparr>"
  let ?m = "m\<lparr>FreeConnIDs := cs, ct_heap := (ct_heap m)(a \<mapsto> ?t), Connections := ht_set (Connections m) (conn_key c) (Some a)\<rparr>"
  have eq: "registerConnID m a = Some (FUNC_RETURN_OK, ?m)"
    using a Cons by (simp add: registerConnID_def useConnectionID_def trackConnectionTrack_def put_track_def)
  note D = ct_invD [OF inv]
  have c: "in_range c" "tab m c = None" "c \<notin> set cs" "distinct cs"
    using D(2) D(3) [of c] D(4) [of c] Cons by auto
  have tab: "tab ?m d = (if same_id d c then Some (Some a) else tab m d)" for d
    using tab_laws(1) [OF D(1)] by (simp add: tab_def)
  have "ct_inv ?m"
  proof (rule ct_invI)
    show "ht_inv HASHTABLE_Hash_UINT32 HASHTABLE_Comp_UINT32 (\<lambda>_. True) (Connections ?m)"
      using tab_laws(3) [OF D(1)] by simp
    show "distinct (FreeConnIDs ?m)" using c by simp
    show "in_range d" if "d \<in> set (FreeConnIDs ?m)" for d using that D(3) [of d] Cons by simp
    show "d \<in> set (FreeConnIDs ?m) \<longleftrightarrow> tab ?m d = None" if "in_range d" for d
      unfolding tab using that c D(4) [of d] Cons same_id_range [of d c] by auto
    fix b u assume b: "ct_heap ?m b = Some u" "ct_ConnID u \<noteq> -1"
    show "in_range (ct_ConnID u) \<and> tab ?m (ct_ConnID u) = Some (Some b)"
    proof (cases "b = a")
      case True
      then have "ct_ConnID u = c" using b(1) by auto
      then show ?thesis using c True by (simp only: tab same_id_refl if_True simp_thms)
    next
      case False
      then have "in_range (ct_ConnID u)" "tab m (ct_ConnID u) = Some (Some b)" using D(5) [of b u] b by auto
      moreover have "ct_ConnID u \<noteq> c" using calculation(2) c(2) by auto
      ultimately show ?thesis unfolding tab using same_id_range c(1) by simp
    qed
  next
    fix d v assume v: "tab ?m d = Some v"
    show "\<exists>b u. v = Some b \<and> ct_heap ?m b = Some u \<and> same_id d (ct_ConnID u) \<and> in_range (ct_ConnID u)"
    proof (cases "same_id d c")
      case True
      then show ?thesis using v c(1) unfolding tab by auto
    next
      case False
      then obtain b u where u: "v = Some b" "ct_heap m b = Some u" "same_id d (ct_ConnID u)" "in_range (ct_ConnID u)"
        using D(6) [of d v] v unfolding tab by auto
      moreover have "b \<noteq> a" using u(2,4) a none by auto
      ultimately show ?thesis by auto
    qed
  next
    show "b < ct_brk ?m" if "ct_heap ?m b = Some u" for b u
      using that D(7) [of b u] D(7) [OF a] by (simp split: if_splits)
  qed
  with eq show ?thesis by blast
qed

text \<open>Giving a track back.\<close>

lemma inv_return:
  assumes inv: "ct_inv m" and a: "ct_heap m a = Some t"
  shows "\<exists>m'. returnConnectionTrack m a = Some m' \<and> ct_inv m' \<and> ct_heap m' a = None"
proof (cases "ct_ConnID t = -1")
  case True
  let ?m = "m\<lparr>ct_heap := (ct_heap m)(a := None)\<rparr>"
  have eq: "returnConnectionTrack m a = Some ?m"
    using a True by (simp add: returnConnectionTrack_def freeUsedConnectionTrack_def)
  note D = ct_invD [OF inv]
  have tab: "tab ?m d = tab m d" for d by (simp add: tab_def)
  have found: "\<exists>b u. v = Some b \<and> ct_heap ?m b = Some u \<and> same_id d (ct_ConnID u) \<and> in_range (ct_ConnID u)"
    if v: "tab m d = Some v" for d v
  proof -
    obtain b u where u: "v = Some b" "ct_heap m b = Some u" "same_id d (ct_ConnID u)" "in_range (ct_ConnID u)"
      using D(6) [OF v] by blast
    moreover have "b \<noteq> a" using u(2,4) a True by auto
    ultimately show ?thesis by auto
  qed
  have "ct_inv ?m"
    by (rule ct_invI, unfold tab) (use D found in \<open>auto split: if_splits\<close>)
  with eq show ?thesis by simp
next
  case False
  let ?c = "ct_ConnID t"
  let ?m = "m\<lparr>FreeConnIDs := FreeConnIDs m @ [?c], Connections := ht_remove (Connections m) (conn_key ?c),
    ct_heap := (ct_heap m)(a := None)\<rparr>"
  have eq: "returnConnectionTrack m a = Some ?m"
    using a False by (simp add: returnConnectionTrack_def freeUsedConnectionTrack_def returnConnectionID_def Let_def)
  note D = ct_invD [OF inv]
  have c: "in_range ?c" "tab m ?c = Some (Some a)" "?c \<notin> set (FreeConnIDs m)"
    using D(5) [OF a False] D(4) [of ?c] by auto
  have tab: "tab ?m d = (if same_id d ?c then None else tab m d)" for d
    using tab_laws(2) [OF D(1)] by (simp add: tab_def)
  have "ct_inv ?m"
  proof (rule ct_invI)
    show "ht_inv HASHTABLE_Hash_UINT32 HASHTABLE_Comp_UINT32 (\<lambda>_. True) (Connections ?m)"
      using tab_laws(4) [OF D(1)] by simp
    show "distinct (FreeConnIDs ?m)" using c D(2) by simp
    show "in_range d" if "d \<in> set (FreeConnIDs ?m)" for d using that D(3) [of d] c by auto
    show "d \<in> set (FreeConnIDs ?m) \<longleftrightarrow> tab ?m d = None" if "in_range d" for d
      unfolding tab using that c D(4) [of d] same_id_range [of d ?c] by auto
    fix b u assume b: "ct_heap ?m b = Some u" "ct_ConnID u \<noteq> -1"
    then have ba: "b \<noteq> a" "ct_heap m b = Some u" by (auto split: if_splits)
    then have u: "in_range (ct_ConnID u)" "tab m (ct_ConnID u) = Some (Some b)" using D(5) [of b u] b(2) by auto
    then have "ct_ConnID u \<noteq> ?c" using c(2) ba(1) by auto
    with u show "in_range (ct_ConnID u) \<and> tab ?m (ct_ConnID u) = Some (Some b)"
      unfolding tab using same_id_range c(1) by simp
  next
    fix d v assume "tab ?m d = Some v"
    then have d: "\<not> same_id d ?c" "tab m d = Some v" unfolding tab by (auto split: if_splits)
    then obtain b u where u: "v = Some b" "ct_heap m b = Some u" "same_id d (ct_ConnID u)" "in_range (ct_ConnID u)"
      using D(6) by blast
    moreover have "b \<noteq> a" using u(2,3) a d(1) by auto
    ultimately show "\<exists>b u. v = Some b \<and> ct_heap ?m b = Some u \<and> same_id d (ct_ConnID u) \<and> in_range (ct_ConnID u)"
      by auto
  next
    show "b < ct_brk ?m" if "ct_heap ?m b = Some u" for b u
      using that D(7) [of b u] by (simp split: if_splits)
  qed
  with eq show ?thesis by simp
qed

text \<open>Taking over the id and the resource of an older track.\<close>

lemma retrieve_eq:
  assumes inv: "ct_inv m" and a: "ct_heap m a = Some t" "ct_ConnID t = -1" and v: "tab m connid = Some v"
  obtains b old where "v = Some b" "ct_heap m b = Some old" "b \<noteq> a" "in_range (ct_ConnID old)"
    "same_id connid (ct_ConnID old)" "tab m (ct_ConnID old) = Some (Some b)"
    "retrieveConnectionTrack m a connid = Some (FUNC_RETURN_OK,
       m\<lparr>ct_heap := (ct_heap m)(a \<mapsto> copyOldTrack t old, b := None),
         Connections := ht_set (Connections m) (conn_key (ct_ConnID old)) (Some a)\<rparr>)"
proof -
  obtain b old where o: "v = Some b" "ct_heap m b = Some old" "same_id connid (ct_ConnID old)" "in_range (ct_ConnID old)"
    using ct_invD(6) [OF inv v] by blast
  have ba: "b \<noteq> a" using o(2,4) a by auto
  have id: "ct_ConnID (copyOldTrack t old) = ct_ConnID old" by (simp add: copyOldTrack_def)
  have "ct_ConnID old \<noteq> -1" using o(4) in_range_not_invalid by metis
  then have tb: "tab m (ct_ConnID old) = Some (Some b)"
    using ct_invD(5) [OF inv o(2)] by blast
  have "retrieveConnectionTrack m a connid = Some (FUNC_RETURN_OK,
       m\<lparr>ct_heap := (ct_heap m)(a \<mapsto> copyOldTrack t old, b := None),
         Connections := ht_set (Connections m) (conn_key (ct_ConnID old)) (Some a)\<rparr>)"
    using a o(1,2) ba v
    by (simp add: retrieveConnectionTrack_def getInUse_tab put_track_def returnConnectionTrack_def id
        freeUsedConnectionTrack_def trackConnectionTrack_def INVALID_CONNID_def fun_upd_twist)
  with o ba tb show ?thesis by (intro that)
qed

lemma inv_retrieve:
  assumes inv: "ct_inv m" and a: "ct_heap m a = Some t"
  shows "\<exists>res m'. retrieveConnectionTrack m a connid = Some (res, m') \<and> ct_inv m'"
proof (cases "ct_ConnID t = -1")
  case False
  then show ?thesis using a inv by (simp add: retrieveConnectionTrack_def)
next
  case none: True
  show ?thesis
  proof (cases "tab m connid")
    case None
    then show ?thesis
      using a none inv_put [OF inv a, of "transformConnectionTrackProgress t CONN_PP_TRANSFORM_ERROR"]
      by (simp add: retrieveConnectionTrack_def getInUse_tab transformConnectionTrackProgress_def)
  next
    case (Some v)
    obtain b old where o: "v = Some b" "ct_heap m b = Some old" "b \<noteq> a" "in_range (ct_ConnID old)"
      "same_id connid (ct_ConnID old)" "tab m (ct_ConnID old) = Some (Some b)"
      "retrieveConnectionTrack m a connid = Some (FUNC_RETURN_OK,
         m\<lparr>ct_heap := (ct_heap m)(a \<mapsto> copyOldTrack t old, b := None),
           Connections := ht_set (Connections m) (conn_key (ct_ConnID old)) (Some a)\<rparr>)"
      by (rule retrieve_eq [OF inv a none Some])
    let ?c = "ct_ConnID old"
    let ?m = "m\<lparr>ct_heap := (ct_heap m)(a \<mapsto> copyOldTrack t old, b := None),
      Connections := ht_set (Connections m) (conn_key ?c) (Some a)\<rparr>"
    note D = ct_invD [OF inv]
    have id: "ct_ConnID (copyOldTrack t old) = ?c" by (simp add: copyOldTrack_def)
    have tab: "tab ?m d = (if same_id d ?c then Some (Some a) else tab m d)" for d
      using tab_laws(1) [OF D(1)] by (simp add: tab_def)
    have "ct_inv ?m"
    proof (rule ct_invI)
      show "ht_inv HASHTABLE_Hash_UINT32 HASHTABLE_Comp_UINT32 (\<lambda>_. True) (Connections ?m)"
        using tab_laws(3) [OF D(1)] by simp
      show "distinct (FreeConnIDs ?m)" using D(2) by simp
      show "in_range d" if "d \<in> set (FreeConnIDs ?m)" for d using that D(3) [of d] by simp
      show "d \<in> set (FreeConnIDs ?m) \<longleftrightarrow> tab ?m d = None" if "in_range d" for d
        unfolding tab using that o(4,6) D(4) [of d] same_id_range [of d ?c] by auto
      fix e u assume e: "ct_heap ?m e = Some u" "ct_ConnID u \<noteq> -1"
      show "in_range (ct_ConnID u) \<and> tab ?m (ct_ConnID u) = Some (Some e)"
      proof (cases "e = a")
        case True
        then have "ct_ConnID u = ?c" using e(1) o(3) id by auto
        then show ?thesis using o(4) True unfolding tab by simp
      next
        case False
        then have "ct_heap m e = Some u" "e \<noteq> b" using e(1) by (auto split: if_splits)
        then have u: "in_range (ct_ConnID u)" "tab m (ct_ConnID u) = Some (Some e)" using D(5) [of e u] e(2) by auto
        then have "ct_ConnID u \<noteq> ?c" using o(6) \<open>e \<noteq> b\<close> by auto
        with u show ?thesis unfolding tab using same_id_range o(4) by simp
      qed
    next
      fix d w assume w: "tab ?m d = Some w"
      show "\<exists>e u. w = Some e \<and> ct_heap ?m e = Some u \<and> same_id d (ct_ConnID u) \<and> in_range (ct_ConnID u)"
      proof (cases "same_id d ?c")
        case True
        then show ?thesis using w o(3,4) id unfolding tab by auto
      next
        case False
        then obtain e u where u: "w = Some e" "ct_heap m e = Some u" "same_id d (ct_ConnID u)" "in_range (ct_ConnID u)"
          using D(6) [of d w] w unfolding tab by auto
        moreover have "e \<noteq> a" using u(2,4) a none by auto
        moreover have "e \<noteq> b" using u(2,3) o(2) False by auto
        ultimately show ?thesis by auto
      qed
    next
      show "e < ct_brk ?m" if "ct_heap ?m e = Some u" for e u
        using that D(7) [of e] a by (auto split: if_splits)
    qed
    with o(7) show ?thesis by blast
  qed
qed

section \<open>Runs\<close>

text \<open>What the communication layer and the handlers do with tracks: accept a connection, register it (with a
  track that has no id yet), look an older track up, change anything but the id (\<^verbatim>\<open>Progress\<close>, messages,
  counters), queue and send messages, and give a track back.\<close>

inductive ct_step :: "ConnectionTrackManager \<Rightarrow> ConnectionTrackManager \<Rightarrow> bool" where
  accept: "useConnectionTrack m = (FUNC_RETURN_OK, Some a, m') \<Longrightarrow> ct_step m m'"
| register: "ct_heap m a = Some t \<Longrightarrow> ct_ConnID t = -1 \<Longrightarrow> registerConnID m a = Some (res, m') \<Longrightarrow> ct_step m m'"
| retrieve: "ct_heap m a = Some t \<Longrightarrow> retrieveConnectionTrack m a connid = Some (res, m') \<Longrightarrow> ct_step m m'"
| change: "ct_heap m a = Some t \<Longrightarrow> ct_ConnID t' = ct_ConnID t \<Longrightarrow> ct_step m (put_track m a t')"
| lists: "ct_step m (m\<lparr>ConnHavingRequests := reqs, ConnToSend := sends\<rparr>)"
| message: "addNewMessageToConnTrack m a mid mark1 mark2 buffer sz = Some m' \<Longrightarrow> ct_step m m'"
| response: "buildResponseIntoConnTrack m a content sz mark1 mark2 mid = Some m' \<Longrightarrow> ct_step m m'"
| cleanup: "cleanupConnTrack m userdata = Some (given_back, m') \<Longrightarrow> ct_step m m'"
| return_track: "returnConnectionTrack m a = Some m' \<Longrightarrow> ct_step m m'"

inductive ct_reach :: "ConnectionTrackManager \<Rightarrow> bool" where
  initial: "ct_reach initializeConnectionTrackManager"
| step: "ct_reach m \<Longrightarrow> ct_step m m' \<Longrightarrow> ct_reach m'"

lemma inv_lists: "ct_inv m \<Longrightarrow> ct_inv (m\<lparr>ConnHavingRequests := reqs, ConnToSend := sends\<rparr>)"
  by (simp add: ct_inv_def tab_def)

lemma inv_requests: "ct_inv m \<Longrightarrow> ct_inv (m\<lparr>ConnHavingRequests := reqs\<rparr>)"
  by (simp add: ct_inv_def tab_def)

lemma inv_return_Some: "ct_inv m \<Longrightarrow> returnConnectionTrack m a = Some m' \<Longrightarrow> ct_inv m'"
  using inv_return by (cases "ct_heap m a") (fastforce simp: returnConnectionTrack_def)+

lemma inv_message:
  assumes inv: "ct_inv m" and msg: "addNewMessageToConnTrack m a mid mark1 mark2 buffer sz = Some m'"
  shows "ct_inv m'"
proof -
  obtain t where t: "ct_heap m a = Some t" using msg by (cases "ct_heap m a") (auto simp: addNewMessageToConnTrack_def)
  then obtain b where "m' = (put_track m a (t\<lparr>ct_MessageID := mid, ct_MessageMark1 := mark1, ct_MessageMark2 := mark2,
      ct_MessageSize := sz, ct_MessageBuff := b\<rparr>))\<lparr>ConnHavingRequests := ConnHavingRequests m @ [a]\<rparr>"
    using msg by (auto simp: addNewMessageToConnTrack_def put_track_def Let_def bind_eq_Some_conv)
  then show ?thesis using inv_requests [OF inv_put [OF inv t]] by simp
qed

lemma inv_response:
  assumes inv: "ct_inv m" and msg: "buildResponseIntoConnTrack m a content sz mark1 mark2 mid = Some m'"
  shows "ct_inv m'"
proof -
  obtain t where t: "ct_heap m a = Some t" using msg by (cases "ct_heap m a") (auto simp: buildResponseIntoConnTrack_def)
  then obtain t' where "m' = put_track m a t'" "ct_ConnID t' = ct_ConnID t"
    using msg by (auto simp: buildResponseIntoConnTrack_def setConnectionTrackMessageBuffer_def Let_def bind_eq_Some_conv)
  then show ?thesis using inv_put [OF inv t] by simp
qed

lemma inv_cleanup:
  assumes inv: "ct_inv m" and cl: "cleanupConnTrack m userdata = Some (given_back, m')"
  shows "ct_inv m'"
proof (cases userdata)
  case None
  then show ?thesis using cl inv by (simp add: cleanupConnTrack_def)
next
  case (Some a)
  obtain t where t: "ct_heap m a = Some t" using cl Some by (cases "ct_heap m a") (auto simp: cleanupConnTrack_def)
  show ?thesis
    using cl Some t inv_put [OF inv t, of "t\<lparr>ct_CommBuffer := None\<rparr>"] inv_return_Some [OF inv]
    by (auto simp: cleanupConnTrack_def bind_eq_Some_conv split: if_splits)
qed

lemma ct_step_inv: "ct_step m m' \<Longrightarrow> ct_inv m \<Longrightarrow> ct_inv m'"
proof (induction rule: ct_step.induct)
  case (register m a t res m')
  then show ?case using inv_register [of m a t] by auto
next
  case (retrieve m a t connid res m')
  then show ?case using inv_retrieve [of m a t connid] by auto
qed (auto intro: inv_accept inv_put inv_lists inv_message inv_response inv_cleanup inv_return_Some)

lemma ct_reach_inv: "ct_reach m \<Longrightarrow> ct_inv m"
  by (induction rule: ct_reach.induct) (auto intro: ct_inv_initial ct_step_inv)





text \<open>A state with one registered connection.\<close>

definition one_conn :: ConnectionTrackManager where
  "one_conn = (let m = initializeConnectionTrackManager in
     m\<lparr>FreeConnIDs := [1..HAWQRM_QD_CONNECTION_MAX_CAPABILITY - 1], ct_heap := (ct_heap m)(1 \<mapsto> createEmptyConnectionTrack\<lparr>ct_ConnID := 0\<rparr>), ct_brk := 2,
       Connections := ht_set (Connections m) (conn_key 0) (Some 1)\<rparr>)"

lemma one_conn_free: "[1..HAWQRM_QD_CONNECTION_MAX_CAPABILITY - 1] \<noteq> []"
proof -
  have "1 \<in> set [1..HAWQRM_QD_CONNECTION_MAX_CAPABILITY - 1]"
    unfolding set_upto by (simp add: HAWQRM_QD_CONNECTION_MAX_CAPABILITY_def)
  then show ?thesis by (metis list.set(1) empty_iff)
qed

lemma one_conn_facts:
  "ct_heap one_conn 1 = Some (createEmptyConnectionTrack\<lparr>ct_ConnID := 0\<rparr>)" "FreeConnIDs one_conn \<noteq> []"
  using one_conn_free by (simp_all add: one_conn_def Let_def)

lemma one_conn_reach: "ct_reach one_conn"
proof -
  let ?m0 = initializeConnectionTrackManager
  let ?m1 = "?m0\<lparr>ct_heap := (ct_heap ?m0)(1 \<mapsto> createEmptyConnectionTrack), ct_brk := 2\<rparr>"
  have "0 \<le> HAWQRM_QD_CONNECTION_MAX_CAPABILITY - 1" by (simp add: HAWQRM_QD_CONNECTION_MAX_CAPABILITY_def)
  from upto_rec1 [OF this] have ids: "FreeConnIDs ?m0 = 0 # [1..HAWQRM_QD_CONNECTION_MAX_CAPABILITY - 1]"
    by (simp add: initializeConnectionTrackManager_def)
  have "useConnectionTrack ?m0 = (FUNC_RETURN_OK, Some 1, ?m1)"
    using ids by (simp add: useConnectionTrack_def) (simp add: initializeConnectionTrackManager_def)
  then have "ct_reach ?m1" by (intro ct_reach.step [OF ct_reach.initial] ct_step.accept)
  moreover have "registerConnID ?m1 1 = Some (FUNC_RETURN_OK, one_conn)"
    by (simp add: registerConnID_def useConnectionID_def ids trackConnectionTrack_def put_track_def one_conn_def Let_def)
  then have "ct_step ?m1 one_conn"
    by (intro ct_step.register [of _ 1 createEmptyConnectionTrack]) (simp_all add: createEmptyConnectionTrack_def INVALID_CONNID_def)
  ultimately show ?thesis by (rule ct_reach.step)
qed

section \<open>Properties\<close>



text \<open>C20: Registering twice on one connection leaks an id: a track that unregistered keeps its id (its
  progress is back at \<^verbatim>\<open>CONN_PP_ESTABLISHED\<close>), a second registration overwrites it, and then the old id is
  neither free nor that of the track found under it.\<close>

theorem reregister_leaks_id:
  assumes "ct_reach m" "ct_heap m a = Some t" "ct_ConnID t \<noteq> -1" "FreeConnIDs m \<noteq> []"
  shows "\<exists>m' t'. registerConnID m a = Some (FUNC_RETURN_OK, m') \<and> ct_ConnID t \<notin> set (FreeConnIDs m') \<and>
    getInUseConnectionTrack m' (ct_ConnID t) = (FUNC_RETURN_OK, Some a) \<and> ct_heap m' a = Some t' \<and>
    ct_ConnID t' \<noteq> ct_ConnID t"
proof -
  note D = ct_invD [OF ct_reach_inv [OF assms(1)]]
  obtain c cs where free: "FreeConnIDs m = c # cs" using assms(4) by (cases "FreeConnIDs m") auto
  have c: "in_range c" "tab m c = None" using D(3) [of c] D(4) [of c] free by auto
  have t: "in_range (ct_ConnID t)" "tab m (ct_ConnID t) = Some (Some a)" using D(5) [OF assms(2,3)] by auto
  then have ne: "ct_ConnID t \<notin> set (FreeConnIDs m)" "ct_ConnID t \<noteq> c" using D(4) c by auto
  let ?t = "t\<lparr>ct_ConnID := c\<rparr>"
  let ?m = "m\<lparr>FreeConnIDs := cs, ct_heap := (ct_heap m)(a \<mapsto> ?t), Connections := ht_set (Connections m) (conn_key c) (Some a)\<rparr>"
  have "registerConnID m a = Some (FUNC_RETURN_OK, ?m)"
    using assms(2) free by (simp add: registerConnID_def useConnectionID_def trackConnectionTrack_def put_track_def)
  moreover have "tab ?m (ct_ConnID t) = Some (Some a)"
    using tab_laws(1) [OF D(1), of c "Some a" "ct_ConnID t"] t by (simp add: tab_def)
  ultimately show ?thesis using ne free by (intro exI [of _ ?m] exI [of _ ?t]) (simp add: getInUse_tab)
qed

theorem reregister_leaks_id_witness:
  "\<exists>m'. registerConnID one_conn 1 = Some (FUNC_RETURN_OK, m') \<and> 0 \<notin> set (FreeConnIDs m') \<and>
     getInUseConnectionTrack m' 0 = (FUNC_RETURN_OK, Some 1)"
  using reregister_leaks_id [OF one_conn_reach, of 1 "createEmptyConnectionTrack\<lparr>ct_ConnID := 0\<rparr>"]
    one_conn_facts by auto





end
