(* ===== verification/RM_Queue.thy ===== *)
theory RM_Queue
  imports RM_ConnTrack RM_Deadlock
begin

text \<open>
  The resource queues of \<^verbatim>\<open>resqueuemanager.c\<close>: the quota of a query, waiting in a queue, the dispatch of
  resource to the waiting queries and between the queues, and the return of resource.  Queue tracks and
  connection tracks live in heaps, which the operations pass on together with the pool, the ratio part of the
  manager and the session trackers; \<^term>\<open>None\<close> is the access to a bad pointer, or a loop that does not end.
  The queues of waiting requests are sequences (theory \<open>RM_DQueue\<close> shows that the linked lists behave so).
\<close>

section \<open>Queues and their tracks\<close>

record DynResourceQueue =
  rq_OID :: int
  rq_ParentOID :: int
  rq_ParallelCount :: int
  rq_ClusterMemoryMB :: int
  rq_Status :: uint32
  rq_ClusterVCore :: double
  rq_SegResourceQuotaVCore :: double
  rq_SegResourceQuotaMemoryMB :: int
  rq_ResourceUpperFactor :: double
  rq_VSegUpperLimit :: int
  rq_AllocatePolicy :: int
  rq_ClusterMemoryPer :: double
  rq_ClusterVCorePer :: double
  rq_Name :: "uint8 list"

record DynResourceQueueTrack =
  qt_QueueInfo :: DynResourceQueue
  qt_ParentTrack :: ptr
  qt_ChildrenTracks :: "addr list"
  qt_CurConnCounter :: uint32
  qt_QueryResRequests :: "addr list"
  qt_MemCoreRatio :: uint32
  qt_RatioIndex :: int
  qt_ClusterSegNumber :: int
  qt_ClusterSegNumberMax :: int
  qt_ClusterMemoryMaxMB :: int
  qt_ClusterVCoreMax :: double
  qt_ClusterMemoryActPer :: double
  qt_ClusterMemoryMaxPer :: double
  qt_ClusterVCoreActPer :: double
  qt_ClusterVCoreMaxPer :: double
  qt_TotalAllocated :: ResourceBundle
  qt_TotalRequest :: ResourceBundle
  qt_TotalUsed :: ResourceBundle
  qt_trackedMemCoreRatio :: bool
  qt_isBusy :: bool
  qt_pauseAllocation :: bool
  qt_troubledByFragment :: bool
  qt_expectMoreResource :: bool
  qt_NumOfRunningQueries :: int
  qt_DLDetector :: ResqueueDeadLockDetector

text \<open>The global instances that the operations share.\<close>

record RMState =
  rm_conns :: ConnectionTrackManager
  rm_mgr :: DynResourceQueueManager
  rm_pool :: ResourcePool
  rm_tracks :: "addr \<rightharpoonup> DynResourceQueueTrack"
  rm_sessions :: sheap

datatype RB_IMP_TYPE = YARN_LIBYARN | NONE_HAWQ2

text \<open>The configuration and the environment: the resolver of host names, the limits set by the user, the
  representation of a double in memory, and the clock, which an operation reads once.\<close>

record RMConfig =
  cf_resolve :: resolver
  cf_slice_num_per_seg_limit :: int
  cf_force_fifo_queue :: bool
  cf_allocation_policy :: int
  cf_ImpType :: RB_IMP_TYPE
  cf_double_bytes :: "double \<Rightarrow> uint8 list"
  cf_now :: uint64

definition put_track1 :: "RMState \<Rightarrow> addr \<Rightarrow> DynResourceQueueTrack \<Rightarrow> RMState" where
  "put_track1 g q t = g\<lparr>rm_tracks := (rm_tracks g)(q \<mapsto> t)\<rparr>"

definition put_conn :: "RMState \<Rightarrow> addr \<Rightarrow> ConnectionTrack \<Rightarrow> RMState" where
  "put_conn g a c = g\<lparr>rm_conns := put_track (rm_conns g) a c\<rparr>"

abbreviation conn_at :: "RMState \<Rightarrow> addr \<Rightarrow> ConnectionTrack option" where
  "conn_at g \<equiv> ct_heap (rm_conns g)"

section \<open>Limits of the ratios\<close>

text \<open>The queue tracks of a ratio.\<close>

fun tracks_of :: "RMState \<Rightarrow> addr list \<Rightarrow> DynResourceQueueTrack list option" where
  "tracks_of g [] = Some []"
| "tracks_of g (q # qs) = do { t \<leftarrow> rm_tracks g q; ts \<leftarrow> tracks_of g qs; Some (t # ts) }"

definition refreshRatioLimit :: "RMState \<Rightarrow> int \<Rightarrow> RMState option" where
  "refreshRatioLimit g i = do {
     mc \<leftarrow> ratio_tracker (rm_mgr g) i;
     ts \<leftarrow> tracks_of g (mt_QueueTrackers mc);
     let busy = filter qt_isBusy ts;
     Some (g\<lparr>rm_mgr := put_tracker (rm_mgr g) i
       (mc\<lparr>mt_ClusterMemoryMaxMB := sum_list (map qt_ClusterMemoryMaxMB busy),
           mt_ClusterVCoreMax := sum_list (map qt_ClusterVCoreMax busy),
           mt_ClusterMemory := sum_list (map (\<lambda>t. rq_ClusterMemoryMB (qt_QueueInfo t)) busy),
           mt_ClusterVCore := sum_list (map (\<lambda>t. rq_ClusterVCore (qt_QueueInfo t)) busy)\<rparr>)\<rparr>)
   }"

definition refreshMemoryCoreRatioLimits :: "RMState \<Rightarrow> RMState option" where
  "refreshMemoryCoreRatioLimits g = fold_opt refreshRatioLimit g [0..RatioCount (rm_mgr g) - 1]"

text \<open>The quotients of doubles may be infinite or undefined; \<open>fgt\<close> is the comparison of them.\<close>

datatype fquot = Fin double | PInf | MInf | NaN

definition fdiv :: "double \<Rightarrow> double \<Rightarrow> fquot" where
  "fdiv x y = (if y \<noteq> 0 then Fin (x / y) else if x > 0 then PInf else if x < 0 then MInf else NaN)"

fun fgt :: "fquot \<Rightarrow> fquot \<Rightarrow> bool" where
  "fgt (Fin x) (Fin y) \<longleftrightarrow> x > y"
| "fgt PInf (Fin y) \<longleftrightarrow> True"
| "fgt PInf MInf \<longleftrightarrow> True"
| "fgt (Fin x) MInf \<longleftrightarrow> True"
| "fgt _ _ \<longleftrightarrow> False"

fun trackers_upto :: "DynResourceQueueManager \<Rightarrow> int list \<Rightarrow> DynMemoryCoreRatioTrack list option" where
  "trackers_upto m [] = Some []"
| "trackers_upto m (i # is) = do { mc \<leftarrow> ratio_tracker m i; mcs \<leftarrow> trackers_upto m is; Some (mc # mcs) }"

definition setWeightMarker :: "fquot \<Rightarrow> DynResourceQueueManager \<Rightarrow> int \<Rightarrow> DynResourceQueueManager option" where
  "setWeightMarker overcommit m i = do {
     mc \<leftarrow> ratio_tracker m i;
     Some (put_tracker m i (mc\<lparr>mt_ClusterWeightMarker :=
       (case overcommit of Fin x \<Rightarrow> of_int (mt_ClusterMemoryMaxMB mc) / x | _ \<Rightarrow> 0)\<rparr>))
   }"

definition refreshMemoryCoreRatioWaterMark :: "RMConfig \<Rightarrow> RMState \<Rightarrow> RMState option" where
  "refreshMemoryCoreRatioWaterMark cf g = do {
     let is = [0..RatioCount (rm_mgr g) - 1];
     mcs \<leftarrow> trackers_upto (rm_mgr g) is;
     let totalweightmem = sum_list (map (\<lambda>mc. of_int (mt_ClusterMemory mc)) mcs);
     let totalweightcore = sum_list (map mt_ClusterVCore mcs);
     let whole = (case cf_ImpType cf of YARN_LIBYARN \<Rightarrow> GRMTotal (rm_pool g) | NONE_HAWQ2 \<Rightarrow> FTSTotal (rm_pool g));
     let overcommitmem = fdiv totalweightmem (of_int (rb_MemoryMB whole));
     let overcommitcore = fdiv totalweightcore (rb_Core whole);
     let overcommit = (if fgt overcommitmem overcommitcore then overcommitmem else overcommitcore);
     let overcommit = (if fgt overcommit (Fin 1) then overcommit else Fin 1);
     m \<leftarrow> fold_opt (setWeightMarker overcommit) (rm_mgr g) is;
     Some (g\<lparr>rm_mgr := m\<rparr>)
   }"

section \<open>The quota of a query\<close>

definition rm_min :: "int \<Rightarrow> int \<Rightarrow> int" where
  "rm_min a b = (if a > b then b else a)"

definition rm_max :: "int \<Rightarrow> int \<Rightarrow> int" where
  "rm_max a b = (if a < b then b else a)"

text \<open>The two policies; they return the segment number and the minimum one.\<close>

definition computeQueryQuota_EVEN :: "DynResourceQueueTrack \<Rightarrow> int \<Rightarrow> (int \<times> int) option" where
  "computeQueryQuota_EVEN track segnumlimit =
     (if rq_ParallelCount (qt_QueueInfo track) = 0 then None
      else
        let reservsegnum = c_div (qt_ClusterSegNumber track) (rq_ParallelCount (qt_QueueInfo track));
            reservsegnum = (if reservsegnum \<le> 0 then 1 else reservsegnum);
            segnum = qt_ClusterSegNumberMax track;
            segnum = (if segnumlimit < segnum then segnumlimit else segnum);
            segnummin = reservsegnum;
            segnummin = (if segnummin > segnum then segnum else segnummin)
        in Some (segnum, segnummin))"

definition computeQueryQuota_FIFO :: "DynResourceQueueTrack \<Rightarrow> int \<Rightarrow> (int \<times> int) option" where
  "computeQueryQuota_FIFO track segnumlimit =
     (if rq_ParallelCount (qt_QueueInfo track) = 0 then None
      else
        let segnum = qt_ClusterSegNumberMax track;
            segnummin = qt_ClusterSegNumber track
        in Some (if segnumlimit < segnum then segnumlimit else segnum, segnummin))"

definition AllocationPolicy :: "int \<Rightarrow> DynResourceQueueTrack \<Rightarrow> int \<Rightarrow> (int \<times> int) option" where
  "AllocationPolicy policy =
     (if policy = 0 then computeQueryQuota_EVEN else if policy = 1 then computeQueryQuota_FIFO else (\<lambda>_ _. None))"

text \<open>Both callers pass the fields of a connection track, and its \<^verbatim>\<open>VSegLimit\<close> as the limit.\<close>

definition computeQueryQuota :: "DynResourceQueueTrack \<Rightarrow> ConnectionTrack \<Rightarrow> (drm_code \<times> ConnectionTrack) option" where
  "computeQueryQuota track c = do {
     let policy = rq_AllocatePolicy (qt_QueueInfo track);
     let c = c\<lparr>ct_SegMemoryMB := rq_SegResourceQuotaMemoryMB (qt_QueueInfo track),
               ct_SegCore := rq_SegResourceQuotaVCore (qt_QueueInfo track)\<rparr>;
     if ct_MinSegCountFixed c > ct_VSegLimit c then Some (RESQUEMGR_TOO_MANY_FIXED_SEGNUM, c)
     else do {
       let c = c\<lparr>ct_MaxSegCountFixed := (if ct_MaxSegCountFixed c > ct_VSegLimit c then ct_VSegLimit c else ct_MaxSegCountFixed c)\<rparr>;
       (segnum, segnummin) \<leftarrow> AllocationPolicy policy track (ct_VSegLimit c);
       let c = c\<lparr>ct_SegNum := segnum, ct_SegNumMin := segnummin\<rparr>;
       if ct_SegNum c < ct_MinSegCountFixed c then Some (RESQUEMGR_TOO_MANY_FIXED_SEGNUM, c)
       else Some (FUNC_RETURN_OK, c\<lparr>ct_SegNumMin := ct_MinSegCountFixed c\<rparr>)
     }
   }"

text \<open>The decision on the segment numbers, which \<^verbatim>\<open>acquireResourceFromResQueMgr\<close> and
  \<^verbatim>\<open>acquireResourceQuotaFromResQueMgr\<close> share.\<close>

definition decideSegNums :: "DynResourceQueueTrack \<Rightarrow> uint32 \<Rightarrow> ConnectionTrack \<Rightarrow> drm_code \<times> ConnectionTrack" where
  "decideSegNums track availnodecount c =
     (let Rmax = ct_SegNum c;
          RmaxL = sint (of_int (ct_VSegLimitPerSeg c) * availnodecount);
          Rmin = ct_SegNumMin c;
          limit = rq_VSegUpperLimit (qt_QueueInfo track);
          Gmax = (if ct_MaxSegCountFixed c > limit \<and> ct_MinSegCountFixed c \<le> limit then limit else ct_MaxSegCountFixed c);
          Gmin = ct_MinSegCountFixed c
      in
      if Gmin = 1 then
        let c = c\<lparr>ct_SegNumMin := rm_min (rm_min Gmax Rmin) RmaxL, ct_SegNum := rm_min Gmax RmaxL\<rparr>
        in (if ct_SegNumMin c > ct_SegNum c then RESQUEMGR_NO_RESOURCE else FUNC_RETURN_OK, c)
      else if Gmax = Gmin then
        let c = c\<lparr>ct_SegNumMin := Gmax, ct_SegNum := Gmax\<rparr>
        in (if Rmax < Gmax then RESQUEMGR_NO_RESOURCE else FUNC_RETURN_OK, c)
      else
        let c = c\<lparr>ct_SegNumMin := rm_min (rm_max Gmin Rmin) Gmax,
                  ct_SegNum := rm_min (rm_max (rm_min RmaxL Gmax) Gmin) Rmax\<rparr>
        in (if ct_SegNumMin c > ct_SegNum c then RESQUEMGR_NO_RESOURCE else FUNC_RETURN_OK, c))"

section \<open>Waiting for resource\<close>

definition addQueryResourceRequestToQueue :: "RMConfig \<Rightarrow> RMState \<Rightarrow> addr \<Rightarrow> addr \<Rightarrow> RMState option" where
  "addQueryResourceRequestToQueue cf g q a = do {
     t \<leftarrow> rm_tracks g q;
     c \<leftarrow> conn_at g a;
     let t = t\<lparr>qt_QueryResRequests := qt_QueryResRequests t @ [a],
               qt_TotalRequest := addResourceBundleData (qt_TotalRequest t)
                 (ct_SegMemoryMB c * ct_SegNum c) (ct_SegCore c * of_int (ct_SegNum c))\<rparr>;
     (h, d) \<leftarrow> createAndLockSessionResource (rm_sessions g) (qt_DLDetector t) (of_int (ct_SessionID c));
     let t = t\<lparr>qt_DLDetector := d\<rparr>;
     let g = g\<lparr>rm_sessions := h\<rparr>;
     let g = (if dl_LockedTotalMemoryMB d > 0 then g\<lparr>rm_mgr := (rm_mgr g)\<lparr>ForcedReturnGRMContainerCount := 0\<rparr>\<rparr> else g);
     g \<leftarrow> (if \<not> qt_isBusy t then do {
             g \<leftarrow> refreshMemoryCoreRatioLimits (put_track1 g q (t\<lparr>qt_isBusy := True\<rparr>));
             refreshMemoryCoreRatioWaterMark cf g
           }
           else Some (put_track1 g q t));
     Some (g\<lparr>rm_mgr := (rm_mgr g)\<lparr>toRunQueryDispatch := True\<rparr>\<rparr>)
   }"

definition acquireResourceFromResQueMgr :: "RMConfig \<Rightarrow> RMState \<Rightarrow> addr \<Rightarrow> (drm_code \<times> RMState) option" where
  "acquireResourceFromResQueMgr cf g a = do {
     c \<leftarrow> conn_at g a;
     q \<leftarrow> ct_QueueTrack c;
     t \<leftarrow> rm_tracks g q;
     if qt_ClusterSegNumberMax t = 0 then Some (RESQUEMGR_NO_RESOURCE, g)
     else do {
       (res, c) \<leftarrow> computeQueryQuota t c;
       if res \<noteq> FUNC_RETURN_OK
       then Some (res, put_conn g a (transformConnectionTrackProgress c CONN_PP_RESOURCE_ACQUIRE_FAIL))
       else
         let (res, c) = decideSegNums t (AvailNodeCount (rm_pool g)) c in
         if res \<noteq> FUNC_RETURN_OK then Some (res, put_conn g a c)
         else do {
           g \<leftarrow> addQueryResourceRequestToQueue cf (put_conn g a c) q a;
           c \<leftarrow> conn_at g a;
           Some (FUNC_RETURN_OK, put_conn g a (transformConnectionTrackProgress c CONN_PP_RESOURCE_QUEUE_ALLOC_WAIT))
         }
     }
   }"

section \<open>Responses\<close>

definition le32 :: "uint32 \<Rightarrow> byte list" where
  "le32 w = map (\<lambda>i. Some (ucast (drop_bit (8 * i) w))) [0..<4]"

definition RESPONSE_QD_ACQUIRE_RESOURCE :: uint16 where
  "RESPONSE_QD_ACQUIRE_RESOURCE = 2307"

text \<open>The values of the error codes that are sent to a waiting query.\<close>

definition reason_DEADLOCK_DETECTED :: uint32 where
  "reason_DEADLOCK_DETECTED = 128"

definition reason_NOCLUSTER_TIMEOUT :: uint32 where
  "reason_NOCLUSTER_TIMEOUT = 129"

definition reason_NORESOURCE_TIMEOUT :: uint32 where
  "reason_NORESOURCE_TIMEOUT = 130"

text \<open>The response head, with its numbers in the order of the struct.\<close>

definition responseHead :: "RMConfig \<Rightarrow> ConnectionTrack \<Rightarrow> byte list" where
  "responseHead cf c =
     le32 0 @ le32 0 @ le32 (of_int (ct_SegNumActual c)) @ le32 (of_int (ct_SegMemoryMB c)) @
     map Some (cf_double_bytes cf (ct_SegCore c)) @ le32 (of_nat (length (ct_Resource c))) @ le32 0"

text \<open>The offset of each virtual segment's host, while the host information is collected.\<close>

fun hostOffsets ::
    "(addr \<rightharpoonup> SegResource) \<Rightarrow> uint32 \<Rightarrow> VSegmentCounterInternal list \<Rightarrow> SelfMaintainBuffer
     \<Rightarrow> (uint32 list \<times> SelfMaintainBuffer) option" where
  "hostOffsets heap base [] machineids = Some ([], machineids)"
| "hostOffsets heap base (v # vs) machineids = do {
     s \<leftarrow> heap (vs_Resource v);
     let offs = replicate (unat (vs_VSegmentCount v)) (base + of_int (getSMBContentSize machineids));
     machineids \<leftarrow> appendSelfMaintainBuffer machineids (map Some (st_Info (sr_Stat s))) (of_nat (length (st_Info (sr_Stat s))));
     (rest, machineids) \<leftarrow> hostOffsets heap base vs machineids;
     Some (offs @ rest, machineids)
   }"

definition buildAcquireResourceResponseMessage :: "RMConfig \<Rightarrow> RMState \<Rightarrow> addr \<Rightarrow> RMState option" where
  "buildAcquireResourceResponseMessage cf g a = do {
     c \<leftarrow> conn_at g a;
     let head = responseHead cf c;
     b \<leftarrow> appendSelfMaintainBuffer (resetSelfMaintainBuffer (ct_MessageBuff c)) head (of_nat (length head));
     let hdfsidxsize = of_int (SIZE_ALIGN64 (4 * ct_SegNumActual c));
     b \<leftarrow> prepareSelfMaintainBuffer b hdfsidxsize True;
     let indices = concat (map (\<lambda>v. concat (replicate (unat (vs_VSegmentCount v)) (le32 (vs_HDFSNameIndex v)))) (ct_Resource c));
     bs \<leftarrow> smb_Buffer b;
     bs \<leftarrow> write_bytes bs (smb_Cursor b + 1) indices;
     let b = jumpforwardSelfMaintainBuffer (b\<lparr>smb_Buffer := Some bs\<rparr>) hdfsidxsize;
     let messagecursize = of_int (getSMBContentSize b);
     let hoffsetsize = of_int (SIZE_ALIGN64 (4 * ct_SegNumActual c));
     (offs, machineids) \<leftarrow> hostOffsets (rp_heap (rm_pool g)) (messagecursize + hoffsetsize) (ct_Resource c) (initializeSelfMaintainBuffer 0);
     hoffsetarray \<leftarrow> write_bytes (replicate (unat hoffsetsize) (Some 0)) 0 (concat (map le32 offs));
     b \<leftarrow> appendSelfMaintainBuffer b hoffsetarray hoffsetsize;
     b \<leftarrow> appendSelfMaintainBuffer b (case smb_Buffer machineids of None \<Rightarrow> [] | Some bs \<Rightarrow> bs) (of_int (smb_Cursor machineids + 1));
     let c = c\<lparr>ct_MessageBuff := b, ct_MessageSize := of_int (smb_Cursor b + 1), ct_MessageID := RESPONSE_QD_ACQUIRE_RESOURCE,
               ct_ResAllocTime := cf_now cf\<rparr>;
     let g = put_conn g a c;
     Some (g\<lparr>rm_conns := (rm_conns g)\<lparr>ConnToSend := ConnToSend (rm_conns g) @ [a]\<rparr>\<rparr>)
   }"

text \<open>An error response to a waiting query, which ends its wait with the given progress.\<close>

definition sendErrorResponse :: "RMState \<Rightarrow> addr \<Rightarrow> uint32 \<Rightarrow> CONN_PROCESS_PROGRESSES \<Rightarrow> RMState option" where
  "sendErrorResponse g a reason progress = do {
     c \<leftarrow> conn_at g a;
     m \<leftarrow> buildResponseIntoConnTrack (rm_conns g) a (le32 reason @ le32 0) 8 (ct_MessageMark1 c) (ct_MessageMark2 c)
           RESPONSE_QD_ACQUIRE_RESOURCE;
     c \<leftarrow> ct_heap m a;
     let m = put_track m a ((transformConnectionTrackProgress c progress)\<lparr>ct_ResponseSent := False\<rparr>);
     Some (g\<lparr>rm_conns := m\<lparr>ConnToSend := ConnToSend m @ [a]\<rparr>\<rparr>)
   }"

definition buildTimeoutResponseForQueuedRequest :: "RMState \<Rightarrow> addr \<Rightarrow> uint32 \<Rightarrow> RMState option" where
  "buildTimeoutResponseForQueuedRequest g a reason = sendErrorResponse g a reason CONN_PP_TIMEOUT_FAIL"

section \<open>Cancelling and returning\<close>

definition returnConnectionToQueue :: "RMConfig \<Rightarrow> RMState \<Rightarrow> addr \<Rightarrow> bool \<Rightarrow> RMState option" where
  "returnConnectionToQueue cf g a normally = do {
     c \<leftarrow> conn_at g a;
     q \<leftarrow> ct_QueueTrack c;
     t \<leftarrow> rm_tracks g q;
     let g = (if normally then put_conn g a (transformConnectionTrackProgress c CONN_PP_ESTABLISHED) else g);
     let t = t\<lparr>qt_CurConnCounter := qt_CurConnCounter t - 1\<rparr>;
     if qt_CurConnCounter t = 0 then do {
       g \<leftarrow> refreshMemoryCoreRatioLimits (put_track1 g q (t\<lparr>qt_isBusy := False\<rparr>));
       refreshMemoryCoreRatioWaterMark cf g
     }
     else Some (put_track1 g q t)
   }"

definition unlockInQueue :: "RMState \<Rightarrow> addr \<Rightarrow> int \<Rightarrow> RMState option" where
  "unlockInQueue g q sessionid = do {
     t \<leftarrow> rm_tracks g q;
     (h, d) \<leftarrow> unlockSessionResource (rm_sessions g) (qt_DLDetector t) (of_int sessionid);
     Some (put_track1 (g\<lparr>rm_sessions := h\<rparr>) q (t\<lparr>qt_DLDetector := d\<rparr>))
   }"

definition cancelResourceAllocRequest :: "RMState \<Rightarrow> addr \<Rightarrow> RMState option" where
  "cancelResourceAllocRequest g a = do {
     c \<leftarrow> conn_at g a;
     q \<leftarrow> ct_QueueTrack c;
     t \<leftarrow> rm_tracks g q;
     let g = put_track1 g q (t\<lparr>qt_QueryResRequests := remove1 a (qt_QueryResRequests t)\<rparr>);
     g \<leftarrow> unlockInQueue g q (ct_SessionID c);
     buildTimeoutResponseForQueuedRequest g a reason_NORESOURCE_TIMEOUT
   }"

definition returnAllocatedResourceToLeafQueue :: "DynResourceQueueTrack \<Rightarrow> int \<Rightarrow> double \<Rightarrow> DynResourceQueueTrack" where
  "returnAllocatedResourceToLeafQueue track memorymb core =
     track\<lparr>qt_TotalUsed := minusResourceBundleData (qt_TotalUsed track) memorymb core\<rparr>"

definition returnResourceToResQueMgr :: "RMState \<Rightarrow> addr \<Rightarrow> RMState option" where
  "returnResourceToResQueMgr g a = do {
     c \<leftarrow> conn_at g a;
     q \<leftarrow> ct_QueueTrack c;
     t \<leftarrow> rm_tracks g q;
     let mem = ct_SegMemoryMB c * ct_SegNumActual c;
     let core = ct_SegCore c * of_int (ct_SegNumActual c);
     (h, t) \<leftarrow>
       (if \<not> ct_isOld c then do {
          let t = returnAllocatedResourceToLeafQueue t mem core;
          if ct_SessionID c \<ge> 0 then do {
            (res, h, d) \<leftarrow> minusSessionInUserResource (rm_sessions g) (qt_DLDetector t) (of_int (ct_SessionID c)) (of_int mem) core;
            Some (h, t\<lparr>qt_DLDetector := d\<rparr>)
          }
          else Some (rm_sessions g, t)
        }
        else Some (rm_sessions g, t));
     let g = put_track1 (g\<lparr>rm_sessions := h\<rparr>) q (t\<lparr>qt_NumOfRunningQueries := qt_NumOfRunningQueries t - 1\<rparr>);
     p \<leftarrow> returnResourceToResourcePool (rm_mgr g) (rm_pool g) (ct_SegMemoryMB c) (ct_SegCore c) (ct_SegIOBytes c) (ct_SliceSize c)
           (ct_Resource c) (ct_isOld c);
     let g = put_conn (g\<lparr>rm_pool := p\<rparr>) a (transformConnectionTrackProgress (c\<lparr>ct_Resource := []\<rparr>) CONN_PP_REGISTER_DONE);
     Some (g\<lparr>rm_mgr := (rm_mgr g)\<lparr>toRunQueryDispatch := True\<rparr>\<rparr>)
   }"

section \<open>Deadlocks\<close>

text \<open>The request nearest to the tail whose session holds resource; the list is walked from the tail.\<close>

fun findHolder ::
    "RMState \<Rightarrow> ResqueueDeadLockDetector \<Rightarrow> addr list \<Rightarrow> (addr \<times> SessionTrack) option option" where
  "findHolder g d [] = Some None"
| "findHolder g d (a # as) = do {
     c \<leftarrow> conn_at g a;
     case findSession d (of_int (ct_SessionID c)) of
       None \<Rightarrow> findHolder g d as
     | Some sa \<Rightarrow> do {
         s \<leftarrow> tracks (rm_sessions g) sa;
         if st_InUseTotalMemoryMB s > 0 then Some (Some (a, s)) else findHolder g d as
       }
   }"

definition cancelForDeadLock :: "RMState \<Rightarrow> addr \<Rightarrow> addr \<Rightarrow> RMState option" where
  "cancelForDeadLock g q a = do {
     t \<leftarrow> rm_tracks g q;
     c \<leftarrow> conn_at g a;
     let g = put_track1 g q (t\<lparr>qt_QueryResRequests := rev (remove1 a (rev (qt_QueryResRequests t)))\<rparr>);
     g \<leftarrow> unlockInQueue g q (ct_SessionID c);
     sendErrorResponse g a reason_DEADLOCK_DETECTED CONN_PP_RESOURCE_QUEUE_ALLOC_FAIL
   }"

record DeadLockState =
  dk_state :: RMState
  dk_availmemorymb :: uint32
  dk_availcore :: double

definition deadLockBody :: "addr \<Rightarrow> DynResourceQueueTrack \<Rightarrow> DeadLockState \<Rightarrow> DeadLockState option" where
  "deadLockBody q t dk = do {
     holder \<leftarrow> findHolder (dk_state dk) (qt_DLDetector t) (rev (qt_QueryResRequests t));
     case holder of
       None \<Rightarrow> Some dk
     | Some (a, s) \<Rightarrow> do {
         g \<leftarrow> cancelForDeadLock (dk_state dk) q a;
         Some (dk\<lparr>dk_state := g, dk_availmemorymb := dk_availmemorymb dk + st_InUseTotalMemoryMB s,
                  dk_availcore := dk_availcore dk + st_InUseTotalCore s\<rparr>)
       }
   }"

partial_function (option) deadLockLoop :: "addr \<Rightarrow> uint32 \<Rightarrow> double \<Rightarrow> DeadLockState \<Rightarrow> RMState option" where
  "deadLockLoop q expmemorymb expcore dk = do {
     t \<leftarrow> rm_tracks (dk_state dk) q;
     if (dk_availmemorymb dk < expmemorymb \<or> dk_availcore dk < expcore) \<and> qt_QueryResRequests t \<noteq> [] then do {
       dk \<leftarrow> deadLockBody q t dk;
       deadLockLoop q expmemorymb expcore dk
     }
     else Some (dk_state dk)
   }"

definition detectAndDealWithDeadLock :: "RMState \<Rightarrow> addr \<Rightarrow> RMState option" where
  "detectAndDealWithDeadLock g q = do {
     t \<leftarrow> rm_tracks g q;
     let availmemorymb = of_int (qt_ClusterMemoryMaxMB t) - dl_LockedTotalMemoryMB (qt_DLDetector t);
     let availcore = qt_ClusterVCoreMax t - dl_LockedTotalCore (qt_DLDetector t);
     case qt_QueryResRequests t of
       [] \<Rightarrow> Some g
     | firstreq # _ \<Rightarrow> do {
         c \<leftarrow> conn_at g firstreq;
         let expmemorymb = of_int (ct_SegMemoryMB c * ct_SegNumMin c);
         let expcore = ct_SegCore c * of_int (ct_SegNumMin c);
         if expmemorymb > of_int (qt_ClusterMemoryMaxMB t) \<and> expcore > qt_ClusterVCoreMax t then Some g
         else deadLockLoop q expmemorymb expcore \<lparr>dk_state = g, dk_availmemorymb = availmemorymb, dk_availcore = availcore\<rparr>
       }
   }"

section \<open>Dispatch in one queue\<close>

text \<open>The preferred host names are strings in the message buffer of the request.\<close>

fun cstring :: "byte list \<Rightarrow> uint8 list option" where
  "cstring [] = None"
| "cstring (None # bs) = None"
| "cstring (Some b # bs) = (if b = 0 then Some [] else do { s \<leftarrow> cstring bs; Some (b # s) })"

fun cstrings :: "byte list \<Rightarrow> nat list \<Rightarrow> uint8 list list option" where
  "cstrings bs [] = Some []"
| "cstrings bs (off # offs) = do { s \<leftarrow> cstring (drop off bs); ss \<leftarrow> cstrings bs offs; Some (s # ss) }"

definition preferred_hosts :: "ConnectionTrack \<Rightarrow> uint8 list list option" where
  "preferred_hosts c =
     (if ct_SegPreferredHostCount c \<le> 0 then Some []
      else do {
        offs \<leftarrow> ct_SegPreferredHostNames c;
        bs \<leftarrow> smb_Buffer (ct_MessageBuff c);
        if nat (ct_SegPreferredHostCount c) \<le> length offs then cstrings bs (take (nat (ct_SegPreferredHostCount c)) offs) else None
      })"

definition alloc_args :: "ConnectionTrack \<Rightarrow> uint8 list list \<Rightarrow> AllocArgs" where
  "alloc_args c names =
     \<lparr>aa_nodecount = ct_SegNumActual c, aa_memory = of_int (ct_SegMemoryMB c), aa_core = ct_SegCore c, aa_iobytes = ct_IOBytes c,
      aa_slicesize = ct_SliceSize c, aa_vseglimitpseg = ct_VSegLimitPerSeg c, aa_preferredhostname = names,
      aa_fixnodecount = (ct_MinSegCountFixed c = ct_MaxSegCountFixed c)\<rparr>"

text \<open>The policy 0 is the only one with a function.\<close>

definition allocateResourceFromResourcePool ::
    "RMConfig \<Rightarrow> RMState \<Rightarrow> AllocArgs \<Rightarrow> VSegmentCounterInternal list \<Rightarrow> (AllocResult \<times> ResourcePool) option" where
  "allocateResourceFromResourcePool cf g q vsegcounters =
     (if cf_allocation_policy cf = 0
      then allocateResourceFromResourcePoolIOBytes (cf_resolve cf) (cf_slice_num_per_seg_limit cf) (rm_mgr g) (rm_pool g) q vsegcounters
      else None)"

text \<open>How many requests, from the head on, can get their minimum.\<close>

fun countDispatchable :: "RMState \<Rightarrow> DynResourceQueueTrack \<Rightarrow> int \<Rightarrow> int \<Rightarrow> int \<Rightarrow> addr list \<Rightarrow> int option" where
  "countDispatchable g t availsegnum counter segmincounter [] = Some counter"
| "countDispatchable g t availsegnum counter segmincounter (a # as) =
     (if counter + qt_NumOfRunningQueries t \<ge> rq_ParallelCount (qt_QueueInfo t) then Some counter
      else do {
        c \<leftarrow> conn_at g a;
        if segmincounter + ct_SegNumMin c > availsegnum then Some counter
        else countDispatchable g t availsegnum (counter + 1) (segmincounter + ct_SegNumMin c) as
      })"

fun takeToDispatch :: "RMState \<Rightarrow> int \<Rightarrow> nat \<Rightarrow> addr list \<Rightarrow> (addr list \<times> addr list \<times> int \<times> RMState) option" where
  "takeToDispatch g availsegnum 0 reqs = Some ([], reqs, availsegnum, g)"
| "takeToDispatch g availsegnum (Suc n) [] = None"
| "takeToDispatch g availsegnum (Suc n) (a # reqs) = do {
     c \<leftarrow> conn_at g a;
     let g = put_conn g a (c\<lparr>ct_SegNumActual := ct_SegNumMin c\<rparr>);
     (todisp, rest, availsegnum, g) \<leftarrow> takeToDispatch g (availsegnum - ct_SegNumMin c) n reqs;
     Some (a # todisp, rest, availsegnum, g)
   }"

text \<open>The remaining segments are handed out one by one, round robin.\<close>

partial_function (option) distributeSegs :: "addr list \<Rightarrow> nat \<Rightarrow> int \<Rightarrow> nat \<Rightarrow> RMState \<Rightarrow> RMState option" where
  "distributeSegs todisp pnode availsegnum fullcount g =
     (if availsegnum > 0 then do {
        a \<leftarrow> (if pnode < length todisp then Some (todisp ! pnode) else None);
        c \<leftarrow> conn_at g a;
        let (g, availsegnum, fullcount) =
          (if ct_SegNum c > ct_SegNumActual c
           then (put_conn g a (c\<lparr>ct_SegNumActual := ct_SegNumActual c + 1\<rparr>), availsegnum - 1, 0)
           else (g, availsegnum, fullcount + 1));
        if fullcount = length todisp then Some g
        else distributeSegs todisp (if Suc pnode < length todisp then Suc pnode else 0) availsegnum fullcount g
      }
      else Some g)"

text \<open>One query: either it gets at least its minimum, and runs, or what it got is returned.\<close>

definition dispatchToQuery :: "RMConfig \<Rightarrow> RMState \<Rightarrow> addr \<Rightarrow> addr \<Rightarrow> (bool \<times> RMState) option" where
  "dispatchToQuery cf g q a = do {
     c \<leftarrow> conn_at g a;
     names \<leftarrow> preferred_hosts c;
     (r, p) \<leftarrow> allocateResourceFromResourcePool cf g (alloc_args c names) (ct_Resource c);
     let segnumact = ar_totalvsegcount r;
     let c = c\<lparr>ct_Resource := ar_vsegcounters r, ct_SegIOBytes := ar_vsegiobytes r\<rparr>;
     let g = g\<lparr>rm_pool := p\<rparr>;
     if segnumact \<ge> ct_SegNumMin c then do {
       let c = c\<lparr>ct_SegNumActual := segnumact\<rparr>;
       t \<leftarrow> rm_tracks g q;
       let mem = ct_SegMemoryMB c * ct_SegNumActual c;
       let core = ct_SegCore c * of_int (ct_SegNumActual c);
       let t = t\<lparr>qt_TotalUsed := addResourceBundleData (qt_TotalUsed t) mem core,
                 qt_TotalRequest := minusResourceBundleData (qt_TotalRequest t)
                   (ct_SegMemoryMB c * ct_SegNum c) (ct_SegCore c * of_int (ct_SegNum c)),
                 qt_NumOfRunningQueries := qt_NumOfRunningQueries t + 1\<rparr>;
       (h, d) \<leftarrow> unlockSessionResource (rm_sessions g) (qt_DLDetector t) (of_int (ct_SessionID c));
       (res, h, d) \<leftarrow> addSessionInUseResource h d (of_int (ct_SessionID c)) (of_int mem) core;
       let g = put_track1 (g\<lparr>rm_sessions := h\<rparr>) q (t\<lparr>qt_DLDetector := d\<rparr>);
       g \<leftarrow> buildAcquireResourceResponseMessage cf
             (put_conn g a (transformConnectionTrackProgress c CONN_PP_RESOURCE_QUEUE_ALLOC_DONE)) a;
       Some (True, g)
     }
     else do {
       (c, p) \<leftarrow> (if segnumact > 0 then do {
                    p \<leftarrow> returnResourceToResourcePool (rm_mgr g) p (ct_SegMemoryMB c) (ct_SegCore c) (ct_SegIOBytes c) (ct_SliceSize c)
                          (ct_Resource c) (ct_isOld c);
                    Some (c\<lparr>ct_Resource := []\<rparr>, p)
                  }
                  else Some (c, p));
       let c = (if \<not> ct_troubledByFragment c
                then c\<lparr>ct_troubledByFragmentTimestamp := cf_now cf, ct_troubledByFragment := True\<rparr> else c);
       Some (False, put_conn (g\<lparr>rm_pool := p\<rparr>) a c)
     }
   }"

fun dispatchLoop :: "RMConfig \<Rightarrow> addr \<Rightarrow> nat \<Rightarrow> addr list \<Rightarrow> RMState \<Rightarrow> (addr list \<times> RMState) option" where
  "dispatchLoop cf q 0 todisp g = Some (todisp, g)"
| "dispatchLoop cf q (Suc n) [] g = None"
| "dispatchLoop cf q (Suc n) (a # todisp) g = do {
     (disp, g) \<leftarrow> dispatchToQuery cf g q a;
     if disp then dispatchLoop cf q n todisp g
     else if cf_force_fifo_queue cf then Some (a # todisp, g)
     else dispatchLoop cf q n (todisp @ [a]) g
   }"

definition dispatchResourceToQueries_EVEN :: "RMConfig \<Rightarrow> RMState \<Rightarrow> addr \<Rightarrow> RMState option" where
  "dispatchResourceToQueries_EVEN cf g q = do {
     t \<leftarrow> rm_tracks g q;
     let quota = rq_SegResourceQuotaMemoryMB (qt_QueueInfo t);
     availsegnum \<leftarrow> (if quota = 0 then None
                     else Some (c_div (rb_MemoryMB (qt_TotalAllocated t) - rb_MemoryMB (qt_TotalUsed t)) quota));
     counter \<leftarrow> countDispatchable g t availsegnum 0 0 (qt_QueryResRequests t);
     if counter = 0 then detectAndDealWithDeadLock g q
     else do {
       (todisp, rest, availsegnum, g) \<leftarrow> takeToDispatch g availsegnum (nat counter) (qt_QueryResRequests t);
       g \<leftarrow> distributeSegs todisp 0 availsegnum 0 (put_track1 g q (t\<lparr>qt_QueryResRequests := rest\<rparr>));
       (todisp, g) \<leftarrow> dispatchLoop cf q (nat counter) todisp g;
       t \<leftarrow> rm_tracks g q;
       Some (put_track1 g q (t\<lparr>qt_QueryResRequests := todisp @ qt_QueryResRequests t\<rparr>))
     }
   }"

definition dispatchResourceToQueries_FIFO :: "RMConfig \<Rightarrow> RMState \<Rightarrow> addr \<Rightarrow> RMState option" where
  "dispatchResourceToQueries_FIFO cf g q = Some g"

definition DispatchPolicy :: "int \<Rightarrow> RMConfig \<Rightarrow> RMState \<Rightarrow> addr \<Rightarrow> RMState option" where
  "DispatchPolicy policy =
     (if policy = 0 then dispatchResourceToQueries_EVEN else if policy = 1 then dispatchResourceToQueries_FIFO else (\<lambda>_ _ _. None))"

definition setHeadQueueTime :: "RMConfig \<Rightarrow> RMState \<Rightarrow> addr \<Rightarrow> RMState option" where
  "setHeadQueueTime cf g q = do {
     t \<leftarrow> rm_tracks g q;
     case qt_QueryResRequests t of
       [] \<Rightarrow> Some g
     | topwaiter # _ \<Rightarrow> do {
         c \<leftarrow> conn_at g topwaiter;
         Some (if ct_HeadQueueTime c = 0 then put_conn g topwaiter (c\<lparr>ct_HeadQueueTime := cf_now cf\<rparr>) else g)
       }
   }"

definition dispatchResourceToQueriesInOneQueue :: "RMConfig \<Rightarrow> RMState \<Rightarrow> addr \<Rightarrow> RMState option" where
  "dispatchResourceToQueriesInOneQueue cf g q = do {
     g \<leftarrow> setHeadQueueTime cf g q;
     t \<leftarrow> rm_tracks g q;
     let policy = rq_AllocatePolicy (qt_QueueInfo t);
     g \<leftarrow> DispatchPolicy policy cf g q;
     t \<leftarrow> rm_tracks g q;
     troubled \<leftarrow> (case qt_QueryResRequests t of
                   [] \<Rightarrow> Some False
                 | topwaiter # _ \<Rightarrow> do { c \<leftarrow> conn_at g topwaiter; Some (ct_troubledByFragment c) });
     Some (put_track1 g q (t\<lparr>qt_troubledByFragment := troubled\<rparr>))
   }"

section \<open>Dispatch between the queues\<close>

text \<open>The first loop over the queues of a ratio: a queue that uses more than its share keeps what it uses, the
  others are to be given resource.\<close>

record AssignState =
  ag_state :: RMState
  ag_availmemory :: uint32
  ag_availcore :: double
  ag_totalmemoryweight :: uint32
  ag_toallocqueues :: "addr list"

definition sortOutQueue :: "DynMemoryCoreRatioTrack \<Rightarrow> AssignState \<Rightarrow> addr \<Rightarrow> AssignState option" where
  "sortOutQueue mc ag q = do {
     t \<leftarrow> rm_tracks (ag_state ag) q;
     let t = t\<lparr>qt_expectMoreResource := False\<rparr>;
     if \<not> qt_isBusy t then Some (ag\<lparr>ag_state := put_track1 (ag_state ag) q t\<rparr>)
     else do {
       let allmemory = (of_int (rb_MemoryMB (mt_TotalAllocated mc)) :: uint32);
       let expweight = fdiv (of_int (rq_ClusterMemoryMB (qt_QueueInfo t))) (of_int (mt_ClusterMemory mc));
       let actweight = (if allmemory = 0 then 0 else of_int (rb_MemoryMB (qt_TotalUsed t)) / of_int (uint allmemory));
       if fgt (Fin actweight) expweight then
         Some (ag\<lparr>ag_state := put_track1 (ag_state ag) q
                    (t\<lparr>qt_TotalAllocated := resetResourceBundleData (qt_TotalAllocated t) (rb_MemoryMB (qt_TotalUsed t))
                         (rb_Core (qt_TotalUsed t)) (rb_Ratio (qt_TotalAllocated t)),
                       qt_pauseAllocation := True\<rparr>),
                  ag_availmemory := ag_availmemory ag - of_int (rb_MemoryMB (qt_TotalUsed t)),
                  ag_availcore := ag_availcore ag - rb_Core (qt_TotalUsed t)\<rparr>)
       else
         Some (ag\<lparr>ag_state := put_track1 (ag_state ag) q (t\<lparr>qt_pauseAllocation := False\<rparr>),
                  ag_toallocqueues := ag_toallocqueues ag @ [q],
                  ag_totalmemoryweight := ag_totalmemoryweight ag + of_int (rq_ClusterMemoryMB (qt_QueueInfo t))\<rparr>)
     }
   }"

text \<open>The second loop: a queue that asks for less than its share gets what it asks for, another its share.\<close>

definition potentialmemuse :: "DynResourceQueueTrack \<Rightarrow> uint32" where
  "potentialmemuse t =
     of_int (if rb_MemoryMB (qt_TotalUsed t) + rb_MemoryMB (qt_TotalRequest t) > qt_ClusterMemoryMaxMB t
             then qt_ClusterMemoryMaxMB t else rb_MemoryMB (qt_TotalUsed t) + rb_MemoryMB (qt_TotalRequest t))"

definition assignToQueue :: "uint32 \<Rightarrow> uint32 \<Rightarrow> RMState \<times> uint32 \<Rightarrow> addr \<Rightarrow> (RMState \<times> uint32) option" where
  "assignToQueue totalmemoryweight availmemory gl q = do {
     let (g, leftmemory2) = gl;
     t \<leftarrow> rm_tracks g q;
     let expweight = fdiv (of_int (rq_ClusterMemoryMB (qt_QueueInfo t))) (of_int (uint totalmemoryweight));
     let pot = potentialmemuse t;
     let actweight2 = fdiv (of_int (uint pot)) (of_int (uint availmemory));
     if qt_MemCoreRatio t = 0 then None
     else if fgt expweight actweight2 then
       Some (put_track1 g q (t\<lparr>qt_TotalAllocated := resetResourceBundleData (qt_TotalAllocated t) (sint pot)
               (of_int (uint pot) / of_int (uint (qt_MemCoreRatio t))) (rb_Ratio (qt_TotalAllocated t))\<rparr>),
             leftmemory2 - pot)
     else case expweight of
            Fin w \<Rightarrow>
              let allocmemory = (of_int (c_trunc (w * of_int (uint availmemory))) :: uint32);
                  alloccore = of_int (uint availmemory) / of_int (uint (qt_MemCoreRatio t))
              in Some (put_track1 g q (t\<lparr>qt_TotalAllocated := resetResourceBundleData (qt_TotalAllocated t) (sint allocmemory)
                         alloccore (rb_Ratio (qt_TotalAllocated t)), qt_expectMoreResource := True\<rparr>),
                       leftmemory2 - allocmemory)
          | _ \<Rightarrow> None
   }"

text \<open>The rest goes to the next queue, in a round robin, that expects more.\<close>

fun findExpecting :: "RMState \<Rightarrow> addr list \<Rightarrow> int \<Rightarrow> nat \<Rightarrow> (addr option \<times> int) option" where
  "findExpecting g qs idx 0 = Some (None, idx)"
| "findExpecting g qs idx (Suc n) = do {
     q \<leftarrow> (if 0 \<le> idx \<and> idx < int (length qs) then Some (qs ! nat idx) else None);
     t \<leftarrow> rm_tracks g q;
     if qt_expectMoreResource t then Some (Some q, idx)
     else findExpecting g qs (if idx + 1 = int (length qs) then 0 else idx + 1) n
   }"

definition assignLeft :: "RMState \<Rightarrow> DynMemoryCoreRatioTrack \<Rightarrow> uint32 \<Rightarrow> (RMState \<times> DynMemoryCoreRatioTrack) option" where
  "assignLeft g mc leftmemory2 =
     (let qs = mt_QueueTrackers mc in
      if qs \<noteq> [] \<and> leftmemory2 > 0 then do {
        let idx = (if mt_QueueIndexForLeftResource mc \<ge> int (length qs) then 0 else mt_QueueIndexForLeftResource mc);
        (q, idx) \<leftarrow> findExpecting g qs idx (length qs);
        g \<leftarrow> (case q of
               None \<Rightarrow> Some g
             | Some q \<Rightarrow> do {
                 t \<leftarrow> rm_tracks g q;
                 if qt_MemCoreRatio t = 0 then None
                 else do {
                   let room = of_int (qt_ClusterMemoryMaxMB t) - of_int (rb_MemoryMB (qt_TotalAllocated t));
                   let delta = (if leftmemory2 + of_int (rb_MemoryMB (qt_TotalAllocated t)) \<le> of_int (qt_ClusterMemoryMaxMB t)
                                then leftmemory2 else room);
                   Some (put_track1 g q (t\<lparr>qt_TotalAllocated := addResourceBundleData (qt_TotalAllocated t) (sint delta)
                           (of_int (uint delta) / of_int (uint (qt_MemCoreRatio t)))\<rparr>))
                 }
               });
        Some (g, mc\<lparr>mt_QueueIndexForLeftResource := idx + 1\<rparr>)
      }
      else Some (g, mc))"

definition assignToQueues :: "RMState \<Rightarrow> DynMemoryCoreRatioTrack \<Rightarrow> (RMState \<times> DynMemoryCoreRatioTrack \<times> addr list) option" where
  "assignToQueues g mc = do {
     let avail = of_int (rb_MemoryMB (mt_TotalAllocated mc));
     ag \<leftarrow> fold_opt (sortOutQueue mc)
            \<lparr>ag_state = g, ag_availmemory = avail, ag_availcore = rb_Core (mt_TotalAllocated mc), ag_totalmemoryweight = 0, ag_toallocqueues = []\<rparr>
            (mt_QueueTrackers mc);
     (g, leftmemory2) \<leftarrow> fold_opt (assignToQueue (ag_totalmemoryweight ag) (ag_availmemory ag))
                            (ag_state ag, ag_availmemory ag) (ag_toallocqueues ag);
     (g, mc) \<leftarrow> assignLeft g mc leftmemory2;
     Some (g, mc, ag_toallocqueues ag)
   }"

text \<open>Dispatching a queue, and what the manager remembers of it.\<close>

record DispatchState =
  ds_state :: RMState
  ds_hasrequest :: bool
  ds_hasresourceallocated :: bool

definition dispatchQueue :: "RMConfig \<Rightarrow> DispatchState \<Rightarrow> addr \<Rightarrow> DispatchState option" where
  "dispatchQueue cf ds q = do {
     t \<leftarrow> rm_tracks (ds_state ds) q;
     let oldreqnum = length (qt_QueryResRequests t);
     g \<leftarrow> dispatchResourceToQueriesInOneQueue cf (ds_state ds) q;
     t \<leftarrow> rm_tracks g q;
     let newreqnum = length (qt_QueryResRequests t);
     Some (ds\<lparr>ds_state := g, ds_hasrequest := (oldreqnum > 0),
              ds_hasresourceallocated := (ds_hasresourceallocated ds \<or> newreqnum \<noteq> oldreqnum)\<rparr>)
   }"

text \<open>The loop over the troubled queues: its bound is the current number of nodes.\<close>

function dispatchTroubled :: "RMConfig \<Rightarrow> nat \<Rightarrow> addr list \<Rightarrow> DispatchState \<Rightarrow> (addr list \<times> DispatchState) option" where
  "dispatchTroubled cf i qs ds =
     (if i < length qs then
        (case rm_tracks (ds_state ds) (hd qs) of
           None \<Rightarrow> None
         | Some t \<Rightarrow>
             if \<not> qt_troubledByFragment t then dispatchTroubled cf (Suc i) (tl qs @ [hd qs]) ds
             else (case dispatchQueue cf ds (hd qs) of
                     None \<Rightarrow> None
                   | Some ds \<Rightarrow> dispatchTroubled cf (Suc i) (tl qs) ds))
      else Some (qs, ds))"
  by pat_completeness auto
termination
  by (relation "measure (\<lambda>(cf, i, qs, ds). length qs - i)") auto

declare dispatchTroubled.simps [simp del]

definition dispatchRatio :: "RMConfig \<Rightarrow> DispatchState \<Rightarrow> int \<Rightarrow> DispatchState option" where
  "dispatchRatio cf ds i = do {
     mc \<leftarrow> ratio_tracker (rm_mgr (ds_state ds)) i;
     if (mt_ClusterMemoryMaxMB mc = 0 \<or> mt_ClusterVCoreMax mc = 0) \<or>
        (rb_MemoryMB (mt_TotalAllocated mc) = 0 \<and> rb_Core (mt_TotalAllocated mc) = 0)
     then Some ds
     else do {
       (g, mc, qs) \<leftarrow> assignToQueues (ds_state ds) mc;
       let ds = ds\<lparr>ds_state := g\<lparr>rm_mgr := put_tracker (rm_mgr g) i mc\<rparr>\<rparr>;
       (qs, ds) \<leftarrow> dispatchTroubled cf 0 qs ds;
       fold_opt (dispatchQueue cf) ds qs
     }
   }"

definition dispatchResourceToQueries :: "RMConfig \<Rightarrow> RMState \<Rightarrow> RMState option" where
  "dispatchResourceToQueries cf g = do {
     ds \<leftarrow> fold_opt (dispatchRatio cf) \<lparr>ds_state = g, ds_hasrequest = False, ds_hasresourceallocated = False\<rparr>
            [0..RatioCount (rm_mgr g) - 1];
     let g = ds_state ds;
     Some (g\<lparr>rm_mgr := (rm_mgr g)\<lparr>toRunQueryDispatch := \<not> ds_hasrequest ds \<or> ds_hasresourceallocated ds\<rparr>\<rparr>)
   }"

end
