(* ===== verification/RM_Pool_Props.thy ===== *)
theory RM_Pool_Props
  imports RM_Pool "HOL-Library.Multiset"
begin

text \<open>
  What the allocation of virtual segments does to the resource pool: the counters it returns account
  exactly for what the segments lost, returning them restores the pool, and two situations in which the
  allocation goes wrong.
\<close>

section \<open>The table of counters\<close>

lemma in_pairs_match:
  assumes "ht_inv HASHTABLE_Hash_UINT32 HASHTABLE_Comp_UINT32 (\<lambda>_. True) t"
  shows "ht_get t k = Some v \<longleftrightarrow> (\<exists>k'. (k', v) \<in> pairs t \<and> HASHTABLE_Comp_UINT32 k' k = 0)"
  by (rule key_uint32.ht_get_iff [OF assms TrueI])

lemmas tbl_laws = key_uint32.ht_keyed [OF _ TrueI TrueI]

lemma ucast_seg_key: "(ucast (seg_key i) :: uint32) = of_int i"
  unfolding seg_key_def by transfer simp

lemma cmp_uint32: "HASHTABLE_Comp_UINT32 x y = 0 \<longleftrightarrow> (ucast x :: uint32) = ucast y"
  by (simp add: HASHTABLE_Comp_UINT32_def)

lemma seg_key_cmp:
  assumes "0 \<le> i" "i < 2 ^ 31" "0 \<le> j" "j < 2 ^ 31"
  shows "HASHTABLE_Comp_UINT32 (seg_key i) (seg_key j) = 0 \<longleftrightarrow> i = j"
proof -
  have "uint (of_int i :: uint32) = i" "uint (of_int j :: uint32) = j"
    using assms by (simp_all add: uint_word_of_int)
  then show ?thesis unfolding cmp_uint32 ucast_seg_key by metis
qed

text \<open>The number of virtual segments counted for a segment, and in all.\<close>

definition vcount :: "VSegmentCounterInternal option \<Rightarrow> nat" where
  "vcount v = (case v of None \<Rightarrow> 0 | Some c \<Rightarrow> unat (vs_VSegmentCount c))"

definition cnt_of :: "(uint64, VSegmentCounterInternal) HASHTABLE \<Rightarrow> int \<Rightarrow> nat" where
  "cnt_of t i = (case ht_get t (seg_key i) of None \<Rightarrow> 0 | Some v \<Rightarrow> vcount v)"

definition tbl_total :: "(uint64, VSegmentCounterInternal) HASHTABLE \<Rightarrow> nat" where
  "tbl_total t = sum_list (map (\<lambda>p. vcount (snd p)) (concat (Slots t)))"

lemma sorted_wrt_irrefl_distinct: "sorted_wrt R xs \<Longrightarrow> (\<And>x. \<not> R x x) \<Longrightarrow> distinct xs"
  by (induction xs) auto

lemma pairs_distinct:
  assumes "ht_inv HASHTABLE_Hash_UINT32 HASHTABLE_Comp_UINT32 (\<lambda>_. True) t"
  shows "distinct (concat (Slots t))"
    and "p \<in> pairs t \<Longrightarrow> q \<in> pairs t \<Longrightarrow> HASHTABLE_Comp_UINT32 (fst p) (fst q) = 0 \<Longrightarrow> p = q"
proof -
  have d: "bucket_distinct HASHTABLE_Comp_UINT32 (concat (Slots t))"
    using assms key_uint32.concat_distinct unfolding ht_inv_def by blast
  then show "distinct (concat (Slots t))" unfolding bucket_distinct_def
    by (rule sorted_wrt_irrefl_distinct) (simp add: HASHTABLE_Comp_UINT32_def)
  assume pq: "p \<in> pairs t" "q \<in> pairs t" "HASHTABLE_Comp_UINT32 (fst p) (fst q) = 0"
  have "HASHTABLE_Comp_UINT32 (fst q) (fst q) = 0" by (simp add: HASHTABLE_Comp_UINT32_def)
  then have "getHASHTABLENode t (fst q) = Some q" using key_uint32.get_iff [OF assms TrueI, of "fst q" q] pq by blast
  moreover have "getHASHTABLENode t (fst q) = Some p" using key_uint32.get_iff [OF assms TrueI, of "fst q" p] pq by blast
  ultimately show "p = q" by simp
qed

lemma tbl_total_sum:
  assumes "ht_inv HASHTABLE_Hash_UINT32 HASHTABLE_Comp_UINT32 (\<lambda>_. True) t"
  shows "tbl_total t = pair_sum vcount t"
  unfolding tbl_total_def pair_sum_def pairs_def by (rule sum_list_distinct_conv_sum_set [OF pairs_distinct(1) [OF assms]])

lemma tbl_total_set:
  assumes inv: "ht_inv HASHTABLE_Hash_UINT32 HASHTABLE_Comp_UINT32 (\<lambda>_. True) t"
  shows "tbl_total (ht_set t (seg_key i) v) + cnt_of t i = tbl_total t + vcount v"
  unfolding cnt_of_def tbl_total_sum [OF inv] tbl_total_sum [OF tbl_laws(1) [OF inv]]
  by (rule key_uint32.pair_sum_set [OF inv TrueI])

lemma cnt_of_set:
  assumes "ht_inv HASHTABLE_Hash_UINT32 HASHTABLE_Comp_UINT32 (\<lambda>_. True) t"
    and "0 \<le> i" "i < 2 ^ 31" "0 \<le> j" "j < 2 ^ 31"
  shows "cnt_of (ht_set t (seg_key i) v) j = (if j = i then vcount v else cnt_of t j)"
  using tbl_laws(3) [OF assms(1), of "seg_key i" v "seg_key j"] seg_key_cmp [OF assms(4,5,2,3)]
  by (simp add: cnt_of_def)

lemma cnt_of_le_total:
  assumes "ht_inv HASHTABLE_Hash_UINT32 HASHTABLE_Comp_UINT32 (\<lambda>_. True) t"
  shows "cnt_of t i \<le> tbl_total t"
proof (cases "ht_get t (seg_key i)")
  case (Some v)
  then obtain k where "(k, v) \<in> set (concat (Slots t))" using in_pairs_match [OF assms] unfolding pairs_def by blast
  then have "vcount (snd (k, v)) \<in> set (map (\<lambda>p. vcount (snd p)) (concat (Slots t)))"
    unfolding set_map by (rule imageI)
  then have "vcount v \<le> tbl_total t"
    unfolding tbl_total_def snd_conv by (rule member_le_sum_list) simp
  then show ?thesis using Some by (simp add: cnt_of_def)
qed (simp add: cnt_of_def)

section \<open>Segments that lost resource\<close>

definition taken :: "AllocArgs \<Rightarrow> int \<Rightarrow> nat \<Rightarrow> SegResource \<Rightarrow> SegResource" where
  "taken q ridx n s =
     (case ctn_set s ridx of
        None \<Rightarrow> s
      | Some c \<Rightarrow>
          (put_ctn_set s ridx (c\<lparr>cs_Available := minusResourceBundleData (cs_Available c) (int n * uint (aa_memory q)) (of_nat n * aa_core q)\<rparr>))
          \<lparr>sr_Available := minusResourceBundleData (sr_Available s) (int n * uint (aa_memory q)) (of_nat n * aa_core q),
           sr_SliceWorkload := sr_SliceWorkload s + int n * aa_slicesize q\<rparr>)"

lemma ctn_set_put [simp]:
  "ctn_set s i \<noteq> None \<Longrightarrow> ctn_set (put_ctn_set s i c) i = Some c"
  by (auto simp: ctn_set_def put_ctn_set_def split: if_splits)

lemma ctn_set_fields [simp]:
  "ctn_set (s\<lparr>sr_Available := b\<rparr>) i = ctn_set s i" "ctn_set (s\<lparr>sr_SliceWorkload := n\<rparr>) i = ctn_set s i"
  "ctn_set (s\<lparr>sr_IOBytesWorkload := n\<rparr>) i = ctn_set s i"
  by (simp_all add: ctn_set_def)

lemma put_ctn_set_fields [simp]:
  "sr_Stat (put_ctn_set s i c) = sr_Stat s" "sr_Available (put_ctn_set s i c) = sr_Available s"
  "sr_SliceWorkload (put_ctn_set s i c) = sr_SliceWorkload s" "sr_RUAlivePending (put_ctn_set s i c) = sr_RUAlivePending s"
  "sr_IOBytesWorkload (put_ctn_set s i c) = sr_IOBytesWorkload s"
  by (simp_all add: put_ctn_set_def)

lemma put_ctn_set_same: "ctn_set s i = Some c \<Longrightarrow> put_ctn_set s i c = s"
proof -
  assume "ctn_set s i = Some c"
  then have "(sr_ContainerSets s)[nat i := Some c] = sr_ContainerSets s"
    by (metis ctn_set_def list_update_id option.distinct(1))
  then show ?thesis by (simp add: put_ctn_set_def)
qed

lemma put_ctn_set_twice [simp]: "put_ctn_set (put_ctn_set s i c) i d = put_ctn_set s i d"
  by (simp add: put_ctn_set_def)

lemma put_ctn_set_update [simp]:
  "put_ctn_set (s\<lparr>sr_Available := b\<rparr>) i c = (put_ctn_set s i c)\<lparr>sr_Available := b\<rparr>"
  "put_ctn_set (s\<lparr>sr_SliceWorkload := n\<rparr>) i c = (put_ctn_set s i c)\<lparr>sr_SliceWorkload := n\<rparr>"
  "put_ctn_set (s\<lparr>sr_IOBytesWorkload := n\<rparr>) i c = (put_ctn_set s i c)\<lparr>sr_IOBytesWorkload := n\<rparr>"
  by (simp_all add: put_ctn_set_def)

lemma taken_0 [simp]: "taken q ridx 0 s = s"
  by (auto simp: taken_def put_ctn_set_same split: option.splits)

lemma taken_fields [simp]:
  "sr_Stat (taken q ridx n s) = sr_Stat s" "IS_SEGRESOURCE_USABLE (taken q ridx n s) = IS_SEGRESOURCE_USABLE s"
  "ctn_set (taken q ridx n s) ridx =
     map_option (\<lambda>c. c\<lparr>cs_Available := minusResourceBundleData (cs_Available c) (int n * uint (aa_memory q)) (of_nat n * aa_core q)\<rparr>) (ctn_set s ridx)"
  by (auto simp: taken_def IS_SEGRESOURCE_USABLE_def split: option.splits)

lemma allocate_taken:
  assumes "ctn_set s ridx \<noteq> None" "sint (aa_memory q) = uint (aa_memory q)"
  shows "allocateResourceFromSegment (taken q ridx n s) ridx (sint (aa_memory q)) (aa_core q) (aa_slicesize q) =
    Some (taken q ridx (Suc n) s)"
  using assms
  by (auto simp: allocateResourceFromSegment_def taken_def minus_minus_bundle algebra_simps Let_def)

section \<open>Pools on which an allocation is safe\<close>

definition registered :: "ResourcePool \<Rightarrow> int \<Rightarrow> bool" where
  "registered p i \<longleftrightarrow>
     (case getSegResource p i of
        None \<Rightarrow> False
      | Some a \<Rightarrow> case rp_heap p a of None \<Rightarrow> False | Some s \<Rightarrow> st_ID (sr_Stat s) = i)"

text \<open>The host tables lead to registered segments only.\<close>

definition cache_ok :: "ResourcePool \<Rightarrow> (SimpString, int) HASHTABLE \<Rightarrow> bool" where
  "cache_ok p tbl \<longleftrightarrow>
     ht_inv HASHTABLE_Hash_SIMPSTR HASHTABLE_Comp_SIMPSTR simpstr_ok tbl \<and>
     (\<forall>n v. 0 \<notin> set n \<longrightarrow> ht_get tbl (name_key n) = Some v \<longrightarrow> registered p (id_of_pair ((), v)))"

definition hosts_known :: "ResourcePool \<Rightarrow> bool" where
  "hosts_known p \<longleftrightarrow>
     cache_ok p (HDFSHostNameIndexed p) \<and>
     (\<forall>n i. getSegIDByHostName p n = (FUNC_RETURN_OK, i) \<longrightarrow> registered p i) \<and>
     (\<forall>n i. getSegIDByHostAddr p n = (FUNC_RETURN_OK, i) \<longrightarrow> registered p i)"

definition pool_wf :: "int \<Rightarrow> ResourcePool \<Rightarrow> bool" where
  "pool_wf ridx p \<longleftrightarrow>
     (\<forall>a s. rp_heap p a = Some s \<longrightarrow>
        0 \<le> st_ID (sr_Stat s) \<and> st_ID (sr_Stat s) < 2 ^ 31 \<and> getSegResource p (st_ID (sr_Stat s)) = Some a \<and>
        (\<forall>c. ctn_set s ridx = Some c \<longrightarrow> 0 \<le> rb_MemoryMB (cs_Available c) \<and> rb_MemoryMB (cs_Available c) < 2 ^ 31)) \<and>
     distinct (OrderedIOBytesWorkload p) \<and> (\<forall>a \<in> set (OrderedIOBytesWorkload p). rp_heap p a \<noteq> None) \<and>
     (0 \<le> ridx \<longrightarrow> index_at (OrderedSegResAvailByRatio p) ridx \<noteq> None) \<and> hosts_known p"

definition args_ok :: "AllocArgs \<Rightarrow> bool" where
  "args_ok q \<longleftrightarrow> 0 < aa_nodecount q \<and> aa_nodecount q < 2 ^ 31 \<and> 0 < aa_memory q \<and> uint (aa_memory q) < 2 ^ 31 \<and>
     0 \<le> aa_slicesize q \<and> aa_nodecount q * aa_slicesize q < 2 ^ 31 \<and>
     1 \<le> aa_vseglimitpseg q \<and> aa_vseglimitpseg q < 2 ^ 31 \<and> (\<forall>n \<in> set (aa_preferredhostname q). 0 \<notin> set n)"

text \<open>What an allocation may change of a pool.\<close>

definition frame :: "ResourcePool \<Rightarrow> ResourcePool \<Rightarrow> bool" where
  "frame p p' \<longleftrightarrow>
     p' = p\<lparr>rp_heap := rp_heap p', OrderedSegResAvailByRatio := OrderedSegResAvailByRatio p',
            OrderedIOBytesWorkload := OrderedIOBytesWorkload p', HDFSHostNameIndexed := HDFSHostNameIndexed p'\<rparr> \<and>
     map (map_option mset) (OrderedSegResAvailByRatio p') = map (map_option mset) (OrderedSegResAvailByRatio p)"

lemma frame_refl [simp]: "frame p p" by (simp add: frame_def)

lemma frame_trans: "frame p p' \<Longrightarrow> frame p' p'' \<Longrightarrow> frame p p''"
  unfolding frame_def by (cases p; cases p'; cases p'') simp

lemma frame_tables:
  assumes "frame p p'"
  shows "getSegResource p' i = getSegResource p i" "getSegIDByHostName p' n = getSegIDByHostName p n"
    "getSegIDByHostAddr p' n = getSegIDByHostAddr p n"
proof -
  have e: "Segments p' = Segments p" "SegmentHostNameIndexed p' = SegmentHostNameIndexed p"
    "SegmentHostAddrIndexed p' = SegmentHostAddrIndexed p"
    using assms unfolding frame_def by (cases p; cases p'; simp)+
  show "getSegResource p' i = getSegResource p i" "getSegIDByHostName p' n = getSegIDByHostName p n"
    "getSegIDByHostAddr p' n = getSegIDByHostAddr p n"
    by (simp_all add: getSegResource_def getSegIDByHostName_def getSegIDByHostAddr_def e)
qed

lemma frame_index:
  assumes "frame p p'" "index_at (OrderedSegResAvailByRatio p) i \<noteq> None"
  shows "index_at (OrderedSegResAvailByRatio p') i \<noteq> None"
proof -
  have m: "map (map_option mset) (OrderedSegResAvailByRatio p') = map (map_option mset) (OrderedSegResAvailByRatio p)"
    using assms(1) by (simp add: frame_def)
  then have l: "length (OrderedSegResAvailByRatio p') = length (OrderedSegResAvailByRatio p)"
    by (metis length_map)
  then have "map_option mset (OrderedSegResAvailByRatio p' ! nat i) = map_option mset (OrderedSegResAvailByRatio p ! nat i)"
    if "nat i < length (OrderedSegResAvailByRatio p)"
    using m that by (metis nth_map)
  then show ?thesis using assms(2) l by (force simp: index_at_def nat_less_iff split: if_splits)
qed

lemma tryAddresses_registered:
  "\<forall>n i. getSegIDByHostAddr p n = (FUNC_RETURN_OK, i) \<longrightarrow> registered p0 i \<Longrightarrow>
   tryAddresses p addrs = (FUNC_RETURN_OK, i) \<Longrightarrow> registered p0 i"
  by (induction addrs) (auto split: prod.splits drm_code.splits)

lemma cache_ok_set:
  assumes "cache_ok p tbl" "registered p i" "0 \<notin> set n"
  shows "cache_ok p (ht_set tbl (name_key n) (Some i))"
proof -
  have ok: "simpstr_ok (name_key k) \<longleftrightarrow> 0 \<notin> set k" for k
    by (simp add: simpstr_ok_def name_key_def)
  have inv: "ht_inv HASHTABLE_Hash_SIMPSTR HASHTABLE_Comp_SIMPSTR simpstr_ok tbl"
    using assms(1) by (simp add: cache_ok_def)
  show ?thesis
    unfolding cache_ok_def
  proof (intro conjI allI impI)
    show "ht_inv HASHTABLE_Hash_SIMPSTR HASHTABLE_Comp_SIMPSTR simpstr_ok (ht_set tbl (name_key n) (Some i))"
      using key_simpstr.ht_keyed(1) [OF inv] assms(3) ok by blast
    fix k v assume k: "0 \<notin> set k" "ht_get (ht_set tbl (name_key n) (Some i)) (name_key k) = Some v"
    then have "v = Some i \<or> ht_get tbl (name_key k) = Some v"
      using key_simpstr.ht_keyed(3) [OF inv, of "name_key n" "name_key k" "Some i"] assms(3) ok
      by (auto split: if_splits)
    then show "registered p (id_of_pair ((), v))"
      using assms(1,2) k(1) by (auto simp: cache_ok_def id_of_pair_def)
  qed
qed

lemma lookup_spec:
  assumes p0: "hosts_known p0" and p: "frame p0 p" "cache_ok p0 (HDFSHostNameIndexed p)" and n: "0 \<notin> set n"
    and get: "getSegIDByHDFSHostName resolve p n = (res, i, p')"
  shows "\<exists>tbl. p' = p\<lparr>HDFSHostNameIndexed := tbl\<rparr> \<and> cache_ok p0 tbl" "res = FUNC_RETURN_OK \<Longrightarrow> registered p0 i"
proof -
  obtain tbl where tbl: "getSegIDByHostNameInternal resolve p (HDFSHostNameIndexed p) n = (res, i, tbl)"
    "p' = p\<lparr>HDFSHostNameIndexed := tbl\<rparr>"
    using get by (auto simp: getSegIDByHDFSHostName_def Let_def split: prod.splits)
  have "cache_ok p0 tbl \<and> (res = FUNC_RETURN_OK \<longrightarrow> registered p0 i)"
  proof (cases "getHASHTABLENode (HDFSHostNameIndexed p) (name_key n)")
    case (Some pair)
    then have "ht_get (HDFSHostNameIndexed p) (name_key n) = Some (snd pair)" by (simp add: ht_get_def)
    then have "registered p0 (id_of_pair pair)"
      using p(2) n by (fastforce simp: cache_ok_def id_of_pair_def)
    then show ?thesis using tbl(1) Some p(2) by (auto simp: getSegIDByHostNameInternal_def)
  next
    case None
    define r where "r ohostname gottenaddr = (case getSegIDByHostName p ohostname of
        (FUNC_RETURN_OK, segid) \<Rightarrow> (FUNC_RETURN_OK, segid) | _ \<Rightarrow> tryAddresses p gottenaddr)" for ohostname gottenaddr
    have r: "registered p0 j" if "r oh ga = (FUNC_RETURN_OK, j)" for oh ga j
      using that p0 tryAddresses_registered [of p p0 ga j] frame_tables [OF p(1)]
      by (auto simp: r_def hosts_known_def split: prod.splits drm_code.splits)
    show ?thesis
    proof (cases "resolve n")
      case None': None
      then show ?thesis using tbl(1) None p(2) by (auto simp: getSegIDByHostNameInternal_def)
    next
      case (Some oa)
      obtain oh ga where oa: "oa = (oh, ga)" by (cases oa)
      obtain rr j where rj: "r oh ga = (rr, j)" by (cases "r oh ga")
      have "res = rr \<and> i = j \<and> tbl = (if rr = FUNC_RETURN_OK then ht_set (HDFSHostNameIndexed p) (name_key n) (Some j) else HDFSHostNameIndexed p)"
        using tbl(1) None Some oa rj by (auto simp: getSegIDByHostNameInternal_def r_def [symmetric])
      then show ?thesis using r [of oh ga j] rj cache_ok_set [OF p(2) _ n] p(2) by auto
    qed
  qed
  then show "\<exists>tbl. p' = p\<lparr>HDFSHostNameIndexed := tbl\<rparr> \<and> cache_ok p0 tbl" "res = FUNC_RETURN_OK \<Longrightarrow> registered p0 i"
    using tbl(2) by auto
qed

lemma mset_index_insert [simp]: "mset (index_insert cmp d xs) = add_mset d (mset xs)"
proof -
  have "mset xs = filter_mset (\<lambda>x. cmp x d < 0) (mset xs) + filter_mset (\<lambda>x. \<not> cmp x d < 0) (mset xs)"
    by (rule multiset_partition)
  then show ?thesis by (simp add: index_insert_def)
qed

lemma set_index_insert [simp]: "set (index_insert cmp d xs) = insert d (set xs)"
  by (metis mset_index_insert set_mset_add_mset_insert set_mset_mset)

lemma mset_refill: "mset (OrderedIOBytesWorkload (refillIndex p tmp)) = mset (OrderedIOBytesWorkload p) + mset tmp"
proof -
  have "mset (foldl (\<lambda>tree a. index_insert cmp a tree) xs tmp) = mset xs + mset tmp" for cmp xs
    by (induction tmp arbitrary: xs) auto
  then show ?thesis by (simp add: refillIndex_def)
qed

lemma reorder_avail:
  assumes "0 \<le> getResourceQueueRatioIndex m ratio" "index_at (OrderedSegResAvailByRatio p) (getResourceQueueRatioIndex m ratio) \<noteq> None"
  obtains res av where "reorderSegResourceAvailIndex m p a ratio = Some (res, p\<lparr>OrderedSegResAvailByRatio := av\<rparr>)"
    "map (map_option mset) av = map (map_option mset) (OrderedSegResAvailByRatio p)"
proof -
  let ?i = "getResourceQueueRatioIndex m ratio"
  obtain tree where tree: "index_at (OrderedSegResAvailByRatio p) ?i = Some tree" using assms(2) by auto
  show ?thesis
  proof (cases "a \<in> set tree")
    case False
    then show ?thesis
      using that [of UTIL_BBST_NOT_IN_THIS_TREE "OrderedSegResAvailByRatio p"] tree assms(1)
      by (simp add: reorderSegResourceAvailIndex_def Let_def)
  next
    case True
    have at: "OrderedSegResAvailByRatio p ! nat ?i = Some tree" using tree by (auto simp: index_at_def split: if_splits)
    have "mset (index_insert cmp a (remove1 a tree)) = mset tree" for cmp using True by simp
    then have "map (map_option mset) ((OrderedSegResAvailByRatio p)[nat ?i := Some (index_insert cmp a (remove1 a tree))]) =
      map (map_option mset) (OrderedSegResAvailByRatio p)" for cmp
      using at by (simp add: map_update) (metis list_update_id list_update_beyond map_update option.simps(9) not_le)
    then show ?thesis
      using that [of FUNC_RETURN_OK] tree assms(1) True by (simp add: reorderSegResourceAvailIndex_def Let_def)
  qed
qed

lemma take_vseg_spec:
  assumes ridx: "ridx = getResourceQueueRatioIndex m (aa_ratio q)" "0 \<le> ridx" "index_at (OrderedSegResAvailByRatio p) ridx \<noteq> None"
    and s: "ctn_set s ridx \<noteq> None" and mem: "sint (aa_memory q) = uint (aa_memory q)"
  obtains av where
    "take_vseg m q p a (taken q ridx n s) =
       Some (p\<lparr>rp_heap := (rp_heap p)(a \<mapsto> taken q ridx (Suc n) s), OrderedSegResAvailByRatio := av\<rparr>)"
    "map (map_option mset) av = map (map_option mset) (OrderedSegResAvailByRatio p)"
proof -
  let ?p = "put_seg p a (taken q ridx (Suc n) s)"
  have "index_at (OrderedSegResAvailByRatio ?p) ridx \<noteq> None" using ridx(3) by (simp add: put_seg_def)
  then obtain res av where r: "reorderSegResourceAvailIndex m ?p a (aa_ratio q) = Some (res, ?p\<lparr>OrderedSegResAvailByRatio := av\<rparr>)"
    "map (map_option mset) av = map (map_option mset) (OrderedSegResAvailByRatio ?p)"
    using reorder_avail [of m "aa_ratio q" ?p a] ridx(1,2) by blast
  have "take_vseg m q p a (taken q ridx n s) = Some (?p\<lparr>OrderedSegResAvailByRatio := av\<rparr>)"
    using allocate_taken [OF s mem, of n] r(1) by (simp add: take_vseg_def ridx(1))
  then show ?thesis using that [of av] r(2) by (simp add: put_seg_def)
qed

section \<open>The invariant of an allocation\<close>

definition alloc_inv :: "ResourcePool \<Rightarrow> AllocArgs \<Rightarrow> int \<Rightarrow> AllocState \<Rightarrow> bool" where
  "alloc_inv p0 q ridx st \<longleftrightarrow>
     ht_inv HASHTABLE_Hash_UINT32 HASHTABLE_Comp_UINT32 (\<lambda>_. True) (as_vsegcnttbl st) \<and>
     (\<forall>a. rp_heap (as_pool st) a =
        map_option (\<lambda>s. taken q ridx (cnt_of (as_vsegcnttbl st) (st_ID (sr_Stat s))) s) (rp_heap p0 a)) \<and>
     (\<forall>(k, v) \<in> pairs (as_vsegcnttbl st). \<exists>c s. v = Some c \<and> rp_heap p0 (vs_Resource c) = Some s \<and>
        HASHTABLE_Comp_UINT32 k (seg_key (st_ID (sr_Stat s))) = 0 \<and> 0 < vs_VSegmentCount c \<and>
        IS_SEGRESOURCE_USABLE s \<and> ctn_set s ridx \<noteq> None) \<and>
     int (tbl_total (as_vsegcnttbl st)) = aa_nodecount q - as_nodecountleft st \<and> 0 \<le> as_nodecountleft st \<and>
     mset (OrderedIOBytesWorkload (as_pool st)) + mset (as_tmplist st) = mset (OrderedIOBytesWorkload p0) \<and>
     frame p0 (as_pool st) \<and> cache_ok p0 (HDFSHostNameIndexed (as_pool st)) \<and>
     (\<forall>a s c. rp_heap p0 a = Some s \<longrightarrow> ctn_set s ridx = Some c \<longrightarrow>
        int (cnt_of (as_vsegcnttbl st) (st_ID (sr_Stat s))) * uint (aa_memory q) \<le> rb_MemoryMB (cs_Available c)) \<and>
     (\<not> aa_fixnodecount q \<longrightarrow> (\<forall>a s. rp_heap p0 a = Some s \<longrightarrow>
        int (cnt_of (as_vsegcnttbl st) (st_ID (sr_Stat s))) \<le> aa_vseglimitpseg q))"

lemma pool_wfD:
  assumes "pool_wf ridx p" "rp_heap p a = Some s"
  shows "0 \<le> st_ID (sr_Stat s)" "st_ID (sr_Stat s) < 2 ^ 31" "getSegResource p (st_ID (sr_Stat s)) = Some a"
    "ctn_set s ridx = Some c \<Longrightarrow> 0 \<le> rb_MemoryMB (cs_Available c)"
    "ctn_set s ridx = Some c \<Longrightarrow> rb_MemoryMB (cs_Available c) < 2 ^ 31"
  using assms unfolding pool_wf_def by blast+

lemma pool_wf_inj:
  assumes "pool_wf ridx p" "rp_heap p a = Some s" "rp_heap p b = Some t" "st_ID (sr_Stat s) = st_ID (sr_Stat t)"
  shows "a = b"
  using pool_wfD(3) [OF assms(1,2)] pool_wfD(3) [OF assms(1,3)] assms(4) by simp

lemma alloc_invD:
  assumes "alloc_inv p0 q ridx st"
  shows "ht_inv HASHTABLE_Hash_UINT32 HASHTABLE_Comp_UINT32 (\<lambda>_. True) (as_vsegcnttbl st)"
    "rp_heap (as_pool st) a =
        map_option (\<lambda>s. taken q ridx (cnt_of (as_vsegcnttbl st) (st_ID (sr_Stat s))) s) (rp_heap p0 a)"
    "(k, v) \<in> pairs (as_vsegcnttbl st) \<Longrightarrow> \<exists>c s. v = Some c \<and> rp_heap p0 (vs_Resource c) = Some s \<and>
        HASHTABLE_Comp_UINT32 k (seg_key (st_ID (sr_Stat s))) = 0 \<and> 0 < vs_VSegmentCount c \<and>
        IS_SEGRESOURCE_USABLE s \<and> ctn_set s ridx \<noteq> None"
    "int (tbl_total (as_vsegcnttbl st)) = aa_nodecount q - as_nodecountleft st" "0 \<le> as_nodecountleft st"
    "mset (OrderedIOBytesWorkload (as_pool st)) + mset (as_tmplist st) = mset (OrderedIOBytesWorkload p0)"
    "frame p0 (as_pool st)" "cache_ok p0 (HDFSHostNameIndexed (as_pool st))"
    "rp_heap p0 b = Some s \<Longrightarrow> ctn_set s ridx = Some c \<Longrightarrow>
        int (cnt_of (as_vsegcnttbl st) (st_ID (sr_Stat s))) * uint (aa_memory q) \<le> rb_MemoryMB (cs_Available c)"
    "\<not> aa_fixnodecount q \<Longrightarrow> rp_heap p0 b = Some s \<Longrightarrow>
        int (cnt_of (as_vsegcnttbl st) (st_ID (sr_Stat s))) \<le> aa_vseglimitpseg q"
  using assms unfolding alloc_inv_def by blast+

lemma alloc_invI:
  assumes "ht_inv HASHTABLE_Hash_UINT32 HASHTABLE_Comp_UINT32 (\<lambda>_. True) (as_vsegcnttbl st)"
    "\<And>a. rp_heap (as_pool st) a =
        map_option (\<lambda>s. taken q ridx (cnt_of (as_vsegcnttbl st) (st_ID (sr_Stat s))) s) (rp_heap p0 a)"
    "\<And>k v. (k, v) \<in> pairs (as_vsegcnttbl st) \<Longrightarrow> \<exists>c s. v = Some c \<and> rp_heap p0 (vs_Resource c) = Some s \<and>
        HASHTABLE_Comp_UINT32 k (seg_key (st_ID (sr_Stat s))) = 0 \<and> 0 < vs_VSegmentCount c \<and>
        IS_SEGRESOURCE_USABLE s \<and> ctn_set s ridx \<noteq> None"
    "int (tbl_total (as_vsegcnttbl st)) = aa_nodecount q - as_nodecountleft st" "0 \<le> as_nodecountleft st"
    "mset (OrderedIOBytesWorkload (as_pool st)) + mset (as_tmplist st) = mset (OrderedIOBytesWorkload p0)"
    "frame p0 (as_pool st)" "cache_ok p0 (HDFSHostNameIndexed (as_pool st))"
    "\<And>b s c. rp_heap p0 b = Some s \<Longrightarrow> ctn_set s ridx = Some c \<Longrightarrow>
        int (cnt_of (as_vsegcnttbl st) (st_ID (sr_Stat s))) * uint (aa_memory q) \<le> rb_MemoryMB (cs_Available c)"
    "\<And>b s. \<not> aa_fixnodecount q \<Longrightarrow> rp_heap p0 b = Some s \<Longrightarrow>
        int (cnt_of (as_vsegcnttbl st) (st_ID (sr_Stat s))) \<le> aa_vseglimitpseg q"
  shows "alloc_inv p0 q ridx st"
  unfolding alloc_inv_def using assms by blast

lemma take_inv:
  assumes wf: "pool_wf ridx p0" and inv: "alloc_inv p0 q ridx st"
    and a: "rp_heap p0 a = Some s" "ctn_set s ridx = Some c" "IS_SEGRESOURCE_USABLE s"
    and n: "n = cnt_of (as_vsegcnttbl st) (st_ID (sr_Stat s))"
    and mem: "uint (aa_memory q) \<le> rb_MemoryMB (cs_Available c) - int n * uint (aa_memory q)"
    and lim: "aa_fixnodecount q \<or> int n < aa_vseglimitpseg q" and left: "0 < as_nodecountleft st"
    and v: "vs_Resource v = a" "unat (vs_VSegmentCount v) = Suc n"
    and av: "map (map_option mset) av = map (map_option mset) (OrderedSegResAvailByRatio (as_pool st))"
    and tbl: "cache_ok p0 tbl"
    and st': "as_pool st' = (as_pool st)\<lparr>rp_heap := (rp_heap (as_pool st))(a \<mapsto> taken q ridx (Suc n) s),
        OrderedSegResAvailByRatio := av, HDFSHostNameIndexed := tbl\<rparr>"
      "as_vsegcnttbl st' = ht_set (as_vsegcnttbl st) (seg_key (st_ID (sr_Stat s))) (Some v)"
      "as_nodecountleft st' = as_nodecountleft st - 1" "as_tmplist st' = as_tmplist st"
  shows "alloc_inv p0 q ridx st'"
proof -
  let ?t = "as_vsegcnttbl st" and ?i = "st_ID (sr_Stat s)"
  note D = alloc_invD [OF inv] and ID = pool_wfD(1,2) [OF wf]
  have cnt: "cnt_of (as_vsegcnttbl st') (st_ID (sr_Stat u)) = (if st_ID (sr_Stat u) = ?i then Suc n else cnt_of ?t (st_ID (sr_Stat u)))"
    if "rp_heap p0 b = Some u" for b u
    using cnt_of_set [OF D(1) ID [OF a(1)] ID [OF that], of "Some v"] v(2) by (simp add: st'(2) vcount_def)
  show ?thesis
  proof (rule alloc_invI)
    show "ht_inv HASHTABLE_Hash_UINT32 HASHTABLE_Comp_UINT32 (\<lambda>_. True) (as_vsegcnttbl st')"
      unfolding st'(2) by (rule tbl_laws(1) [OF D(1)])
    fix b
    show "rp_heap (as_pool st') b =
        map_option (\<lambda>s. taken q ridx (cnt_of (as_vsegcnttbl st') (st_ID (sr_Stat s))) s) (rp_heap p0 b)"
    proof (cases "rp_heap p0 b")
      case None
      then show ?thesis using D(2) [of b] a(1) by (auto simp: st'(1))
    next
      case (Some u)
      show ?thesis
      proof (cases "b = a")
        case True
        then show ?thesis using a(1) cnt [OF a(1)] by (simp add: st'(1))
      next
        case False
        then have "st_ID (sr_Stat u) \<noteq> ?i" using pool_wf_inj [OF wf a(1) Some] by auto
        then show ?thesis using False Some D(2) [of b] cnt [OF Some] by (simp add: st'(1))
      qed
    qed
  next
    fix k w assume kw: "(k, w) \<in> pairs (as_vsegcnttbl st')"
    obtain k0 where k0: "HASHTABLE_Comp_UINT32 k0 (seg_key ?i) = 0"
      "pairs (as_vsegcnttbl st') = {p \<in> pairs ?t. HASHTABLE_Comp_UINT32 (fst p) (seg_key ?i) \<noteq> 0} \<union> {(k0, Some v)}"
      using key_uint32.set_inv [OF D(1) TrueI, of "seg_key ?i" "Some v" False] unfolding ht_set_def st'(2) by blast
    have "0 < vs_VSegmentCount v" using v(2) by (metis unat_gt_0 word_neq_0_conv zero_less_Suc)
    then show "\<exists>c s. w = Some c \<and> rp_heap p0 (vs_Resource c) = Some s \<and>
        HASHTABLE_Comp_UINT32 k (seg_key (st_ID (sr_Stat s))) = 0 \<and> 0 < vs_VSegmentCount c \<and>
        IS_SEGRESOURCE_USABLE s \<and> ctn_set s ridx \<noteq> None"
      using kw k0 D(3) [of k w] a v(1) by auto
  next
    have "tbl_total (as_vsegcnttbl st') = Suc (tbl_total ?t)"
      using tbl_total_set [OF D(1), of ?i "Some v"] n v(2) by (simp add: st'(2) vcount_def)
    then show "int (tbl_total (as_vsegcnttbl st')) = aa_nodecount q - as_nodecountleft st'"
      using D(4) by (simp add: st'(3))
    show "0 \<le> as_nodecountleft st'" using left by (simp add: st'(3))
    show "mset (OrderedIOBytesWorkload (as_pool st')) + mset (as_tmplist st') = mset (OrderedIOBytesWorkload p0)"
      using D(6) by (simp add: st'(1,4))
    have "frame (as_pool st) (as_pool st')" using av by (simp add: frame_def st'(1))
    then show "frame p0 (as_pool st')" using D(7) frame_trans by blast
    show "cache_ok p0 (HDFSHostNameIndexed (as_pool st'))" using tbl by (simp add: st'(1))
  next
    fix b u d assume b: "rp_heap p0 b = Some u" "ctn_set u ridx = Some d"
    show "int (cnt_of (as_vsegcnttbl st') (st_ID (sr_Stat u))) * uint (aa_memory q) \<le> rb_MemoryMB (cs_Available d)"
    proof (cases "st_ID (sr_Stat u) = ?i")
      case True
      then have "b = a" using pool_wf_inj [OF wf b(1) a(1)] by simp
      then have "d = c" using a b by simp
      then show ?thesis using cnt [OF b(1)] True mem by (simp add: algebra_simps)
    next
      case False
      then show ?thesis using cnt [OF b(1)] D(9) [OF b] by simp
    qed
  next
    fix b u assume b: "\<not> aa_fixnodecount q" "rp_heap p0 b = Some u"
    show "int (cnt_of (as_vsegcnttbl st') (st_ID (sr_Stat u))) \<le> aa_vseglimitpseg q"
      using cnt [OF b(2)] D(10) [OF b] lim b(1) by auto
  qed
qed

section \<open>Stage 2 keeps the invariant\<close>

lemma frame_hdfs: "frame p0 p \<Longrightarrow> frame p0 (p\<lparr>HDFSHostNameIndexed := tbl\<rparr>)"
  unfolding frame_def by (cases p0; cases p) simp

lemma findHDFSNameIndex_spec:
  assumes "hosts_known p0" "frame p0 p" "cache_ok p0 (HDFSHostNameIndexed p)" "\<forall>n \<in> set names. 0 \<notin> set n"
  obtains j tbl where "findHDFSNameIndex resolve p wanted k names = (j, p\<lparr>HDFSHostNameIndexed := tbl\<rparr>)" "cache_ok p0 tbl"
proof -
  have "\<exists>j tbl. findHDFSNameIndex resolve p wanted k names = (j, p\<lparr>HDFSHostNameIndexed := tbl\<rparr>) \<and> cache_ok p0 tbl"
    using assms
  proof (induction names arbitrary: p k)
    case Nil
    then show ?case by (intro exI [of _ k] exI [of _ "HDFSHostNameIndexed p"]) simp
  next
    case (Cons n names)
    obtain res i p' where l: "getSegIDByHDFSHostName resolve p n = (res, i, p')" by (metis prod_cases3)
    obtain tbl where tbl: "p' = p\<lparr>HDFSHostNameIndexed := tbl\<rparr>" "cache_ok p0 tbl"
      using lookup_spec(1) [OF Cons.prems(1-3) _ l] Cons.prems(4) by auto
    show ?case
    proof (cases "i = wanted")
      case True
      then show ?thesis using l tbl by (auto simp: Let_def)
    next
      case False
      have "frame p0 p'" using Cons.prems(2) tbl(1) frame_hdfs by blast
      then obtain j tbl' where "findHDFSNameIndex resolve p' wanted (k + 1) names = (j, p'\<lparr>HDFSHostNameIndexed := tbl'\<rparr>)" "cache_ok p0 tbl'"
        using Cons.IH [of p' "k + 1"] Cons.prems tbl by auto
      then show ?thesis using False l tbl(1) by (auto simp: Let_def)
    qed
  qed
  then show ?thesis using that by blast
qed

lemma alloc_inv_cong:
  assumes "alloc_inv p0 q ridx st" "as_vsegcnttbl st' = as_vsegcnttbl st" "as_nodecountleft st' = as_nodecountleft st"
    "rp_heap (as_pool st') = rp_heap (as_pool st)" "frame p0 (as_pool st')" "cache_ok p0 (HDFSHostNameIndexed (as_pool st'))"
    "mset (OrderedIOBytesWorkload (as_pool st')) + mset (as_tmplist st') = mset (OrderedIOBytesWorkload (as_pool st)) + mset (as_tmplist st)"
  shows "alloc_inv p0 q ridx st'"
  using assms(1) unfolding alloc_inv_def assms(2,3,4) assms(7) using assms(5,6) by blast

lemma frame_io: "frame p0 p \<Longrightarrow> frame p0 (p\<lparr>OrderedIOBytesWorkload := w\<rparr>)"
  unfolding frame_def by (cases p0; cases p) simp

lemma pop_inv:
  assumes "alloc_inv p0 q ridx st" "OrderedIOBytesWorkload (as_pool st) = a # rest"
  shows "alloc_inv p0 q ridx (st\<lparr>as_pool := (as_pool st)\<lparr>OrderedIOBytesWorkload := rest\<rparr>, as_tmplist := as_tmplist st @ [a]\<rparr>)"
    (is "alloc_inv _ _ _ ?st")
  using alloc_invD(7,8) [OF assms(1)] assms(2)
  by (intro alloc_inv_cong [OF assms(1)]) (simp_all add: frame_io)

lemma endOfBody_pool:
  "as_pool (endOfBody full st) =
     (if OrderedIOBytesWorkload (as_pool st) = [] then refillIndex (as_pool st) (as_tmplist st) else as_pool st)"
  "as_tmplist (endOfBody full st) = (if OrderedIOBytesWorkload (as_pool st) = [] then [] else as_tmplist st)"
  by (simp_all add: endOfBody_def Let_def)

lemma endOfBody_inv:
  assumes "alloc_inv p0 q ridx st"
  shows "alloc_inv p0 q ridx (endOfBody full st)"
proof (rule alloc_inv_cong [OF assms])
  show "frame p0 (as_pool (endOfBody full st))"
    using alloc_invD(7) [OF assms] by (simp add: endOfBody_pool refillIndex_def frame_io)
  show "cache_ok p0 (HDFSHostNameIndexed (as_pool (endOfBody full st)))"
    using alloc_invD(8) [OF assms] by (simp add: endOfBody_pool refillIndex_def)
  show "mset (OrderedIOBytesWorkload (as_pool (endOfBody full st))) + mset (as_tmplist (endOfBody full st)) =
      mset (OrderedIOBytesWorkload (as_pool st)) + mset (as_tmplist st)"
    by (simp add: endOfBody_pool mset_refill)
qed simp_all

text \<open>The counter of a segment, if there is one.\<close>

lemma curhost_spec:
  assumes wf: "pool_wf ridx p0" and inv: "alloc_inv p0 q ridx st" and a: "rp_heap p0 a = Some s"
    and cur: "curhost = Option.bind (ht_get (as_vsegcnttbl st) (seg_key (st_ID (sr_Stat s)))) id"
  shows "curhost = None \<Longrightarrow> cnt_of (as_vsegcnttbl st) (st_ID (sr_Stat s)) = 0"
    "curhost = Some c \<Longrightarrow> vs_Resource c = a \<and> unat (vs_VSegmentCount c) = cnt_of (as_vsegcnttbl st) (st_ID (sr_Stat s))"
proof -
  note D = alloc_invD(1,3) [OF inv]
  let ?k = "seg_key (st_ID (sr_Stat s))"
  have some: "\<exists>c. v = Some c \<and> vs_Resource c = a" if g: "ht_get (as_vsegcnttbl st) ?k = Some v" for v
  proof -
    obtain k where k: "(k, v) \<in> pairs (as_vsegcnttbl st)" "HASHTABLE_Comp_UINT32 k ?k = 0"
      using g in_pairs_match [OF D(1)] by blast
    obtain c t where c: "v = Some c" "rp_heap p0 (vs_Resource c) = Some t"
      "HASHTABLE_Comp_UINT32 k (seg_key (st_ID (sr_Stat t))) = 0"
      using D(2) [OF k(1)] by blast
    have "HASHTABLE_Comp_UINT32 (seg_key (st_ID (sr_Stat s))) (seg_key (st_ID (sr_Stat t))) = 0"
      using k(2) c(3) unfolding cmp_uint32 by simp
    then have "st_ID (sr_Stat s) = st_ID (sr_Stat t)"
      using seg_key_cmp [OF pool_wfD(1,2) [OF wf a] pool_wfD(1,2) [OF wf c(2)]] by blast
    then have "a = vs_Resource c" by (rule pool_wf_inj [OF wf a c(2)])
    then show ?thesis using c(1) by blast
  qed
  show "cnt_of (as_vsegcnttbl st) (st_ID (sr_Stat s)) = 0" if "curhost = None"
  proof (cases "ht_get (as_vsegcnttbl st) ?k")
    case (Some v)
    then show ?thesis using some [OF Some] that cur by auto
  qed (simp add: cnt_of_def)
  show "vs_Resource c = a \<and> unat (vs_VSegmentCount c) = cnt_of (as_vsegcnttbl st) (st_ID (sr_Stat s))" if "curhost = Some c"
  proof (cases "ht_get (as_vsegcnttbl st) ?k")
    case (Some v)
    then show ?thesis using some [OF Some] that cur by (auto simp: cnt_of_def vcount_def)
  qed (use that cur in simp)
qed

lemma can_takeD:
  assumes "can_take slicelimit m q skip s curhost"
  shows "IS_SEGRESOURCE_USABLE s" "0 \<le> getResourceQueueRatioIndex m (aa_ratio q)"
    "\<exists>c. ctn_set s (getResourceQueueRatioIndex m (aa_ratio q)) = Some c \<and>
       aa_memory q \<le> of_int (rb_MemoryMB (cs_Available c))"
    "curhost = Some h \<Longrightarrow> aa_fixnodecount q \<or> vs_VSegmentCount h < of_int (aa_vseglimitpseg q)"
proof -
  show "IS_SEGRESOURCE_USABLE s" using assms by (simp add: can_take_def)
  have g: "fst (getGRMContainerSet m s (aa_ratio q)) = FUNC_RETURN_OK" using assms by (auto simp: can_take_def)
  then show r: "0 \<le> getResourceQueueRatioIndex m (aa_ratio q)"
    by (simp add: getGRMContainerSet_def Let_def split: if_splits)
  then have "snd (getGRMContainerSet m s (aa_ratio q)) = ctn_set s (getResourceQueueRatioIndex m (aa_ratio q))"
    by (simp add: getGRMContainerSet_def Let_def)
  then show "\<exists>c. ctn_set s (getResourceQueueRatioIndex m (aa_ratio q)) = Some c \<and>
       aa_memory q \<le> of_int (rb_MemoryMB (cs_Available c))"
    using assms by (cases "ctn_set s (getResourceQueueRatioIndex m (aa_ratio q))") (auto simp: can_take_def)
  show "aa_fixnodecount q \<or> vs_VSegmentCount h < of_int (aa_vseglimitpseg q)" if "curhost = Some h"
    using assms that by (auto simp: can_take_def not_le)
qed

lemma uint_of_int_31: "0 \<le> x \<Longrightarrow> x < 2 ^ 31 \<Longrightarrow> uint (of_int x :: uint32) = x"
  by (simp add: uint_word_of_int)

lemma taken_available:
  assumes wf: "pool_wf ridx p0" and inv: "alloc_inv p0 q ridx st" and a: "rp_heap p0 a = Some s" and c: "ctn_set s ridx = Some c"
    and n: "n = cnt_of (as_vsegcnttbl st) (st_ID (sr_Stat s))"
  shows "uint (of_int (rb_MemoryMB (cs_Available c) - int n * uint (aa_memory q)) :: uint32) =
    rb_MemoryMB (cs_Available c) - int n * uint (aa_memory q)"
proof (rule uint_of_int_31)
  show "0 \<le> rb_MemoryMB (cs_Available c) - int n * uint (aa_memory q)"
    using alloc_invD(9) [OF inv a c] n by simp
  have "0 \<le> int n * uint (aa_memory q)" by simp
  then show "rb_MemoryMB (cs_Available c) - int n * uint (aa_memory q) < 2 ^ 31"
    using pool_wfD(5) [OF wf a c] by linarith
qed

lemma can_take_spec:
  assumes wf: "pool_wf ridx p0" and q: "args_ok q" and inv: "alloc_inv p0 q ridx st" and a: "rp_heap p0 a = Some s"
    and ridx: "ridx = getResourceQueueRatioIndex m (aa_ratio q)"
    and n: "n = cnt_of (as_vsegcnttbl st) (st_ID (sr_Stat s))"
    and cur: "curhost = Option.bind (ht_get (as_vsegcnttbl st) (seg_key (st_ID (sr_Stat s)))) id"
    and can: "can_take slicelimit m q skip (taken q ridx n s) curhost"
  obtains c where "0 \<le> ridx" "ctn_set s ridx = Some c" "IS_SEGRESOURCE_USABLE s"
    "uint (aa_memory q) \<le> rb_MemoryMB (cs_Available c) - int n * uint (aa_memory q)"
    "aa_fixnodecount q \<or> int n < aa_vseglimitpseg q"
proof -
  note C = can_takeD [OF can]
  obtain c where c: "ctn_set s ridx = Some c"
    and ge: "aa_memory q \<le> of_int (rb_MemoryMB (cs_Available c) - int n * uint (aa_memory q))"
    using C(3) unfolding ridx [symmetric]
    by (auto simp: minusResourceBundleData_def simp del: of_int_diff of_int_mult)
  have "uint (aa_memory q) \<le> rb_MemoryMB (cs_Available c) - int n * uint (aa_memory q)"
    using ge taken_available [OF wf inv a c n] unfolding word_le_def by simp
  moreover have "aa_fixnodecount q \<or> int n < aa_vseglimitpseg q"
  proof (cases curhost)
    case None
    then show ?thesis using curhost_spec(1) [OF wf inv a cur] n q by (auto simp: args_ok_def)
  next
    case (Some h)
    have l: "uint (of_int (aa_vseglimitpseg q) :: uint32) = aa_vseglimitpseg q"
      using q by (intro uint_of_int_31) (auto simp: args_ok_def)
    have "int n = uint (vs_VSegmentCount h)"
      using curhost_spec(2) [OF wf inv a cur Some] n by (metis int_nat_eq unat_eq_nat_uint uint_ge_0)
    then show ?thesis using C(4) [OF Some] l unfolding word_less_def by auto
  qed
  ultimately show ?thesis using that C(1,2) c ridx by simp
qed

lemma choose_inv:
  assumes wf: "pool_wf ridx p0" and q: "args_ok q" and inv: "alloc_inv p0 q ridx st" and a: "rp_heap p0 a = Some s"
    and ridx: "ridx = getResourceQueueRatioIndex m (aa_ratio q)" and left: "0 < as_nodecountleft st"
    and n: "n = cnt_of (as_vsegcnttbl st) (st_ID (sr_Stat s))"
    and cur: "curhost = Option.bind (ht_get (as_vsegcnttbl st) (seg_key (st_ID (sr_Stat s)))) id"
    and can: "can_take slicelimit m q skip (taken q ridx n s) curhost"
  obtains st' where "chooseSegment resolve m q st a (taken q ridx n s) curhost = Some st'" "alloc_inv p0 q ridx st'"
proof -
  note D = alloc_invD [OF inv]
  obtain c where C: "0 \<le> ridx" "ctn_set s ridx = Some c" "IS_SEGRESOURCE_USABLE s"
    "uint (aa_memory q) \<le> rb_MemoryMB (cs_Available c) - int n * uint (aa_memory q)"
    "aa_fixnodecount q \<or> int n < aa_vseglimitpseg q"
    using can_take_spec [OF wf q inv a ridx n cur can] by blast
  have hk: "hosts_known p0" and ix: "index_at (OrderedSegResAvailByRatio p0) ridx \<noteq> None"
    and names: "\<forall>x \<in> set (aa_preferredhostname q). 0 \<notin> set x"
    using wf q C(1) by (simp_all add: pool_wf_def args_ok_def)
  have "uint (aa_memory q) < 2 ^ 31" using q by (simp add: args_ok_def)
  then have mem: "sint (aa_memory q) = uint (aa_memory q)"
    by (simp add: sint_uint signed_take_bit_int_eq_self order_trans [OF _ uint_ge_0])
  obtain av where tv: "take_vseg m q (as_pool st) a (taken q ridx n s) =
       Some ((as_pool st)\<lparr>rp_heap := (rp_heap (as_pool st))(a \<mapsto> taken q ridx (Suc n) s), OrderedSegResAvailByRatio := av\<rparr>)"
    "map (map_option mset) av = map (map_option mset) (OrderedSegResAvailByRatio (as_pool st))"
    using take_vseg_spec [OF ridx C(1) frame_index [OF D(7) ix] _ mem, of s a n] C(2) by blast
  let ?p = "(as_pool st)\<lparr>rp_heap := (rp_heap (as_pool st))(a \<mapsto> taken q ridx (Suc n) s), OrderedSegResAvailByRatio := av\<rparr>"
  have fp: "frame p0 ?p" "cache_ok p0 (HDFSHostNameIndexed ?p)"
  proof -
    have "frame (as_pool st) ?p" using tv(2) by (simp add: frame_def)
    then show "frame p0 ?p" by (rule frame_trans [OF D(7)])
    show "cache_ok p0 (HDFSHostNameIndexed ?p)" using D(8) by simp
  qed
  show ?thesis
  proof (cases curhost)
    case (Some h)
    have h: "vs_Resource h = a" "unat (vs_VSegmentCount h) = n"
      using curhost_spec(2) [OF wf inv a cur Some] n by auto
    have "int n < 2 ^ 31"
      using cnt_of_le_total [OF D(1), of "st_ID (sr_Stat s)"] D(4,5) q n by (simp add: args_ok_def)
    then have inc: "unat (vs_VSegmentCount h + 1) = Suc n" using h(2) by (simp add: unat_word_ariths)
    let ?st = "st\<lparr>as_pool := ?p, as_vsegcnttbl := ht_set (as_vsegcnttbl st) (seg_key (st_ID (sr_Stat s)))
        (Some (h\<lparr>vs_VSegmentCount := vs_VSegmentCount h + 1\<rparr>)), as_nodecountleft := as_nodecountleft st - 1, as_impossiblecount := 0\<rparr>"
    have "chooseSegment resolve m q st a (taken q ridx n s) curhost = Some ?st"
      using tv(1) Some by (simp add: chooseSegment_def)
    moreover have "alloc_inv p0 q ridx ?st"
      by (rule take_inv [OF wf inv a C(2,3) n C(4,5) left, of "h\<lparr>vs_VSegmentCount := vs_VSegmentCount h + 1\<rparr>" av
            "HDFSHostNameIndexed (as_pool st)"])
        (use h inc tv(2) D(8) in simp_all)
    ultimately show ?thesis by (rule that)
  next
    case None
    then have n0: "n = 0" using curhost_spec(1) [OF wf inv a cur] n by simp
    obtain j tbl where f: "findHDFSNameIndex resolve ?p (st_ID (sr_Stat s)) 0 (aa_preferredhostname q) =
        (j, ?p\<lparr>HDFSHostNameIndexed := tbl\<rparr>)" "cache_ok p0 tbl"
      using findHDFSNameIndex_spec [OF hk fp names] by blast
    let ?v = "createVSegmentCounter j a (taken q ridx n s)"
    let ?st = "st\<lparr>as_pool := ?p\<lparr>HDFSHostNameIndexed := tbl\<rparr>, as_vsegcnttbl := ht_set (as_vsegcnttbl st) (seg_key (st_ID (sr_Stat s)))
        (Some ?v), as_nodecountleft := as_nodecountleft st - 1, as_impossiblecount := 0\<rparr>"
    have "chooseSegment resolve m q st a (taken q ridx n s) curhost = Some ?st"
      using tv(1) None f(1) by (simp add: chooseSegment_def)
    moreover have "alloc_inv p0 q ridx ?st"
      by (rule take_inv [OF wf inv a C(2,3) n C(4,5) left, of ?v av tbl])
        (use f tv(2) n0 in \<open>simp_all add: createVSegmentCounter_def\<close>)
    ultimately show ?thesis by (rule that)
  qed
qed

lemma body_inv:
  assumes wf: "pool_wf ridx p0" and q: "args_ok q" and inv: "alloc_inv p0 q ridx st"
    and ridx: "ridx = getResourceQueueRatioIndex m (aa_ratio q)" and cond: "loop_cond full st"
  obtains st' where "allocateByWorkloadBody resolve slicelimit m q full st = Some st'" "alloc_inv p0 q ridx st'"
proof -
  note D = alloc_invD [OF inv]
  obtain a rest where ar: "OrderedIOBytesWorkload (as_pool st) = a # rest"
    using cond by (cases "OrderedIOBytesWorkload (as_pool st)") (auto simp: loop_cond_def)
  have "a \<in># mset (OrderedIOBytesWorkload p0)" using D(6) ar by (metis list.set_intros(1) set_mset_mset union_iff)
  then obtain s where s: "rp_heap p0 a = Some s" using wf unfolding pool_wf_def by auto
  define n where "n = cnt_of (as_vsegcnttbl st) (st_ID (sr_Stat s))"
  have hs: "rp_heap (as_pool st) a = Some (taken q ridx n s)" using D(2) [of a] s by (simp add: n_def)
  define st1 where "st1 = st\<lparr>as_pool := (as_pool st)\<lparr>OrderedIOBytesWorkload := rest\<rparr>, as_tmplist := as_tmplist st @ [a]\<rparr>"
  have inv1: "alloc_inv p0 q ridx st1" unfolding st1_def by (rule pop_inv [OF inv ar])
  define curhost where "curhost = Option.bind (ht_get (as_vsegcnttbl st1) (seg_key (st_ID (sr_Stat s)))) id"
  have ch: "(case getHASHTABLENode (as_vsegcnttbl st) (seg_key (st_ID (sr_Stat s))) of None \<Rightarrow> None | Some pair \<Rightarrow> snd pair) = curhost"
    by (simp add: curhost_def ht_get_def st1_def split: option.splits)
  have body: "allocateByWorkloadBody resolve slicelimit m q full st =
      (if can_take slicelimit m q (as_skipchosenmachine st) (taken q ridx n s) curhost
       then map_option (endOfBody full) (chooseSegment resolve m q st1 a (taken q ridx n s) curhost)
       else Some (endOfBody full (st1\<lparr>as_impossiblecount := as_impossiblecount st + 1\<rparr>)))"
    using ar hs ch by (simp add: allocateByWorkloadBody_def st1_def map_option_case bind_eq_None_conv split: option.split)
  show ?thesis
  proof (cases "can_take slicelimit m q (as_skipchosenmachine st) (taken q ridx n s) curhost")
    case True
    have "0 < as_nodecountleft st1" using cond by (simp add: loop_cond_def st1_def)
    moreover have "n = cnt_of (as_vsegcnttbl st1) (st_ID (sr_Stat s))" by (simp add: n_def st1_def)
    ultimately obtain st2 where st2: "chooseSegment resolve m q st1 a (taken q ridx n s) curhost = Some st2" "alloc_inv p0 q ridx st2"
      using choose_inv [OF wf q inv1 s ridx _ _ curhost_def True] by blast
    then show ?thesis using body True that [of "endOfBody full st2"] endOfBody_inv by simp
  next
    case False
    have "alloc_inv p0 q ridx (st1\<lparr>as_impossiblecount := as_impossiblecount st + 1\<rparr>)"
      by (rule alloc_inv_cong [OF inv1]) (use alloc_invD(7,8) [OF inv1] in simp_all)
    then show ?thesis using body False that endOfBody_inv by simp
  qed
qed

lemma loop_inv:
  "pool_wf ridx p0 \<Longrightarrow> args_ok q \<Longrightarrow> ridx = getResourceQueueRatioIndex m (aa_ratio q) \<Longrightarrow> alloc_inv p0 q ridx st \<Longrightarrow>
    \<exists>st'. allocateByWorkload resolve slicelimit m q full st = Some st' \<and> alloc_inv p0 q ridx st' \<and> \<not> loop_cond full st'"
proof (induction resolve slicelimit m q full st rule: allocateByWorkload.induct)
  case (1 resolve slicelimit m q full st)
  show ?case
  proof (cases "loop_cond full st")
    case True
    obtain st1 where st1: "allocateByWorkloadBody resolve slicelimit m q full st = Some st1" "alloc_inv p0 q ridx st1"
      using body_inv [OF 1(2,3,5,4) True] by blast
    have "\<exists>st'. allocateByWorkload resolve slicelimit m q full st1 = Some st' \<and> alloc_inv p0 q ridx st' \<and> \<not> loop_cond full st'"
      using 1(1) [OF True st1(1) 1(2,3,4) st1(2)] .
    then show ?thesis using True st1(1) by (subst allocateByWorkload.simps) simp
  next
    case False
    then show ?thesis using 1(5) by (subst allocateByWorkload.simps) simp
  qed
qed

section \<open>Stage 1 keeps the invariant\<close>

text \<open>The segments that a list of host names leads to.\<close>

fun resolve_ids :: "resolver \<Rightarrow> ResourcePool \<Rightarrow> uint8 list list \<Rightarrow> int list" where
  "resolve_ids resolve p [] = []"
| "resolve_ids resolve p (n # ns) =
     (let (res, i, p') = getSegIDByHDFSHostName resolve p n
      in (if res = FUNC_RETURN_OK then [i] else []) @ resolve_ids resolve p' ns)"

lemma tryAddresses_cong:
  assumes "SegmentHostAddrIndexed p' = SegmentHostAddrIndexed p"
  shows "tryAddresses p' = tryAddresses p"
proof
  fix addrs
  have e: "getSegIDByHostAddr p' = getSegIDByHostAddr p" by (rule ext) (simp add: getSegIDByHostAddr_def assms)
  show "tryAddresses p' addrs = tryAddresses p addrs"
  proof (induction addrs)
    case (Cons a addrs)
    show ?case unfolding tryAddresses.simps e Cons ..
  qed simp
qed

lemma lookup_cong:
  assumes "SegmentHostNameIndexed p' = SegmentHostNameIndexed p" "SegmentHostAddrIndexed p' = SegmentHostAddrIndexed p"
  shows "getSegIDByHostNameInternal resolve p' tbl n = getSegIDByHostNameInternal resolve p tbl n"
proof -
  have "getSegIDByHostName p' = getSegIDByHostName p" by (rule ext) (simp add: getSegIDByHostName_def assms(1))
  then show ?thesis unfolding getSegIDByHostNameInternal_def tryAddresses_cong [OF assms(2)] by presburger
qed

lemma resolve_ids_cong:
  "SegmentHostNameIndexed p' = SegmentHostNameIndexed p \<Longrightarrow> SegmentHostAddrIndexed p' = SegmentHostAddrIndexed p \<Longrightarrow>
   HDFSHostNameIndexed p' = HDFSHostNameIndexed p \<Longrightarrow> resolve_ids resolve p' ns = resolve_ids resolve p ns"
proof (induction ns arbitrary: p p')
  case (Cons n ns)
  obtain res i tbl where l: "getSegIDByHostNameInternal resolve p (HDFSHostNameIndexed p) n = (res, i, tbl)"
    by (metis prod_cases3)
  have l': "getSegIDByHostNameInternal resolve p' (HDFSHostNameIndexed p') n = (res, i, tbl)"
    using l lookup_cong [OF Cons.prems(1,2)] Cons.prems(3) by simp
  show ?case
    using Cons.IH [of "p'\<lparr>HDFSHostNameIndexed := tbl\<rparr>" "p\<lparr>HDFSHostNameIndexed := tbl\<rparr>"] Cons.prems l l'
    by (simp add: getSegIDByHDFSHostName_def)
qed simp

lemma resolve_ids_registered:
  "hosts_known p0 \<Longrightarrow> frame p0 p \<Longrightarrow> cache_ok p0 (HDFSHostNameIndexed p) \<Longrightarrow> \<forall>n \<in> set ns. 0 \<notin> set n \<Longrightarrow>
   i \<in> set (resolve_ids resolve p ns) \<Longrightarrow> registered p0 i"
proof (induction ns arbitrary: p)
  case (Cons n ns)
  obtain res j p' where l: "getSegIDByHDFSHostName resolve p n = (res, j, p')" by (metis prod_cases3)
  note L = lookup_spec [OF Cons.prems(1-3) _ l]
  obtain tbl where tbl: "p' = p\<lparr>HDFSHostNameIndexed := tbl\<rparr>" "cache_ok p0 tbl" using L(1) Cons.prems(4) by auto
  have "frame p0 p'" using frame_hdfs [OF Cons.prems(2)] tbl(1) by simp
  then have "registered p0 i" if "i \<in> set (resolve_ids resolve p' ns)"
    using Cons.IH [of p'] Cons.prems(1,4) tbl that by simp
  then show ?case using Cons.prems(4,5) l L(2) by (auto split: if_splits)
qed simp

lemma registeredD:
  assumes "registered p i"
  obtains a s where "getSegResource p i = Some a" "rp_heap p a = Some s" "st_ID (sr_Stat s) = i"
  using assms by (auto simp: registered_def split: option.splits)

lemma div_neq_0_le: "(x :: uint32) div y \<noteq> 0 \<Longrightarrow> y \<le> x"
  by (metis div_word_less not_le)

lemma locality_inv:
  assumes wf: "pool_wf ridx p0" and q: "args_ok q" and ridx: "ridx = getResourceQueueRatioIndex m (aa_ratio q)"
  shows "alloc_inv p0 q ridx st \<Longrightarrow> 0 < as_nodecountleft st \<Longrightarrow> \<forall>n \<in> set ns. 0 \<notin> set n \<Longrightarrow>
    distinct (resolve_ids resolve (as_pool st) ns) \<Longrightarrow>
    \<forall>i \<in> set (resolve_ids resolve (as_pool st) ns). cnt_of (as_vsegcnttbl st) i = 0 \<Longrightarrow>
    \<exists>st'. allocateByLocality resolve slicelimit m q k ns st = Some st' \<and> alloc_inv p0 q ridx st' \<and>
      as_impossiblecount st' = as_impossiblecount st \<and> as_skipchosenmachine st' = as_skipchosenmachine st"
proof (induction ns arbitrary: st k)
  case (Cons n ns)
  note D = alloc_invD [OF Cons.prems(1)]
  have hk: "hosts_known p0" using wf by (simp add: pool_wf_def)
  obtain res i p where l: "getSegIDByHDFSHostName resolve (as_pool st) n = (res, i, p)" by (metis prod_cases3)
  note L = lookup_spec [OF hk D(7,8) _ l]
  obtain tbl where tbl: "p = (as_pool st)\<lparr>HDFSHostNameIndexed := tbl\<rparr>" "cache_ok p0 tbl" using L(1) Cons.prems(3) by auto
  let ?st = "st\<lparr>as_pool := p\<rparr>"
  have fr: "frame p0 p" using frame_hdfs [OF D(7)] tbl(1) by simp
  have inv: "alloc_inv p0 q ridx ?st"
    by (rule alloc_inv_cong [OF Cons.prems(1)]) (use fr tbl in simp_all)
  have ids: "resolve_ids resolve (as_pool st) (n # ns) = (if res = FUNC_RETURN_OK then [i] else []) @ resolve_ids resolve p ns"
    using l by simp
  have skip: "\<exists>st'. allocateByLocality resolve slicelimit m q (k + 1) ns ?st = Some st' \<and> alloc_inv p0 q ridx st' \<and>
      as_impossiblecount st' = as_impossiblecount st \<and> as_skipchosenmachine st' = as_skipchosenmachine st"
    using Cons.IH [OF inv, of "k + 1"] Cons.prems(2-5) unfolding ids by simp
  show ?case
  proof (cases "res = FUNC_RETURN_OK")
    case False
    then show ?thesis using skip l by simp
  next
    case True
    obtain a s where as: "getSegResource p0 i = Some a" "rp_heap p0 a = Some s" "st_ID (sr_Stat s) = i"
      using L(2) True Cons.prems(3) registeredD [of p0 i] by auto
    have n0: "cnt_of (as_vsegcnttbl st) (st_ID (sr_Stat s)) = 0" using Cons.prems(5) as(3) True unfolding ids by simp
    have seg: "getSegResource p i = Some a" using as(1) frame_tables(1) [OF fr] by simp
    have hp: "rp_heap p a = Some s" using D(2) [of a] as(2) n0 tbl(1) by simp
    define go where "go \<longleftrightarrow> IS_SEGRESOURCE_USABLE s \<and> fst (getGRMContainerSet m s (aa_ratio q)) = FUNC_RETURN_OK \<and>
      \<not> ((case snd (getGRMContainerSet m s (aa_ratio q)) of None \<Rightarrow> 0
         | Some c \<Rightarrow> (of_int (rb_MemoryMB (cs_Available c)) :: uint32) div aa_memory q) = 0 \<or>
       sr_SliceWorkload s + aa_slicesize q > slicelimit)"
    show ?thesis
    proof (cases go)
      case False
      then show ?thesis
        using skip l True seg hp by (auto simp: go_def Let_def split: prod.splits)
    next
      case go: True
      have r0: "0 \<le> ridx" using go by (auto simp: go_def getGRMContainerSet_def ridx Let_def split: if_splits)
      then have "snd (getGRMContainerSet m s (aa_ratio q)) = ctn_set s ridx" by (simp add: getGRMContainerSet_def ridx Let_def)
      then obtain c where c: "ctn_set s ridx = Some c" "(of_int (rb_MemoryMB (cs_Available c)) :: uint32) div aa_memory q \<noteq> 0"
        using go by (auto simp: go_def split: option.splits)
      have "uint (aa_memory q) \<le> rb_MemoryMB (cs_Available c)"
        using div_neq_0_le [OF c(2)] uint_of_int_31 [OF pool_wfD(4,5) [OF wf as(2) c(1)]] unfolding word_le_def by simp
      then have mem: "uint (aa_memory q) \<le> rb_MemoryMB (cs_Available c) - int 0 * uint (aa_memory q)" by simp
      have "uint (aa_memory q) < 2 ^ 31" using q by (simp add: args_ok_def)
      then have smem: "sint (aa_memory q) = uint (aa_memory q)"
        by (simp add: sint_uint signed_take_bit_int_eq_self order_trans [OF _ uint_ge_0])
      have "index_at (OrderedSegResAvailByRatio p0) ridx \<noteq> None" using wf r0 by (simp add: pool_wf_def)
      then have ix: "index_at (OrderedSegResAvailByRatio p) ridx \<noteq> None" by (rule frame_index [OF fr])
      obtain av where tv: "take_vseg m q p a s =
         Some (p\<lparr>rp_heap := (rp_heap p)(a \<mapsto> taken q ridx (Suc 0) s), OrderedSegResAvailByRatio := av\<rparr>)"
        "map (map_option mset) av = map (map_option mset) (OrderedSegResAvailByRatio p)"
        using take_vseg_spec [OF ridx r0 ix _ smem, of s a 0] c(1) by auto
      let ?p = "p\<lparr>rp_heap := (rp_heap p)(a \<mapsto> taken q ridx (Suc 0) s), OrderedSegResAvailByRatio := av\<rparr>"
      let ?v = "createVSegmentCounter k a s"
      let ?st' = "st\<lparr>as_pool := ?p, as_vsegcnttbl := ht_set (as_vsegcnttbl st) (seg_key (st_ID (sr_Stat s))) (Some ?v),
         as_nodecountleft := as_nodecountleft st - 1\<rparr>"
      have "IS_SEGRESOURCE_USABLE s" using go by (simp add: go_def)
      moreover have "aa_fixnodecount q \<or> int 0 < aa_vseglimitpseg q" using q by (simp add: args_ok_def)
      ultimately have inv': "alloc_inv p0 q ridx ?st'"
        by (intro take_inv [OF wf inv as(2) c(1) _ _ mem, of ?v av tbl])
          (use n0 Cons.prems(2) tv(2) tbl in \<open>simp_all add: createVSegmentCounter_def\<close>)
      have step: "allocateByLocality resolve slicelimit m q k (n # ns) st =
        (if as_nodecountleft st - 1 = 0 then Some ?st' else allocateByLocality resolve slicelimit m q (k + 1) ns ?st')"
        using l True seg hp go tv(1) by (auto simp: go_def Let_def split: prod.splits)
      show ?thesis
      proof (cases "as_nodecountleft st - 1 = 0")
        case True
        then show ?thesis using step inv' by simp
      next
        case False
        have rest: "resolve_ids resolve (as_pool ?st') ns = resolve_ids resolve p ns"
          by (rule resolve_ids_cong) simp_all
        have "cnt_of (as_vsegcnttbl ?st') j = 0" if j: "j \<in> set (resolve_ids resolve p ns)" for j
        proof -
          have "j \<noteq> i" "cnt_of (as_vsegcnttbl st) j = 0" using Cons.prems(4,5) j True unfolding ids by auto
          moreover have "registered p0 j"
            using resolve_ids_registered [OF hk fr _ _ j] tbl Cons.prems(3) by simp
          then have "0 \<le> j" "j < 2 ^ 31" using registeredD [of p0 j] pool_wfD(1,2) [OF wf] by blast+
          ultimately show ?thesis
            using cnt_of_set [OF D(1) pool_wfD(1,2) [OF wf as(2)], of j "Some ?v"] as(3) by simp
        qed
        then show ?thesis
          using Cons.IH [OF inv', of "k + 1"] step False Cons.prems(2-4) rest unfolding ids by simp
      qed
    qed
  qed
qed simp

section \<open>Charging and returning\<close>

definition vsegs_on :: "VSegmentCounterInternal list \<Rightarrow> addr \<Rightarrow> nat" where
  "vsegs_on cs a = sum_list (map (\<lambda>c. if vs_Resource c = a then unat (vs_VSegmentCount c) else 0) cs)"

text \<open>A segment that \<open>n\<close> virtual segments with a share of the workload were put on.\<close>

definition charged :: "AllocArgs \<Rightarrow> int \<Rightarrow> int \<Rightarrow> nat \<Rightarrow> SegResource \<Rightarrow> SegResource" where
  "charged q ridx io n s = (taken q ridx n s)\<lparr>sr_IOBytesWorkload := sr_IOBytesWorkload s + io * int n\<rparr>"

lemma taken_io [simp]: "sr_IOBytesWorkload (taken q ridx n s) = sr_IOBytesWorkload s"
  by (simp add: taken_def split: option.splits)

lemma vsegs_on_simps [simp]:
  "vsegs_on [] a = 0"
  "vsegs_on (c # cs) a = (if vs_Resource c = a then unat (vs_VSegmentCount c) else 0) + vsegs_on cs a"
  by (simp_all add: vsegs_on_def)

lemma vsegs_on_none: "(\<And>c. c \<in> set cs \<Longrightarrow> vs_Resource c \<noteq> a) \<Longrightarrow> vsegs_on cs a = 0"
  by (induction cs) auto

lemma reorder_io:
  "\<exists>res w. reorderSegResourceIOBytesWorkloadIndex p a = (res, p\<lparr>OrderedIOBytesWorkload := w\<rparr>) \<and> mset w = mset (OrderedIOBytesWorkload p)"
  by (cases "a \<in> set (OrderedIOBytesWorkload p)") (auto simp: reorderSegResourceIOBytesWorkloadIndex_def intro: exI [of _ "OrderedIOBytesWorkload p"])

lemma addWorkload_spec:
  "\<forall>c \<in> set cs. rp_heap p (vs_Resource c) \<noteq> None \<Longrightarrow>
   \<exists>p'. addWorkload io (map Some cs) p = Some p' \<and> frame p p' \<and> HDFSHostNameIndexed p' = HDFSHostNameIndexed p \<and>
     mset (OrderedIOBytesWorkload p') = mset (OrderedIOBytesWorkload p) \<and>
     (\<forall>a. rp_heap p' a =
        map_option (\<lambda>s. s\<lparr>sr_IOBytesWorkload := sr_IOBytesWorkload s + io * int (vsegs_on cs a)\<rparr>) (rp_heap p a))"
proof (induction cs arbitrary: p)
  case Nil
  then show ?case by (simp add: option.map_ident)
next
  case (Cons c cs)
  obtain s where s: "rp_heap p (vs_Resource c) = Some s" using Cons.prems by auto
  let ?p = "put_seg p (vs_Resource c) (s\<lparr>sr_IOBytesWorkload := sr_IOBytesWorkload s + io * uint (vs_VSegmentCount c)\<rparr>)"
  obtain res w where w: "reorderSegResourceIOBytesWorkloadIndex ?p (vs_Resource c) = (res, ?p\<lparr>OrderedIOBytesWorkload := w\<rparr>)"
    "mset w = mset (OrderedIOBytesWorkload ?p)"
    using reorder_io [of ?p "vs_Resource c"] by auto
  let ?p1 = "?p\<lparr>OrderedIOBytesWorkload := w\<rparr>"
  have fr: "frame p ?p1" by (simp add: frame_def put_seg_def)
  have "\<forall>d \<in> set cs. rp_heap ?p1 (vs_Resource d) \<noteq> None" using Cons.prems by (simp add: put_seg_def)
  then obtain p' where p': "addWorkload io (map Some cs) ?p1 = Some p'" "frame ?p1 p'"
    "HDFSHostNameIndexed p' = HDFSHostNameIndexed ?p1"
    "mset (OrderedIOBytesWorkload p') = mset (OrderedIOBytesWorkload ?p1)"
    "\<forall>a. rp_heap p' a = map_option (\<lambda>s. s\<lparr>sr_IOBytesWorkload := sr_IOBytesWorkload s + io * int (vsegs_on cs a)\<rparr>) (rp_heap ?p1 a)"
    using Cons.IH [of ?p1] by blast
  have "addWorkload io (map Some (c # cs)) p = Some p'" using s w(1) p'(1) by simp
  moreover have "rp_heap p' a = map_option (\<lambda>s. s\<lparr>sr_IOBytesWorkload := sr_IOBytesWorkload s + io * int (vsegs_on (c # cs) a)\<rparr>) (rp_heap p a)" for a
    using p'(5) s by (cases "rp_heap p a") (auto simp: put_seg_def algebra_simps)
  ultimately show ?case
    using frame_trans [OF fr p'(2)] p'(3,4) w(2) by (intro exI [of _ p']) (simp add: put_seg_def)
qed

lemma recycle_charged:
  assumes "ctn_set s ridx \<noteq> None"
  shows "recycleResourceToSegment (charged q ridx io (k + n) s) (Some ridx) (int k * uint (aa_memory q)) (aa_core q * of_nat k)
      (io * int k) (aa_slicesize q * int k) = charged q ridx io n s"
proof -
  have add: "addResourceBundleData (minusResourceBundleData b (m + m') (c + c')) m c = minusResourceBundleData b m' c'" for b m m' c c'
    by (simp add: addResourceBundleData_def minusResourceBundleData_def)
  obtain c where c: "ctn_set s ridx = Some c" using assms by auto
  show ?thesis
    using c by (simp add: recycleResourceToSegment_def charged_def taken_def Let_def distrib_right distrib_left add mult.commute)
qed

text \<open>Products of counts at their width.\<close>

lemma sint_product:
  assumes "0 \<le> x" "x * int k < 2 ^ 31" "unat w = k"
  shows "sint (of_int x * w :: uint32) = x * int k"
proof -
  have "w = of_int (int k)" using assms(3) by (simp add: unat_eq_nat_uint [symmetric] flip: assms(3))
  then have e: "of_int x * w = (of_int (x * int k) :: uint32)" by simp
  have "sint (of_int y :: uint32) = signed_take_bit 31 y" for y by transfer simp
  then have "sint (of_int x * w :: uint32) = signed_take_bit 31 (x * int k)" unfolding e .
  moreover have "0 \<le> x * int k" using assms(1) by simp
  ultimately show ?thesis using assms(2) by (simp add: signed_take_bit_int_eq_self)
qed

lemma return_spec:
  assumes ridx: "ridx = getResourceQueueRatioIndex m (aa_ratio q)" and mem: "uint (aa_memory q) < 2 ^ 31" and sl: "0 \<le> aa_slicesize q"
  shows "\<forall>a. rp_heap p a = map_option (\<lambda>s. charged q ridx io (vsegs_on cs a) s) (h0 a) \<Longrightarrow>
    \<forall>c \<in> set cs. \<exists>s. h0 (vs_Resource c) = Some s \<and> ctn_set s ridx \<noteq> None \<and>
      int (vsegs_on cs (vs_Resource c)) * uint (aa_memory q) < 2 ^ 31 \<and> int (vsegs_on cs (vs_Resource c)) * aa_slicesize q < 2 ^ 31 \<Longrightarrow>
    cs \<noteq> [] \<longrightarrow> 0 \<le> ridx \<and> index_at (OrderedSegResAvailByRatio p) ridx \<noteq> None \<Longrightarrow>
    \<exists>p'. returnResourceToResourcePool m p (uint (aa_memory q)) (aa_core q) io (aa_slicesize q) cs False = Some p' \<and>
      rp_heap p' = h0 \<and> frame p p' \<and> HDFSHostNameIndexed p' = HDFSHostNameIndexed p \<and> mset (OrderedIOBytesWorkload p') = mset (OrderedIOBytesWorkload p)"
proof (induction cs arbitrary: p)
  case Nil
  have "rp_heap p = h0" using Nil(1) by (auto simp: charged_def option.map_ident)
  then show ?case by simp
next
  case (Cons c cs)
  let ?a = "vs_Resource c" and ?k = "unat (vs_VSegmentCount c)"
  obtain s where s: "h0 ?a = Some s" "ctn_set s ridx \<noteq> None"
    "int (?k + vsegs_on cs ?a) * uint (aa_memory q) < 2 ^ 31" "int (?k + vsegs_on cs ?a) * aa_slicesize q < 2 ^ 31"
    using Cons.prems(2) by auto
  have le: "x * int ?k < 2 ^ 31" if "0 \<le> x" "int (?k + vsegs_on cs ?a) * x < 2 ^ 31" for x
  proof -
    have "x * int ?k \<le> x * int (?k + vsegs_on cs ?a)" using that(1) by (intro mult_left_mono) simp_all
    also have "\<dots> = int (?k + vsegs_on cs ?a) * x" by (rule mult.commute)
    finally show ?thesis using that(2) by (rule order.strict_trans1)
  qed
  have hp: "rp_heap p ?a = Some (charged q ridx io (?k + vsegs_on cs ?a) s)" using Cons.prems(1) s(1) by simp
  have r0: "0 \<le> ridx" "index_at (OrderedSegResAvailByRatio p) ridx \<noteq> None" using Cons.prems(3) by auto
  have u: "uint (vs_VSegmentCount c) = int ?k" by simp
  have rec: "recycleResourceToSegment (charged q ridx io (?k + vsegs_on cs ?a) s) (Some ridx)
      (sint (of_int (uint (aa_memory q)) * vs_VSegmentCount c)) (aa_core q * of_int (uint (vs_VSegmentCount c)))
      (io * uint (vs_VSegmentCount c)) (sint (of_int (aa_slicesize q) * vs_VSegmentCount c)) =
      charged q ridx io (vsegs_on cs ?a) s"
    unfolding sint_product [OF uint_ge_0 le [OF uint_ge_0 s(3)] refl] sint_product [OF sl le [OF sl s(4)] refl] u
    using recycle_charged [OF s(2), of q io ?k "vsegs_on cs ?a"]
    by (simp only: of_int_of_nat_eq mult.commute [of "uint (aa_memory q)"])
  let ?p = "put_seg p ?a (charged q ridx io (vsegs_on cs ?a) s)"
  have ratio: "ratio_of (uint (aa_memory q)) (aa_core q) = aa_ratio q" by (simp add: aa_ratio_def)
  obtain res av where av: "reorderSegResourceAvailIndex m ?p ?a (aa_ratio q) = Some (res, ?p\<lparr>OrderedSegResAvailByRatio := av\<rparr>)"
    "map (map_option mset) av = map (map_option mset) (OrderedSegResAvailByRatio ?p)"
    using reorder_avail [of m "aa_ratio q" ?p ?a] r0 ridx by (auto simp: put_seg_def)
  let ?p1 = "?p\<lparr>OrderedSegResAvailByRatio := av\<rparr>"
  obtain res' w where w: "reorderSegResourceIOBytesWorkloadIndex ?p1 ?a = (res', ?p1\<lparr>OrderedIOBytesWorkload := w\<rparr>)"
    "mset w = mset (OrderedIOBytesWorkload ?p1)"
    using reorder_io [of ?p1 ?a] by auto
  let ?p2 = "?p1\<lparr>OrderedIOBytesWorkload := w\<rparr>"
  have fr: "frame p ?p2" using av(2) by (simp add: frame_def put_seg_def)
  have "\<forall>a. rp_heap ?p2 a = map_option (\<lambda>s. charged q ridx io (vsegs_on cs a) s) (h0 a)"
    using Cons.prems(1) s(1) by (simp add: put_seg_def)
  moreover have "\<exists>s. h0 (vs_Resource d) = Some s \<and> ctn_set s ridx \<noteq> None \<and>
      int (vsegs_on cs (vs_Resource d)) * uint (aa_memory q) < 2 ^ 31 \<and> int (vsegs_on cs (vs_Resource d)) * aa_slicesize q < 2 ^ 31"
    if d: "d \<in> set cs" for d
  proof -
    obtain t where t: "h0 (vs_Resource d) = Some t" "ctn_set t ridx \<noteq> None"
      "int (vsegs_on (c # cs) (vs_Resource d)) * uint (aa_memory q) < 2 ^ 31"
      "int (vsegs_on (c # cs) (vs_Resource d)) * aa_slicesize q < 2 ^ 31"
      using Cons.prems(2) d by (metis list.set_intros(2))
    have mono: "int (vsegs_on cs (vs_Resource d)) * x \<le> int (vsegs_on (c # cs) (vs_Resource d)) * x" if "0 \<le> x" for x
      using that by (intro mult_right_mono) simp_all
    show ?thesis
      using t(1,2) order.strict_trans1 [OF mono [OF uint_ge_0] t(3)] order.strict_trans1 [OF mono [OF sl] t(4)] by blast
  qed
  moreover have "index_at (OrderedSegResAvailByRatio ?p2) ridx \<noteq> None" using frame_index [OF fr r0(2)] .
  ultimately obtain p' where p': "returnResourceToResourcePool m ?p2 (uint (aa_memory q)) (aa_core q) io (aa_slicesize q) cs False = Some p'"
    "rp_heap p' = h0" "frame ?p2 p'" "HDFSHostNameIndexed p' = HDFSHostNameIndexed ?p2" "mset (OrderedIOBytesWorkload p') = mset (OrderedIOBytesWorkload ?p2)"
    using Cons.IH [of ?p2] r0(1) by blast
  have "returnResourceToResourcePool m p (uint (aa_memory q)) (aa_core q) io (aa_slicesize q) (c # cs) False = Some p'"
    using hp av(1) w(1) p'(1) rec r0(1) ridx by (simp add: ratio Let_def)
  then show ?case
    using p' frame_trans [OF fr p'(3)] w(2) by (simp add: put_seg_def)
qed

section \<open>The whole allocation\<close>

lemma new_table_facts:
  "ht_inv HASHTABLE_Hash_UINT32 HASHTABLE_Comp_UINT32 (\<lambda>_. True) newVSegCntTable" "ht_get newVSegCntTable k = None"
  "concat (Slots newVSegCntTable) = []"
proof -
  show "ht_inv HASHTABLE_Hash_UINT32 HASHTABLE_Comp_UINT32 (\<lambda>_. True) newVSegCntTable"
    unfolding newVSegCntTable_def by (rule initialize_inv(1)) simp_all
  show "ht_get newVSegCntTable k = None" unfolding newVSegCntTable_def by (rule initialize_inv(2)) simp_all
  show "concat (Slots newVSegCntTable) = []" by (simp add: newVSegCntTable_def initializeHASHTABLE_def)
qed

lemma initial_inv:
  assumes wf: "pool_wf ridx p" and q: "args_ok q"
    and st: "as_pool st = p" "as_vsegcnttbl st = newVSegCntTable" "as_tmplist st = []" "as_nodecountleft st = aa_nodecount q"
  shows "alloc_inv p q ridx st"
proof -
  have c: "cnt_of newVSegCntTable i = 0" for i unfolding cnt_of_def new_table_facts(2) by simp
  have p: "pairs newVSegCntTable = {}" "tbl_total newVSegCntTable = 0"
    unfolding pairs_def tbl_total_def new_table_facts(3) by simp_all
  have k: "cache_ok p (HDFSHostNameIndexed p)" using wf by (simp add: pool_wf_def hosts_known_def)
  have q': "0 < aa_nodecount q" "1 \<le> aa_vseglimitpseg q" using q by (simp_all add: args_ok_def)
  have m: "map_option (\<lambda>s. taken q ridx 0 s) x = x" for x by (simp add: option.map_ident)
  show ?thesis
    unfolding alloc_inv_def st c p m
    using pool_wfD(4) [OF wf] new_table_facts(1) k q' by simp
qed

lemma counters_of_table:
  assumes wf: "pool_wf ridx p0" and inv: "alloc_inv p0 q ridx st"
  obtains cs where "map snd (concat (Slots (as_vsegcnttbl st))) = map Some cs"
    "\<forall>c \<in> set cs. \<exists>s. rp_heap p0 (vs_Resource c) = Some s \<and> ctn_set s ridx \<noteq> None \<and> IS_SEGRESOURCE_USABLE s \<and> 0 < vs_VSegmentCount c"
    "\<And>a s. rp_heap p0 a = Some s \<Longrightarrow> vsegs_on cs a = cnt_of (as_vsegcnttbl st) (st_ID (sr_Stat s))"
    "sum_list (map (\<lambda>c. unat (vs_VSegmentCount c)) cs) = tbl_total (as_vsegcnttbl st)"
proof -
  note D = alloc_invD [OF inv]
  let ?ps = "concat (Slots (as_vsegcnttbl st))"
  define cs where "cs = map (the \<circ> snd) ?ps"
  have some: "\<exists>c s. snd p = Some c \<and> rp_heap p0 (vs_Resource c) = Some s \<and>
      HASHTABLE_Comp_UINT32 (fst p) (seg_key (st_ID (sr_Stat s))) = 0 \<and> 0 < vs_VSegmentCount c \<and>
      IS_SEGRESOURCE_USABLE s \<and> ctn_set s ridx \<noteq> None" if "p \<in> set ?ps" for p
    using D(3) [of "fst p" "snd p"] that by (simp add: pairs_def)
  have e: "map snd ?ps = map Some cs" unfolding cs_def map_map
    using some by (intro map_cong [OF refl]) fastforce
  have v: "map (\<lambda>p. vcount (snd p)) ?ps = map (\<lambda>c. unat (vs_VSegmentCount c)) cs" unfolding cs_def map_map
    using some by (intro map_cong [OF refl]) (fastforce simp: vcount_def)
  have "vsegs_on cs a = cnt_of (as_vsegcnttbl st) (st_ID (sr_Stat s))" if a: "rp_heap p0 a = Some s" for a s
  proof -
    let ?g = "\<lambda>p. if vs_Resource (the (snd p)) = a then unat (vs_VSegmentCount (the (snd p))) else 0"
    let ?k = "seg_key (st_ID (sr_Stat s))"
    have match: "vs_Resource (the (snd p)) = a \<longleftrightarrow> HASHTABLE_Comp_UINT32 (fst p) ?k = 0" if p: "p \<in> set ?ps" for p
    proof -
      obtain c t where c: "snd p = Some c" "rp_heap p0 (vs_Resource c) = Some t"
        "HASHTABLE_Comp_UINT32 (fst p) (seg_key (st_ID (sr_Stat t))) = 0"
        using some [OF p] by blast
      have "HASHTABLE_Comp_UINT32 (fst p) ?k = 0 \<longleftrightarrow> HASHTABLE_Comp_UINT32 (seg_key (st_ID (sr_Stat t))) ?k = 0"
        using c(3) unfolding cmp_uint32 by simp
      also have "\<dots> \<longleftrightarrow> st_ID (sr_Stat t) = st_ID (sr_Stat s)"
        by (rule seg_key_cmp [OF pool_wfD(1,2) [OF wf c(2)] pool_wfD(1,2) [OF wf a]])
      also have "\<dots> \<longleftrightarrow> vs_Resource c = a" using pool_wf_inj [OF wf c(2) a] c(2) a by auto
      finally show ?thesis using c(1) by simp
    qed
    have "vsegs_on cs a = sum_list (map ?g ?ps)" by (simp add: vsegs_on_def cs_def comp_def del: map_concat)
    also have "\<dots> = sum ?g (pairs (as_vsegcnttbl st))"
      unfolding pairs_def by (rule sum_list_distinct_conv_sum_set [OF pairs_distinct(1) [OF D(1)]])
    also have "\<dots> = cnt_of (as_vsegcnttbl st) (st_ID (sr_Stat s))"
    proof (cases "ht_get (as_vsegcnttbl st) ?k")
      case None
      have "?g p = 0" if "p \<in> pairs (as_vsegcnttbl st)" for p
        using match [of p] None in_pairs_match [OF D(1), of ?k "snd p"] that unfolding pairs_def by (cases p) auto
      then show ?thesis using None by (simp add: cnt_of_def)
    next
      case (Some w)
      then obtain k where k: "(k, w) \<in> pairs (as_vsegcnttbl st)" "HASHTABLE_Comp_UINT32 k ?k = 0"
        using in_pairs_match [OF D(1)] by blast
      have "?g p = 0" if p: "p \<in> pairs (as_vsegcnttbl st) - {(k, w)}" for p
      proof -
        have "HASHTABLE_Comp_UINT32 (fst p) k \<noteq> 0"
          using pairs_distinct(2) [OF D(1), of p "(k, w)"] p k(1) by auto
        then have "HASHTABLE_Comp_UINT32 (fst p) ?k \<noteq> 0" using k(2) unfolding cmp_uint32 by simp
        then show ?thesis using match [of p] p by (simp add: pairs_def)
      qed
      then have "sum ?g (pairs (as_vsegcnttbl st)) = ?g (k, w)"
        using k(1) by (subst sum.remove [of _ "(k, w)"]) (simp_all add: pairs_def)
      also have "\<dots> = cnt_of (as_vsegcnttbl st) (st_ID (sr_Stat s))"
        using match [of "(k, w)"] k some [of "(k, w)"] Some by (auto simp: cnt_of_def vcount_def pairs_def)
      finally show ?thesis .
    qed
    finally show ?thesis .
  qed
  moreover have "\<forall>c \<in> set cs. \<exists>s. rp_heap p0 (vs_Resource c) = Some s \<and> ctn_set s ridx \<noteq> None \<and> IS_SEGRESOURCE_USABLE s \<and> 0 < vs_VSegmentCount c"
    using some unfolding cs_def by force
  ultimately show ?thesis using that [OF e] v unfolding tbl_total_def by simp
qed

lemma map_filter_Some: "List.map_filter id (map Some xs) = xs"
  by (induction xs) (simp_all add: List.map_filter_def)

text \<open>An allocation is safe when the preferred hosts are not looked at, or lead to different segments.\<close>

definition hosts_apart :: "resolver \<Rightarrow> ResourcePool \<Rightarrow> AllocArgs \<Rightarrow> bool" where
  "hosts_apart resolve p q \<longleftrightarrow>
     sint (AvailNodeCount p) \<le> aa_nodecount q \<or> distinct (resolve_ids resolve p (aa_preferredhostname q))"

lemma alloc_spec:
  assumes ridx: "ridx = getResourceQueueRatioIndex m (aa_ratio q)"
    and wf: "pool_wf ridx p" and q: "args_ok q" and apart: "hosts_apart resolve p q"
  obtains r p' where "allocateResourceFromResourcePoolIOBytes resolve slicelimit m p q [] = Some (r, p')"
    "0 \<le> ar_totalvsegcount r" "ar_totalvsegcount r \<le> aa_nodecount q"
    "ar_totalvsegcount r = int (sum_list (map (\<lambda>c. unat (vs_VSegmentCount c)) (ar_vsegcounters r)))"
    "\<forall>a. rp_heap p' a = map_option (charged q ridx (ar_vsegiobytes r) (vsegs_on (ar_vsegcounters r) a)) (rp_heap p a)"
    "\<forall>a s c. rp_heap p a = Some s \<longrightarrow> ctn_set s ridx = Some c \<longrightarrow>
       int (vsegs_on (ar_vsegcounters r) a) * uint (aa_memory q) \<le> rb_MemoryMB (cs_Available c)"
    "\<not> aa_fixnodecount q \<longrightarrow> (\<forall>a. rp_heap p a \<noteq> None \<longrightarrow> int (vsegs_on (ar_vsegcounters r) a) \<le> aa_vseglimitpseg q)"
    "\<forall>c \<in> set (ar_vsegcounters r). \<exists>s. rp_heap p (vs_Resource c) = Some s \<and> ctn_set s ridx \<noteq> None \<and> IS_SEGRESOURCE_USABLE s \<and> 0 < vs_VSegmentCount c"
    "frame p p'" "cache_ok p (HDFSHostNameIndexed p')" "mset (OrderedIOBytesWorkload p') = mset (OrderedIOBytesWorkload p)"
proof -
  define st0 where "st0 = \<lparr>as_pool = p, as_vsegcnttbl = newVSegCntTable, as_tmplist = [], as_nodecountleft = aa_nodecount q,
    as_impossiblecount = 0, as_skipchosenmachine = True\<rparr>"
  have inv0: "alloc_inv p q ridx st0" by (rule initial_inv [OF wf q]) (simp_all add: st0_def)
  have names: "\<forall>n \<in> set (aa_preferredhostname q). 0 \<notin> set n" and nc: "0 < aa_nodecount q"
    using q by (simp_all add: args_ok_def)
  have "\<exists>st. (if aa_nodecount q < sint (AvailNodeCount p)
      then allocateByLocality resolve slicelimit m q 0 (aa_preferredhostname q) st0 else Some st0) = Some st \<and> alloc_inv p q ridx st"
  proof (cases "aa_nodecount q < sint (AvailNodeCount p)")
    case True
    then have "distinct (resolve_ids resolve (as_pool st0) (aa_preferredhostname q))"
      using apart by (simp add: hosts_apart_def st0_def)
    moreover have "cnt_of (as_vsegcnttbl st0) i = 0" for i by (simp add: st0_def cnt_of_def new_table_facts(2))
    ultimately show ?thesis
      using locality_inv [OF wf q ridx inv0 _ names, of resolve slicelimit 0] True nc by (auto simp: st0_def)
  next
    case False
    then show ?thesis using inv0 by simp
  qed
  then obtain st1 where st1: "(if aa_nodecount q < sint (AvailNodeCount p)
      then allocateByLocality resolve slicelimit m q 0 (aa_preferredhostname q) st0 else Some st0) = Some st1" "alloc_inv p q ridx st1"
    by blast
  obtain st where st: "allocateByWorkload resolve slicelimit m q (int (length (OrderedIOBytesWorkload p))) st1 = Some st" "alloc_inv p q ridx st"
    using loop_inv [OF wf q ridx st1(2)] by blast
  note D = alloc_invD [OF st(2)]
  obtain cs where cs: "map snd (concat (Slots (as_vsegcnttbl st))) = map Some cs"
    "\<forall>c \<in> set cs. \<exists>s. rp_heap p (vs_Resource c) = Some s \<and> ctn_set s ridx \<noteq> None \<and> IS_SEGRESOURCE_USABLE s \<and> 0 < vs_VSegmentCount c"
    "\<And>a s. rp_heap p a = Some s \<Longrightarrow> vsegs_on cs a = cnt_of (as_vsegcnttbl st) (st_ID (sr_Stat s))"
    "sum_list (map (\<lambda>c. unat (vs_VSegmentCount c)) cs) = tbl_total (as_vsegcnttbl st)"
    using counters_of_table [OF wf st(2)] by blast
  let ?p = "refillIndex (as_pool st) (as_tmplist st)"
  define t where "t = aa_nodecount q - as_nodecountleft st"
  define io where "io = (if t > 0 then c_div (aa_iobytes q) t else 0)"
  have heap: "rp_heap ?p a = map_option (taken q ridx (vsegs_on cs a)) (rp_heap p a)" for a
    using D(2) [of a] cs(3) [of a] by (cases "rp_heap p a") (simp_all add: refillIndex_def)
  have "rp_heap ?p (vs_Resource c) \<noteq> None" if "c \<in> set cs" for c
    using cs(2) that unfolding heap by auto
  then obtain p' where p': "addWorkload io (map Some cs) ?p = Some p'" "frame ?p p'"
    "mset (OrderedIOBytesWorkload p') = mset (OrderedIOBytesWorkload ?p)"
    "\<forall>a. rp_heap p' a = map_option (\<lambda>s. s\<lparr>sr_IOBytesWorkload := sr_IOBytesWorkload s + io * int (vsegs_on cs a)\<rparr>) (rp_heap ?p a)"
    "HDFSHostNameIndexed p' = HDFSHostNameIndexed ?p"
    using addWorkload_spec [of cs ?p io] by blast
  let ?r = "\<lparr>ar_vsegcounters = cs, ar_totalvsegcount = t, ar_vsegiobytes = io\<rparr>"
  show ?thesis
  proof (rule that [of ?r p'])
    show "allocateResourceFromResourcePoolIOBytes resolve slicelimit m p q [] = Some (?r, p')"
      unfolding allocateResourceFromResourcePoolIOBytes_def Let_def st0_def [symmetric] st1(1) st(1) Option.bind.bind_lunit
        t_def [symmetric] io_def [symmetric] getAllPAIRRefIntoList_def append_Nil cs(1) p'(1) map_filter_Some ..
    have "t = int (tbl_total (as_vsegcnttbl st))" unfolding t_def by (rule D(4) [symmetric])
    then show "0 \<le> ar_totalvsegcount ?r"
      "ar_totalvsegcount ?r = int (sum_list (map (\<lambda>c. unat (vs_VSegmentCount c)) (ar_vsegcounters ?r)))"
      unfolding cs(4) [symmetric] by simp_all
    show "ar_totalvsegcount ?r \<le> aa_nodecount q" using D(5) by (simp add: t_def)
    have "rp_heap p' a = map_option (charged q ridx io (vsegs_on cs a)) (rp_heap p a)" for a
      using p'(4) heap [of a] by (cases "rp_heap p a") (simp_all add: charged_def)
    then show "\<forall>a. rp_heap p' a = map_option (charged q ridx (ar_vsegiobytes ?r) (vsegs_on (ar_vsegcounters ?r) a)) (rp_heap p a)"
      by simp
    show "\<forall>a s c. rp_heap p a = Some s \<longrightarrow> ctn_set s ridx = Some c \<longrightarrow>
       int (vsegs_on (ar_vsegcounters ?r) a) * uint (aa_memory q) \<le> rb_MemoryMB (cs_Available c)"
      using D(9) cs(3) by simp
    show "\<not> aa_fixnodecount q \<longrightarrow> (\<forall>a. rp_heap p a \<noteq> None \<longrightarrow> int (vsegs_on (ar_vsegcounters ?r) a) \<le> aa_vseglimitpseg q)"
      using D(10) cs(3) by auto
    show "\<forall>c \<in> set (ar_vsegcounters ?r). \<exists>s. rp_heap p (vs_Resource c) = Some s \<and> ctn_set s ridx \<noteq> None \<and> IS_SEGRESOURCE_USABLE s \<and> 0 < vs_VSegmentCount c"
      using cs(2) by simp
    have "frame (as_pool st) ?p" by (simp add: refillIndex_def frame_io)
    then show "frame p p'" using frame_trans [OF frame_trans [OF D(7)] p'(2)] by blast
    show "cache_ok p (HDFSHostNameIndexed p')" using D(8) p'(5) by (simp add: refillIndex_def)
    show "mset (OrderedIOBytesWorkload p') = mset (OrderedIOBytesWorkload p)"
      using p'(3) D(6) unfolding mset_refill by simp
  qed
qed

text \<open>Such a change keeps the pool well formed.\<close>

lemma registered_cong:
  assumes "frame p p'" "\<forall>a. rp_heap p' a = map_option (charged q ridx io (n a)) (rp_heap p a)"
  shows "registered p' i = registered p i"
  using assms(2) frame_tables(1) [OF assms(1)]
  by (auto simp: registered_def charged_def option.map_ident split: option.splits)

lemma pool_wf_kept:
  assumes wf: "pool_wf ridx p" and fr: "frame p p'"
    and heap: "\<forall>a. rp_heap p' a = map_option (charged q ridx io (n a)) (rp_heap p a)"
    and le: "\<forall>a s c. rp_heap p a = Some s \<longrightarrow> ctn_set s ridx = Some c \<longrightarrow>
       int (n a) * uint (aa_memory q) \<le> rb_MemoryMB (cs_Available c)"
    and cache: "cache_ok p (HDFSHostNameIndexed p')" and ix: "mset (OrderedIOBytesWorkload p') = mset (OrderedIOBytesWorkload p)"
  shows "pool_wf ridx p'"
proof -
  note reg = registered_cong [OF fr heap]
  have "hosts_known p'"
    using cache wf unfolding pool_wf_def hosts_known_def cache_ok_def reg frame_tables [OF fr] by blast
  moreover have "distinct (OrderedIOBytesWorkload p')" "set (OrderedIOBytesWorkload p') = set (OrderedIOBytesWorkload p)"
    using wf ix mset_eq_imp_distinct_iff mset_eq_setD unfolding pool_wf_def by blast+
  moreover have "\<forall>a \<in> set (OrderedIOBytesWorkload p). rp_heap p' a \<noteq> None"
    using wf heap by (auto simp: pool_wf_def)
  moreover have "0 \<le> ridx \<longrightarrow> index_at (OrderedSegResAvailByRatio p') ridx \<noteq> None"
    using wf frame_index [OF fr] unfolding pool_wf_def by blast
  moreover have "0 \<le> st_ID (sr_Stat t) \<and> st_ID (sr_Stat t) < 2 ^ 31 \<and> getSegResource p' (st_ID (sr_Stat t)) = Some a \<and>
      (\<forall>d. ctn_set t ridx = Some d \<longrightarrow> 0 \<le> rb_MemoryMB (cs_Available d) \<and> rb_MemoryMB (cs_Available d) < 2 ^ 31)"
    if t: "rp_heap p' a = Some t" for a t
  proof -
    obtain s where s: "rp_heap p a = Some s" "t = charged q ridx io (n a) s" using t heap by auto
    have nn: "0 \<le> int (n a) * uint (aa_memory q)" by simp
    have "0 \<le> rb_MemoryMB (cs_Available d) \<and> rb_MemoryMB (cs_Available d) < 2 ^ 31" if d: "ctn_set t ridx = Some d" for d
    proof -
      obtain c where c: "ctn_set s ridx = Some c"
        "rb_MemoryMB (cs_Available d) = rb_MemoryMB (cs_Available c) - int (n a) * uint (aa_memory q)"
        using d unfolding s(2) by (auto simp: charged_def minusResourceBundleData_def)
      show ?thesis using c(2) le [rule_format, OF s(1) c(1)] pool_wfD(5) [OF wf s(1) c(1)] nn by linarith
    qed
    moreover have "sr_Stat t = sr_Stat s" by (simp add: s(2) charged_def)
    ultimately show ?thesis using pool_wfD(1-3) [OF wf s(1)] frame_tables(1) [OF fr] by simp
  qed
  ultimately show ?thesis unfolding pool_wf_def by simp
qed

lemma alloc_return:
  assumes ridx: "ridx = getResourceQueueRatioIndex m (aa_ratio q)"
    and wf: "pool_wf ridx p" and q: "args_ok q" and apart: "hosts_apart resolve p q"
  shows "\<exists>r p' p''. allocateResourceFromResourcePoolIOBytes resolve slicelimit m p q [] = Some (r, p') \<and>
    returnResourceToResourcePool m p' (uint (aa_memory q)) (aa_core q) (ar_vsegiobytes r) (aa_slicesize q)
      (ar_vsegcounters r) False = Some p'' \<and>
    rp_heap p'' = rp_heap p \<and> frame p p'' \<and> cache_ok p (HDFSHostNameIndexed p'') \<and> mset (OrderedIOBytesWorkload p'') = mset (OrderedIOBytesWorkload p)"
proof -
  obtain r p' where R: "allocateResourceFromResourcePoolIOBytes resolve slicelimit m p q [] = Some (r, p')"
    "0 \<le> ar_totalvsegcount r" "ar_totalvsegcount r \<le> aa_nodecount q"
    "ar_totalvsegcount r = int (sum_list (map (\<lambda>c. unat (vs_VSegmentCount c)) (ar_vsegcounters r)))"
    "\<forall>a. rp_heap p' a = map_option (charged q ridx (ar_vsegiobytes r) (vsegs_on (ar_vsegcounters r) a)) (rp_heap p a)"
    "\<forall>a s c. rp_heap p a = Some s \<longrightarrow> ctn_set s ridx = Some c \<longrightarrow>
       int (vsegs_on (ar_vsegcounters r) a) * uint (aa_memory q) \<le> rb_MemoryMB (cs_Available c)"
    "\<not> aa_fixnodecount q \<longrightarrow> (\<forall>a. rp_heap p a \<noteq> None \<longrightarrow> int (vsegs_on (ar_vsegcounters r) a) \<le> aa_vseglimitpseg q)"
    "\<forall>c \<in> set (ar_vsegcounters r). \<exists>s. rp_heap p (vs_Resource c) = Some s \<and> ctn_set s ridx \<noteq> None \<and> IS_SEGRESOURCE_USABLE s \<and> 0 < vs_VSegmentCount c"
    "frame p p'" "cache_ok p (HDFSHostNameIndexed p')" "mset (OrderedIOBytesWorkload p') = mset (OrderedIOBytesWorkload p)"
    by (rule alloc_spec [OF ridx wf q apart, where slicelimit = slicelimit])
  let ?cs = "ar_vsegcounters r"
  have bound: "vsegs_on ?cs a \<le> sum_list (map (\<lambda>c. unat (vs_VSegmentCount c)) ?cs)" for a
    unfolding vsegs_on_def by (rule sum_list_mono) simp
  have q': "uint (aa_memory q) < 2 ^ 31" "0 \<le> aa_slicesize q" "aa_nodecount q * aa_slicesize q < 2 ^ 31"
    using q by (simp_all add: args_ok_def)
  have "\<exists>s. rp_heap p (vs_Resource c) = Some s \<and> ctn_set s ridx \<noteq> None \<and>
      int (vsegs_on ?cs (vs_Resource c)) * uint (aa_memory q) < 2 ^ 31 \<and> int (vsegs_on ?cs (vs_Resource c)) * aa_slicesize q < 2 ^ 31"
    if c: "c \<in> set ?cs" for c
  proof -
    obtain s d where s: "rp_heap p (vs_Resource c) = Some s" "ctn_set s ridx = Some d" using R(8) c by auto
    have "int (vsegs_on ?cs (vs_Resource c)) * uint (aa_memory q) < 2 ^ 31"
      using R(6) s pool_wfD(5) [OF wf s] by (meson order.strict_trans1)
    moreover have "int (vsegs_on ?cs (vs_Resource c)) \<le> aa_nodecount q" using bound [of "vs_Resource c"] R(3,4) by linarith
    then have "int (vsegs_on ?cs (vs_Resource c)) * aa_slicesize q \<le> aa_nodecount q * aa_slicesize q"
      using q'(2) by (rule mult_right_mono)
    then have "int (vsegs_on ?cs (vs_Resource c)) * aa_slicesize q < 2 ^ 31" using q'(3) by (rule order.strict_trans1)
    ultimately show ?thesis using s by blast
  qed
  then have H: "\<forall>c \<in> set ?cs. \<exists>s. rp_heap p (vs_Resource c) = Some s \<and> ctn_set s ridx \<noteq> None \<and>
      int (vsegs_on ?cs (vs_Resource c)) * uint (aa_memory q) < 2 ^ 31 \<and> int (vsegs_on ?cs (vs_Resource c)) * aa_slicesize q < 2 ^ 31"
    by blast
  have "0 \<le> ridx \<and> index_at (OrderedSegResAvailByRatio p') ridx \<noteq> None" if ne: "?cs \<noteq> []"
  proof -
    obtain s where "ctn_set s ridx \<noteq> None" using R(8) hd_in_set [OF ne] by blast
    then have "0 \<le> ridx" by (auto simp: ctn_set_def split: if_splits)
    then show ?thesis using wf frame_index [OF R(9)] by (simp add: pool_wf_def)
  qed
  then have I: "?cs \<noteq> [] \<longrightarrow> 0 \<le> ridx \<and> index_at (OrderedSegResAvailByRatio p') ridx \<noteq> None" by (rule impI)
  have h: "\<forall>a. rp_heap p' a = map_option (\<lambda>s. charged q ridx (ar_vsegiobytes r) (vsegs_on ?cs a) s) (rp_heap p a)"
    using R(5) by simp
  obtain p'' where "returnResourceToResourcePool m p' (uint (aa_memory q)) (aa_core q) (ar_vsegiobytes r) (aa_slicesize q) ?cs False = Some p''"
      "rp_heap p'' = rp_heap p" "frame p' p''" "HDFSHostNameIndexed p'' = HDFSHostNameIndexed p'" "mset (OrderedIOBytesWorkload p'') = mset (OrderedIOBytesWorkload p')"
    using return_spec [OF ridx q'(1,2) h H I] by (elim exE conjE)
  then show ?thesis using R(1,10,11) frame_trans [OF R(9)] by (intro exI [of _ r] exI [of _ p'] exI [of _ p'']) simp
qed

end
