(* ===== verification/RM_Pool_Main.thy ===== *)
theory RM_Pool_Main
  imports RM_Pool_Props
begin

text \<open>
  The properties of the allocation from the resource pool: it accounts for what it takes, keeps the pool
  well formed, and is undone by the return; and the two situations in which it goes wrong, preferred hosts
  that lead to the same segment, and segments with equal workloads of which one is full.
\<close>

section \<open>Lookups by the laws of the table\<close>

lemma getSegResource_get: "getSegResource p i = Option.bind (ht_get (Segments p) (seg_key i)) id"
  by (simp add: getSegResource_def ht_get_def split: option.splits)

lemma ratio_index_get:
  "getResourceQueueRatioIndex m ratio =
     (if ratio \<le> 0 then -1
      else case ht_get (RatioIndex m) (ratio_key ratio) of None \<Rightarrow> -1 | Some v \<Rightarrow> id_of_pair ((), v))"
  by (auto simp: getResourceQueueRatioIndex_def ht_get_def id_of_pair_def split: option.splits)

lemma getSegIDByHostName_get:
  "getSegIDByHostName p n =
     (case ht_get (SegmentHostNameIndexed p) (name_key n) of
        None \<Rightarrow> (FUNC_RETURN_FAIL, SEGSTAT_ID_INVALID) | Some v \<Rightarrow> (FUNC_RETURN_OK, id_of_pair ((), v)))"
  by (auto simp: getSegIDByHostName_def ht_get_def id_of_pair_def split: option.splits)

lemma getSegIDByHostAddr_get:
  "getSegIDByHostAddr p n =
     (case ht_get (SegmentHostAddrIndexed p) n of
        None \<Rightarrow> (FUNC_RETURN_FAIL, SEGSTAT_ID_INVALID) | Some v \<Rightarrow> (FUNC_RETURN_OK, id_of_pair ((), v)))"
  by (auto simp: getSegIDByHostAddr_def ht_get_def id_of_pair_def split: option.splits)

lemma cached_lookup:
  assumes "ht_get (HDFSHostNameIndexed p) (name_key h) = Some (Some i)"
  shows "getSegIDByHDFSHostName resolve p h = (FUNC_RETURN_OK, i, p)"
proof -
  obtain k where "getHASHTABLENode (HDFSHostNameIndexed p) (name_key h) = Some (k, Some i)"
    using assms by (auto simp: ht_get_def)
  then show ?thesis by (simp add: getSegIDByHDFSHostName_def getSegIDByHostNameInternal_def id_of_pair_def)
qed

section \<open>A pool to apply the theorems to\<close>

definition ex_manager :: DynResourceQueueManager where
  "ex_manager = initializeResourceQueueManager
     \<lparr>RatioCount := 1, RatioIndex := ht_set (RatioIndex initializeResourceQueueManager) (ratio_key 1024) (Some 0)\<rparr>"

definition ex_seg :: "int \<Rightarrow> GRMContainerSet option \<Rightarrow> SegResource" where
  "ex_seg i c = (createSegResource \<lparr>st_Info = [], st_ID = i, st_FTSAvailable = 0, st_GRMAvailable = 0, st_FTSTotalMemoryMB = 8192,
      st_FTSTotalCore = 8, st_GRMTotalMemoryMB = 8192, st_GRMTotalCore = 8\<rparr> 0)
     \<lparr>sr_Stat := \<lparr>st_Info = [], st_ID = i, st_FTSAvailable = RESOURCE_SEG_STATUS_AVAILABLE, st_GRMAvailable = 0, st_FTSTotalMemoryMB = 8192,
      st_FTSTotalCore = 8, st_GRMTotalMemoryMB = 8192, st_GRMTotalCore = 8\<rparr>,
      sr_Available := (case c of None \<Rightarrow> zero_bundle | Some c \<Rightarrow> cs_Available c), sr_ContainerSets := [c]\<rparr>"

definition ex_set :: GRMContainerSet where
  "ex_set = \<lparr>cs_Allocated = \<lparr>rb_MemoryMB = 6144, rb_Core = 6, rb_Ratio = 1024\<rparr>,
     cs_Available = \<lparr>rb_MemoryMB = 6144, rb_Core = 6, rb_Ratio = 1024\<rparr>, cs_Containers = []\<rparr>"

fun ex_segments :: "(addr \<times> SegResource) list \<Rightarrow> (uint64, addr) HASHTABLE" where
  "ex_segments [] = initializeHASHTABLE HASHTABLE_Hash_UINT32 HASHTABLE_Comp_UINT32 256 1024 False"
| "ex_segments ((a, s) # segs) = ht_set (ex_segments segs) (seg_key (st_ID (sr_Stat s))) (Some a)"

fun ex_hosts :: "(uint8 list \<times> int) list \<Rightarrow> (SimpString, int) HASHTABLE" where
  "ex_hosts [] = initializeHASHTABLE HASHTABLE_Hash_SIMPSTR HASHTABLE_Comp_SIMPSTR 256 1024 False"
| "ex_hosts ((n, i) # hs) = ht_set (ex_hosts hs) (name_key n) (Some i)"

definition ex_pool :: "(addr \<times> SegResource) list \<Rightarrow> (uint8 list \<times> int) list \<Rightarrow> ResourcePool" where
  "ex_pool segs hs =
     \<lparr>rp_heap = map_of segs, SegmentIDCounter = of_nat (length segs), Segments = ex_segments segs, SegmentHostNameIndexed = ex_hosts [],
      SegmentHostAddrIndexed = initializeHASHTABLE HASHTABLE_Hash_CHARARRAY HASHTABLE_Comp_CHARARRAY 256 1024 False,
      AvailNodeCount = of_nat (length segs), FTSTotal = zero_bundle, GRMTotal = zero_bundle,
      OrderedSegResAvailByRatio = [Some (map fst segs)], OrderedSegResAllocByRatio = [Some (map fst segs)],
      OrderedIOBytesWorkload = map fst segs, HDFSHostNameIndexed = ex_hosts hs, GRMHostNameIndexed = ex_hosts [],
      MemCoreRatio = 0, MemCoreRatioMajorityCounter = 0,
      ToAcceptContainers = initializeHASHTABLE HASHTABLE_Hash_SIMPSTR HASHTABLE_Comp_SIMPSTR 256 1024 False,
      ToKickContainers = initializeHASHTABLE HASHTABLE_Hash_SIMPSTR HASHTABLE_Comp_SIMPSTR 256 1024 False,
      AcceptedContainers = [], KickedContainers = [], AddPendingContainerCount = 0, RetPendingContainerCount = 0\<rparr>"

lemma ex_segments_inv: "ht_inv HASHTABLE_Hash_UINT32 HASHTABLE_Comp_UINT32 (\<lambda>_. True) (ex_segments segs)"
proof (induction segs rule: ex_segments.induct)
  case 1
  show ?case unfolding ex_segments.simps by (rule initialize_inv(1)) simp_all
next
  case (2 a s segs)
  then show ?case using tbl_laws(1) by simp
qed

lemma ex_segments_get:
  "\<forall>(a, s) \<in> set segs. 0 \<le> st_ID (sr_Stat s) \<and> st_ID (sr_Stat s) < 2 ^ 31 \<Longrightarrow>
   distinct (map (\<lambda>x. st_ID (sr_Stat (snd x))) segs) \<Longrightarrow> (a, s) \<in> set segs \<Longrightarrow>
   ht_get (ex_segments segs) (seg_key (st_ID (sr_Stat s))) = Some (Some a)"
proof (induction segs rule: ex_segments.induct)
  case (2 b t segs)
  have "HASHTABLE_Comp_UINT32 (seg_key (st_ID (sr_Stat s))) (seg_key (st_ID (sr_Stat t))) = 0 \<longleftrightarrow> st_ID (sr_Stat s) = st_ID (sr_Stat t)"
    using 2(2,4) by (intro seg_key_cmp) auto
  moreover have "st_ID (sr_Stat s) \<noteq> st_ID (sr_Stat t)" if "(a, s) \<in> set segs" using 2(3) that by force
  ultimately show ?case
    using tbl_laws(3) [OF ex_segments_inv [of segs], of "seg_key (st_ID (sr_Stat t))" "Some b" "seg_key (st_ID (sr_Stat s))"] 2
    by (cases "(a, s) \<in> set segs") auto
qed simp

lemma ex_hosts_facts:
  "ht_get (ex_hosts []) k = None" "ht_inv HASHTABLE_Hash_SIMPSTR HASHTABLE_Comp_SIMPSTR simpstr_ok (ex_hosts [])"
proof -
  show "ht_get (ex_hosts []) k = None" unfolding ex_hosts.simps by (rule initialize_inv(2)) simp_all
  show "ht_inv HASHTABLE_Hash_SIMPSTR HASHTABLE_Comp_SIMPSTR simpstr_ok (ex_hosts [])"
    unfolding ex_hosts.simps by (rule initialize_inv(1)) simp_all
qed

lemma ex_hosts_get:
  "\<forall>x \<in> set hs. 0 \<notin> set (fst x) \<Longrightarrow>
   ht_inv HASHTABLE_Hash_SIMPSTR HASHTABLE_Comp_SIMPSTR simpstr_ok (ex_hosts hs) \<and>
   (0 \<notin> set n \<longrightarrow> ht_get (ex_hosts hs) (name_key n) = map_option Some (map_of hs n))"
proof (induction hs rule: ex_hosts.induct)
  case 1
  show ?case using ex_hosts_facts by (simp del: ex_hosts.simps)
next
  case (2 h i hs)
  have ok: "simpstr_ok (name_key h)" "0 \<notin> set n \<longrightarrow> simpstr_ok (name_key n)"
    using 2(2) by (simp_all add: simpstr_ok_def name_key_def)
  have "ht_get (ex_hosts ((h, i) # hs)) (name_key n) = map_option Some (map_of ((h, i) # hs) n)" if n: "0 \<notin> set n"
  proof -
    have "HASHTABLE_Comp_SIMPSTR (name_key n) (name_key h) = 0 \<longleftrightarrow> n = h"
      using comp_simpstr_eq_0 [OF _ ok(1), of "name_key n"] ok(2) n by (auto simp: name_key_def)
    then show ?thesis
      using key_simpstr.ht_keyed(3) [OF _ ok(1), of "ex_hosts hs" "name_key n" "Some i"] 2 ok(2) n by simp
  qed
  then show ?case using key_simpstr.ht_keyed(1) [OF _ ok(1) ok(1), of "ex_hosts hs" "Some i"] 2 by simp
qed

lemma ex_hosts_ok:
  "\<forall>(n, i) \<in> set hs. 0 \<notin> set n \<and> registered p i \<Longrightarrow> cache_ok p (ex_hosts hs)"
proof (induction hs rule: ex_hosts.induct)
  case 1
  show ?case using ex_hosts_facts(2) by (simp add: cache_ok_def ex_hosts_facts(1) del: ex_hosts.simps)
next
  case (2 n i hs)
  then show ?case using cache_ok_set [of p "ex_hosts hs" i n] by simp
qed

lemma ex_pool_wf:
  assumes segs: "\<forall>(a, s) \<in> set segs. 0 \<le> st_ID (sr_Stat s) \<and> st_ID (sr_Stat s) < 2 ^ 31 \<and>
      (\<forall>c. ctn_set s 0 = Some c \<longrightarrow> 0 \<le> rb_MemoryMB (cs_Available c) \<and> rb_MemoryMB (cs_Available c) < 2 ^ 31)"
    and dist: "distinct (map fst segs)" "distinct (map (\<lambda>x. st_ID (sr_Stat (snd x))) segs)"
    and hs: "\<forall>(n, i) \<in> set hs. 0 \<notin> set n \<and> (\<exists>(a, s) \<in> set segs. st_ID (sr_Stat s) = i)"
  shows "pool_wf 0 (ex_pool segs hs)"
proof -
  let ?p = "ex_pool segs hs"
  have heap: "rp_heap ?p a = Some s \<longleftrightarrow> (a, s) \<in> set segs" for a s
    using dist(1) by (simp add: ex_pool_def)
  have get: "getSegResource ?p (st_ID (sr_Stat s)) = Some a" if "(a, s) \<in> set segs" for a s
    using ex_segments_get [OF _ dist(2) that] segs by (fastforce simp: getSegResource_get ex_pool_def)
  have "registered ?p i" if "(n, i) \<in> set hs" for n i
  proof -
    obtain a s where "(a, s) \<in> set segs" "st_ID (sr_Stat s) = i" using hs \<open>(n, i) \<in> set hs\<close> by fastforce
    then show ?thesis using get [of a s] heap [of a s] by (simp add: registered_def)
  qed
  then have "cache_ok ?p (HDFSHostNameIndexed ?p)"
    using ex_hosts_ok [of hs ?p] hs by (fastforce simp: ex_pool_def)
  moreover have "getSegIDByHostName ?p n = (FUNC_RETURN_FAIL, SEGSTAT_ID_INVALID)" for n
    by (simp add: getSegIDByHostName_get ex_pool_def ex_hosts_facts(1) del: ex_hosts.simps)
  moreover have "ht_get (initializeHASHTABLE HASHTABLE_Hash_CHARARRAY HASHTABLE_Comp_CHARARRAY 256 1024 False
      :: (uint8 list, int) HASHTABLE) n = None" for n
    by (rule initialize_inv(2)) simp_all
  then have "getSegIDByHostAddr ?p n = (FUNC_RETURN_FAIL, SEGSTAT_ID_INVALID)" for n
    by (simp add: getSegIDByHostAddr_get ex_pool_def)
  ultimately have "hosts_known ?p" by (simp add: hosts_known_def)
  moreover have "\<forall>a \<in> set (OrderedIOBytesWorkload ?p). rp_heap ?p a \<noteq> None"
    by (auto simp: ex_pool_def map_of_eq_None_iff)
  moreover have "distinct (OrderedIOBytesWorkload ?p)" "index_at (OrderedSegResAvailByRatio ?p) 0 \<noteq> None"
    using dist(1) by (simp_all add: ex_pool_def index_at_def)
  ultimately show ?thesis using segs get heap by (fastforce simp: pool_wf_def)
qed

lemma ex_ratio: "getResourceQueueRatioIndex ex_manager 1024 = 0"
proof -
  have inv: "ht_inv HASHTABLE_Hash_UINT32 HASHTABLE_Comp_UINT32 (\<lambda>_. True) (RatioIndex initializeResourceQueueManager)"
    unfolding initializeResourceQueueManager_def DynResourceQueueManager.simps by (rule initialize_inv(1)) simp_all
  have "ht_get (RatioIndex ex_manager) (ratio_key 1024) = Some (Some 0)"
    using tbl_laws(3) [OF inv, of "ratio_key 1024" "Some 0" "ratio_key 1024"]
    by (simp add: ex_manager_def cmp_uint32)
  then show ?thesis by (simp add: ratio_index_get id_of_pair_def)
qed

definition ex_args :: "int \<Rightarrow> uint8 list list \<Rightarrow> AllocArgs" where
  "ex_args n names = \<lparr>aa_nodecount = n, aa_memory = 1024, aa_core = 1, aa_iobytes = 300, aa_slicesize = 2, aa_vseglimitpseg = 6,
     aa_preferredhostname = names, aa_fixnodecount = False\<rparr>"

lemma ex_args_ratio [simp]: "aa_ratio (ex_args n names) = 1024"
  by (simp add: aa_ratio_def ratio_of_def ex_args_def c_trunc_def)

text \<open>Segment 1 has room for six virtual segments, the others have no container of the ratio.\<close>

definition ex_segs2 :: "(addr \<times> SegResource) list" where
  "ex_segs2 = [(1, ex_seg 1 (Some ex_set)), (2, ex_seg 2 None)]"

definition ex_segs3 :: "(addr \<times> SegResource) list" where
  "ex_segs3 = [(1, ex_seg 1 (Some ex_set)), (2, ex_seg 2 None), (3, ex_seg 3 None)]"

lemma ex_pool2_wf: "pool_wf 0 (ex_pool ex_segs2 [])"
  by (rule ex_pool_wf) (simp_all add: ex_segs2_def ex_seg_def ex_set_def createSegResource_def ctn_set_def)

lemma ex_pool3_wf: "pool_wf 0 (ex_pool ex_segs3 [([97], 1), ([98], 1)])"
  by (rule ex_pool_wf) (simp_all add: ex_segs3_def ex_seg_def ex_set_def createSegResource_def ctn_set_def)

lemma ex_args_ok: "0 < n \<Longrightarrow> n < 1000 \<Longrightarrow> \<forall>x \<in> set names. 0 \<notin> set x \<Longrightarrow> args_ok (ex_args n names)"
  by (simp add: args_ok_def ex_args_def)

lemma ex_apart: "hosts_apart resolve (ex_pool segs hs) (ex_args n [])"
  by (simp add: hosts_apart_def ex_args_def)

section \<open>What an allocation promises\<close>

text \<open>C11: an allocation of virtual segments from a well-formed pool always returns.  It allocates no more than
  the requested number, the counters it returns add up to the number it reports, and every segment has lost
  exactly the memory, the cores and the slices of the virtual segments counted on it, and got their share of
  the io bytes: no resource is lost or taken twice.  No segment gives more memory than its container set had
  available, none exceeds the limit per segment unless the number is fixed, only usable segments are chosen,
  and nothing else of the pool changes but the order of the indices and the cached host names.  The
  preferred hosts must lead to different segments.\<close>

theorem pool_allocation_accounts:
  assumes "pool_wf (getResourceQueueRatioIndex m (aa_ratio q)) p" "args_ok q" "hosts_apart resolve p q"
  shows "\<exists>r p'. allocateResourceFromResourcePoolIOBytes resolve slicelimit m p q [] = Some (r, p') \<and>
    0 \<le> ar_totalvsegcount r \<and> ar_totalvsegcount r \<le> aa_nodecount q \<and>
    ar_totalvsegcount r = int (sum_list (map (\<lambda>c. unat (vs_VSegmentCount c)) (ar_vsegcounters r))) \<and>
    (\<forall>a. rp_heap p' a =
       map_option (charged q (getResourceQueueRatioIndex m (aa_ratio q)) (ar_vsegiobytes r) (vsegs_on (ar_vsegcounters r) a)) (rp_heap p a)) \<and>
    (\<forall>a s c. rp_heap p a = Some s \<longrightarrow> ctn_set s (getResourceQueueRatioIndex m (aa_ratio q)) = Some c \<longrightarrow>
       int (vsegs_on (ar_vsegcounters r) a) * uint (aa_memory q) \<le> rb_MemoryMB (cs_Available c)) \<and>
    (\<not> aa_fixnodecount q \<longrightarrow>
       (\<forall>a. rp_heap p a \<noteq> None \<longrightarrow> int (vsegs_on (ar_vsegcounters r) a) \<le> aa_vseglimitpseg q)) \<and>
    (\<forall>c \<in> set (ar_vsegcounters r). \<exists>s. rp_heap p (vs_Resource c) = Some s \<and> IS_SEGRESOURCE_USABLE s \<and>
       ctn_set s (getResourceQueueRatioIndex m (aa_ratio q)) \<noteq> None) \<and>
    frame p p' \<and> mset (OrderedIOBytesWorkload p') = mset (OrderedIOBytesWorkload p)"
proof -
  obtain r p' where R: "allocateResourceFromResourcePoolIOBytes resolve slicelimit m p q [] = Some (r, p')"
    "0 \<le> ar_totalvsegcount r" "ar_totalvsegcount r \<le> aa_nodecount q"
    "ar_totalvsegcount r = int (sum_list (map (\<lambda>c. unat (vs_VSegmentCount c)) (ar_vsegcounters r)))"
    "\<forall>a. rp_heap p' a =
       map_option (charged q (getResourceQueueRatioIndex m (aa_ratio q)) (ar_vsegiobytes r) (vsegs_on (ar_vsegcounters r) a)) (rp_heap p a)"
    "\<forall>a s c. rp_heap p a = Some s \<longrightarrow> ctn_set s (getResourceQueueRatioIndex m (aa_ratio q)) = Some c \<longrightarrow>
       int (vsegs_on (ar_vsegcounters r) a) * uint (aa_memory q) \<le> rb_MemoryMB (cs_Available c)"
    "\<not> aa_fixnodecount q \<longrightarrow> (\<forall>a. rp_heap p a \<noteq> None \<longrightarrow> int (vsegs_on (ar_vsegcounters r) a) \<le> aa_vseglimitpseg q)"
    "\<forall>c \<in> set (ar_vsegcounters r). \<exists>s. rp_heap p (vs_Resource c) = Some s \<and>
       ctn_set s (getResourceQueueRatioIndex m (aa_ratio q)) \<noteq> None \<and> IS_SEGRESOURCE_USABLE s \<and> 0 < vs_VSegmentCount c"
    "frame p p'" "cache_ok p (HDFSHostNameIndexed p')" "mset (OrderedIOBytesWorkload p') = mset (OrderedIOBytesWorkload p)"
    by (rule alloc_spec [OF refl assms, where slicelimit = slicelimit])
  have "\<forall>c \<in> set (ar_vsegcounters r). \<exists>s. rp_heap p (vs_Resource c) = Some s \<and> IS_SEGRESOURCE_USABLE s \<and>
       ctn_set s (getResourceQueueRatioIndex m (aa_ratio q)) \<noteq> None"
    using R(8) by blast
  then show ?thesis using R(1-7,9,11) by (intro exI [of _ r] exI [of _ p'] conjI)
qed

lemma ex_index [simp]: "getResourceQueueRatioIndex ex_manager (aa_ratio (ex_args n names)) = 0"
  by (simp add: ex_ratio)

theorem pool_allocation_accounts_witness:
  "pool_wf 0 (ex_pool ex_segs2 []) \<and> args_ok (ex_args 3 []) \<and>
   (\<exists>r p'. allocateResourceFromResourcePoolIOBytes (\<lambda>_. None) 100 ex_manager (ex_pool ex_segs2 []) (ex_args 3 []) [] = Some (r, p') \<and>
      ar_totalvsegcount r \<le> 3 \<and>
      rp_heap p' 1 = Some (charged (ex_args 3 []) 0 (ar_vsegiobytes r) (vsegs_on (ar_vsegcounters r) 1) (ex_seg 1 (Some ex_set))))"
proof -
  have ok: "args_ok (ex_args 3 [])" by (rule ex_args_ok) simp_all
  have wf: "pool_wf (getResourceQueueRatioIndex ex_manager (aa_ratio (ex_args 3 []))) (ex_pool ex_segs2 [])"
    unfolding ex_index by (rule ex_pool2_wf)
  obtain r p' where "allocateResourceFromResourcePoolIOBytes (\<lambda>_. None) 100 ex_manager (ex_pool ex_segs2 []) (ex_args 3 []) [] = Some (r, p')"
    "ar_totalvsegcount r \<le> aa_nodecount (ex_args 3 [])"
    "\<forall>a. rp_heap p' a = map_option (charged (ex_args 3 []) 0 (ar_vsegiobytes r) (vsegs_on (ar_vsegcounters r) a)) (rp_heap (ex_pool ex_segs2 []) a)"
    using pool_allocation_accounts [OF wf ok ex_apart, of "\<lambda>_. None" 100] unfolding ex_index by (elim exE conjE)
  then show ?thesis using ex_pool2_wf ok by (simp add: ex_args_def ex_pool_def ex_segs2_def)
qed

lemma map_option_charged_0 [simp]: "map_option (charged q i io 0) x = x"
  by (cases x) (simp_all add: charged_def)



text \<open>C13: returning what an allocation allocated, with the same quota, restores every segment exactly: its
  containers' available resource, its own, and its two workloads.\<close>

theorem pool_return_undoes_allocation:
  assumes "pool_wf (getResourceQueueRatioIndex m (aa_ratio q)) p" "args_ok q" "hosts_apart resolve p q"
  shows "\<exists>r p' p''. allocateResourceFromResourcePoolIOBytes resolve slicelimit m p q [] = Some (r, p') \<and>
    returnResourceToResourcePool m p' (uint (aa_memory q)) (aa_core q) (ar_vsegiobytes r) (aa_slicesize q)
      (ar_vsegcounters r) False = Some p'' \<and>
    rp_heap p'' = rp_heap p \<and> frame p p'' \<and> mset (OrderedIOBytesWorkload p'') = mset (OrderedIOBytesWorkload p)"
  using alloc_return [OF refl assms, of slicelimit] by blast

theorem pool_return_undoes_allocation_witness:
  "\<exists>r p' p''. allocateResourceFromResourcePoolIOBytes (\<lambda>_. None) 100 ex_manager (ex_pool ex_segs2 []) (ex_args 3 []) [] = Some (r, p') \<and>
     returnResourceToResourcePool ex_manager p' 1024 1 (ar_vsegiobytes r) 2 (ar_vsegcounters r) False = Some p'' \<and>
     rp_heap p'' = rp_heap (ex_pool ex_segs2 [])"
proof -
  have ok: "args_ok (ex_args 3 [])" by (rule ex_args_ok) simp_all
  have wf: "pool_wf (getResourceQueueRatioIndex ex_manager (aa_ratio (ex_args 3 []))) (ex_pool ex_segs2 [])"
    unfolding ex_index by (rule ex_pool2_wf)
  have e: "uint (aa_memory (ex_args 3 [])) = 1024" "aa_core (ex_args 3 []) = 1" "aa_slicesize (ex_args 3 []) = 2"
    by (simp_all add: ex_args_def)
  show ?thesis
    using pool_return_undoes_allocation [OF wf ok ex_apart, of "\<lambda>_. None" 100] unfolding e by blast
qed

section \<open>Two hosts, one segment\<close>

text \<open>A host of stage 1 whose segment can give the resource, whatever was taken before.\<close>

lemma locality_step:
  assumes ridx: "ridx = getResourceQueueRatioIndex m (aa_ratio q)" "0 \<le> ridx" and q: "args_ok q"
    and h: "ht_get (HDFSHostNameIndexed (as_pool st)) (name_key h) = Some (Some i)"
    and a: "getSegResource (as_pool st) i = Some a" "rp_heap (as_pool st) a = Some (taken q ridx n s)"
    and s: "IS_SEGRESOURCE_USABLE s" "ctn_set s ridx = Some c" "rb_MemoryMB (cs_Available c) < 2 ^ 31"
      "int (Suc n) * uint (aa_memory q) \<le> rb_MemoryMB (cs_Available c)"
      "sr_SliceWorkload s + int (Suc n) * aa_slicesize q \<le> slicelimit"
    and ix: "index_at (OrderedSegResAvailByRatio (as_pool st)) ridx \<noteq> None"
  obtains av where
    "allocateByLocality resolve slicelimit m q k (h # hs) st =
       (let st' = st\<lparr>as_pool := (as_pool st)\<lparr>rp_heap := (rp_heap (as_pool st))(a \<mapsto> taken q ridx (Suc n) s), OrderedSegResAvailByRatio := av\<rparr>,
            as_vsegcnttbl := ht_set (as_vsegcnttbl st) (seg_key (st_ID (sr_Stat s))) (Some (createVSegmentCounter k a (taken q ridx n s))),
            as_nodecountleft := as_nodecountleft st - 1\<rparr>
        in if as_nodecountleft st - 1 = 0 then Some st' else allocateByLocality resolve slicelimit m q (k + 1) hs st')"
    "map (map_option mset) av = map (map_option mset) (OrderedSegResAvailByRatio (as_pool st))"
proof -
  have mq: "0 < uint (aa_memory q)" "uint (aa_memory q) < 2 ^ 31"
    using q by (simp_all add: args_ok_def word_less_def)
  then have mem: "sint (aa_memory q) = uint (aa_memory q)"
    by (simp add: sint_uint signed_take_bit_int_eq_self order_trans [OF _ uint_ge_0])
  obtain av where av: "take_vseg m q (as_pool st) a (taken q ridx n s) =
       Some ((as_pool st)\<lparr>rp_heap := (rp_heap (as_pool st))(a \<mapsto> taken q ridx (Suc n) s), OrderedSegResAvailByRatio := av\<rparr>)"
    "map (map_option mset) av = map (map_option mset) (OrderedSegResAvailByRatio (as_pool st))"
    using take_vseg_spec [OF ridx ix _ mem, of s a n] s(2) by blast
  let ?m = "rb_MemoryMB (cs_Available c) - int n * uint (aa_memory q)"
  have nn: "0 \<le> int n * uint (aa_memory q)" by simp
  have suc: "int (Suc n) * uint (aa_memory q) = uint (aa_memory q) + int n * uint (aa_memory q)" by (simp add: distrib_right)
  have le: "uint (aa_memory q) \<le> ?m" "?m < 2 ^ 31"
    using s(3,4) nn unfolding suc by linarith+
  then have "uint (of_int ?m :: uint32) = ?m" using mq(1) by (intro uint_of_int_31) linarith+
  then have "uint ((of_int ?m :: uint32) div aa_memory q) = ?m div uint (aa_memory q)"
    by (simp only: uint_div)
  moreover have "0 < ?m div uint (aa_memory q)" using le(1) mq(1) by (simp only: pos_imp_zdiv_pos_iff)
  ultimately have "(of_int ?m :: uint32) div aa_memory q \<noteq> 0" by (metis less_irrefl unsigned_0)
  moreover have "getGRMContainerSet m (taken q ridx n s) (aa_ratio q) =
      (FUNC_RETURN_OK, Some (c\<lparr>cs_Available := minusResourceBundleData (cs_Available c) (int n * uint (aa_memory q)) (of_nat n * aa_core q)\<rparr>))"
    using ridx s(2) by (simp add: getGRMContainerSet_def Let_def)
  moreover have "sr_SliceWorkload (taken q ridx n s) = sr_SliceWorkload s + int n * aa_slicesize q"
    using s(2) by (simp add: taken_def)
  ultimately show ?thesis
    using that [OF _ av(2)] cached_lookup [OF h] a s(1,5) av(1)
    by (simp add: minusResourceBundleData_def Let_def distrib_right del: of_int_diff)
qed

lemma taken_taken: "taken q ridx k (taken q ridx n s) = taken q ridx (n + k) s"
  by (cases "ctn_set s ridx") (simp_all add: taken_def minus_minus_bundle algebra_simps)

lemma set_twice:
  assumes "tbl = ht_set (ht_set newVSegCntTable (seg_key i) v) (seg_key i) w"
  shows "map snd (concat (Slots tbl)) = [w]"
proof -
  let ?k = "seg_key i"
  have new: "pairs newVSegCntTable = {}" unfolding pairs_def new_table_facts(3) by simp
  obtain k1 where t1: "ht_inv HASHTABLE_Hash_UINT32 HASHTABLE_Comp_UINT32 (\<lambda>_. True) (ht_set newVSegCntTable ?k v)"
    "HASHTABLE_Comp_UINT32 k1 ?k = 0" "pairs (ht_set newVSegCntTable ?k v) = {(k1, v)}"
    using key_uint32.set_inv [OF new_table_facts(1) TrueI, of ?k v False] unfolding ht_set_def new by auto
  have none: "{x \<in> {(k1, v)}. HASHTABLE_Comp_UINT32 (fst x) ?k \<noteq> 0} = {}" using t1(2) by simp
  obtain k2 where t2: "ht_inv HASHTABLE_Hash_UINT32 HASHTABLE_Comp_UINT32 (\<lambda>_. True) tbl" "pairs tbl = {(k2, w)}"
    using key_uint32.set_inv [OF t1(1) TrueI, of ?k w False]
    unfolding assms ht_set_def [of "ht_set newVSegCntTable ?k v"] t1(3) none by auto
  have "distinct (concat (Slots tbl))" "set (concat (Slots tbl)) = {(k2, w)}"
    using pairs_distinct(1) [OF t2(1)] t2(2) unfolding pairs_def by simp_all
  then have "concat (Slots tbl) = [(k2, w)]"
    by (cases "concat (Slots tbl)" rule: remdups_adj.cases) auto
  then show ?thesis by simp
qed

text \<open>Stage 1 on two hosts that lead to one segment.\<close>

lemma locality_duplicate:
  assumes ridx: "ridx = getResourceQueueRatioIndex m (aa_ratio q)" and wf: "pool_wf ridx p" and q: "args_ok q"
    and hosts: "ht_get (HDFSHostNameIndexed p) (name_key h1) = Some (Some i)" "ht_get (HDFSHostNameIndexed p) (name_key h2) = Some (Some i)"
    and a: "getSegResource p i = Some a" "rp_heap p a = Some s"
    and s: "IS_SEGRESOURCE_USABLE s" "ctn_set s ridx = Some c" "2 * uint (aa_memory q) \<le> rb_MemoryMB (cs_Available c)"
      "sr_SliceWorkload s + 2 * aa_slicesize q \<le> slicelimit"
    and st: "as_pool st = p" "as_nodecountleft st = 2"
  obtains st' v w where "allocateByLocality resolve slicelimit m q 0 (h1 # h2 # hs) st = Some st'"
    "rp_heap (as_pool st') = (rp_heap p)(a \<mapsto> taken q ridx 2 s)" "frame p (as_pool st')"
    "HDFSHostNameIndexed (as_pool st') = HDFSHostNameIndexed p" "OrderedIOBytesWorkload (as_pool st') = OrderedIOBytesWorkload p"
    "as_vsegcnttbl st' = ht_set (ht_set (as_vsegcnttbl st) (seg_key (st_ID (sr_Stat s))) (Some v)) (seg_key (st_ID (sr_Stat s))) (Some w)"
    "vs_Resource w = a" "vs_VSegmentCount w = 1" "as_nodecountleft st' = 0" "as_tmplist st' = as_tmplist st"
proof -
  have r0: "0 \<le> ridx" using s(2) by (auto simp: ctn_set_def split: if_splits)
  have ix: "index_at (OrderedSegResAvailByRatio p) ridx \<noteq> None" using wf r0 by (simp add: pool_wf_def)
  have pos: "0 \<le> uint (aa_memory q)" "0 \<le> aa_slicesize q" using q by (simp_all add: args_ok_def)
  note room = s(1,2) pool_wfD(5) [OF wf a(2) s(2)]
  have m: "int (Suc 0) * uint (aa_memory q) \<le> rb_MemoryMB (cs_Available c)" "int (Suc 1) * uint (aa_memory q) \<le> rb_MemoryMB (cs_Available c)"
    "sr_SliceWorkload s + int (Suc 0) * aa_slicesize q \<le> slicelimit" "sr_SliceWorkload s + int (Suc 1) * aa_slicesize q \<le> slicelimit"
    using s(3,4) pos order_trans [OF _ s(3), of "uint (aa_memory q)"] by simp_all
  obtain av1 where av1: "allocateByLocality resolve slicelimit m q 0 (h1 # h2 # hs) st =
       (let st' = st\<lparr>as_pool := (as_pool st)\<lparr>rp_heap := (rp_heap (as_pool st))(a \<mapsto> taken q ridx (Suc 0) s), OrderedSegResAvailByRatio := av1\<rparr>,
            as_vsegcnttbl := ht_set (as_vsegcnttbl st) (seg_key (st_ID (sr_Stat s))) (Some (createVSegmentCounter 0 a (taken q ridx 0 s))),
            as_nodecountleft := as_nodecountleft st - 1\<rparr>
        in if as_nodecountleft st - 1 = 0 then Some st' else allocateByLocality resolve slicelimit m q (0 + 1) (h2 # hs) st')"
    "map (map_option mset) av1 = map (map_option mset) (OrderedSegResAvailByRatio (as_pool st))"
    by (rule locality_step [OF ridx r0 q _ _ _ room m(1,3), where st = st and h = h1 and k = 0 and hs = "h2 # hs" and a = a
          and i = i and resolve = resolve])
      (use hosts(1) a ix st in \<open>simp_all del: allocateByLocality.simps\<close>)
  define st1 where "st1 = st\<lparr>as_pool := p\<lparr>rp_heap := (rp_heap p)(a \<mapsto> taken q ridx (Suc 0) s), OrderedSegResAvailByRatio := av1\<rparr>,
      as_vsegcnttbl := ht_set (as_vsegcnttbl st) (seg_key (st_ID (sr_Stat s))) (Some (createVSegmentCounter 0 a (taken q ridx 0 s))),
      as_nodecountleft := 1\<rparr>"
  have e1: "allocateByLocality resolve slicelimit m q 0 (h1 # h2 # hs) st = allocateByLocality resolve slicelimit m q 1 (h2 # hs) st1"
    using av1(1) st unfolding st1_def Let_def by (simp del: allocateByLocality.simps)
  have f1: "frame p (as_pool st1)" using av1(2) st(1) by (simp add: st1_def frame_def)
  have g1: "getSegResource (as_pool st1) i = Some a" using frame_tables(1) [OF f1] a(1) by simp
  obtain av2 where av2: "allocateByLocality resolve slicelimit m q 1 (h2 # hs) st1 =
       (let st' = st1\<lparr>as_pool := (as_pool st1)\<lparr>rp_heap := (rp_heap (as_pool st1))(a \<mapsto> taken q ridx (Suc 1) s), OrderedSegResAvailByRatio := av2\<rparr>,
            as_vsegcnttbl := ht_set (as_vsegcnttbl st1) (seg_key (st_ID (sr_Stat s))) (Some (createVSegmentCounter 1 a (taken q ridx 1 s))),
            as_nodecountleft := as_nodecountleft st1 - 1\<rparr>
        in if as_nodecountleft st1 - 1 = 0 then Some st' else allocateByLocality resolve slicelimit m q (1 + 1) hs st')"
    "map (map_option mset) av2 = map (map_option mset) (OrderedSegResAvailByRatio (as_pool st1))"
    by (rule locality_step [OF ridx r0 q _ g1 _ room m(2,4), where h = h2 and k = 1 and hs = hs and resolve = resolve])
      (use hosts(2) frame_index [OF f1 ix] in \<open>simp_all add: st1_def del: allocateByLocality.simps\<close>)
  let ?st2 = "st1\<lparr>as_pool := (as_pool st1)\<lparr>rp_heap := (rp_heap (as_pool st1))(a \<mapsto> taken q ridx (Suc 1) s), OrderedSegResAvailByRatio := av2\<rparr>,
      as_vsegcnttbl := ht_set (as_vsegcnttbl st1) (seg_key (st_ID (sr_Stat s))) (Some (createVSegmentCounter 1 a (taken q ridx 1 s))),
      as_nodecountleft := as_nodecountleft st1 - 1\<rparr>"
  have "frame (as_pool st1) (as_pool ?st2)" using av2(2) by (simp add: frame_def)
  then have f2: "frame p (as_pool ?st2)" by (rule frame_trans [OF f1])
  show ?thesis
  proof (rule that [of ?st2 "createVSegmentCounter 0 a (taken q ridx 0 s)" "createVSegmentCounter 1 a (taken q ridx 1 s)"])
    show "allocateByLocality resolve slicelimit m q 0 (h1 # h2 # hs) st = Some ?st2"
      unfolding e1 av2(1) by (simp add: Let_def st1_def)
  qed (use f2 in \<open>simp_all add: st1_def createVSegmentCounter_def numeral_2_eq_2\<close>)
qed

text \<open>C14: two preferred hosts that lead to the same segment leak resource.  The allocation of two virtual
  segments reports two, has taken the resource of two from that segment, and returns one counter of one:
  the counter of the first is overwritten.  Returning the counters leaves the segment without the resource of
  one virtual segment.\<close>

theorem duplicate_hosts_leak:
  assumes "ridx = getResourceQueueRatioIndex m (aa_ratio q)" "pool_wf ridx p" "args_ok q"
    and "aa_nodecount q = 2" "2 < sint (AvailNodeCount p)" "aa_preferredhostname q = h1 # h2 # hs"
    and "ht_get (HDFSHostNameIndexed p) (name_key h1) = Some (Some i)" "ht_get (HDFSHostNameIndexed p) (name_key h2) = Some (Some i)"
    and "getSegResource p i = Some a" "rp_heap p a = Some s" "IS_SEGRESOURCE_USABLE s"
    and "ctn_set s ridx = Some c" "2 * uint (aa_memory q) \<le> rb_MemoryMB (cs_Available c)"
    and "sr_SliceWorkload s + 2 * aa_slicesize q \<le> slicelimit"
  shows "\<exists>r p' p'' v. allocateResourceFromResourcePoolIOBytes resolve slicelimit m p q [] = Some (r, p') \<and>
    ar_totalvsegcount r = 2 \<and> ar_vsegcounters r = [v] \<and> vs_Resource v = a \<and> vs_VSegmentCount v = 1 \<and>
    returnResourceToResourcePool m p' (uint (aa_memory q)) (aa_core q) (ar_vsegiobytes r) (aa_slicesize q)
      (ar_vsegcounters r) False = Some p'' \<and>
    rp_heap p'' = (rp_heap p)(a \<mapsto> taken q ridx 1 s)"
proof -
  let ?st = "\<lparr>as_pool = p, as_vsegcnttbl = newVSegCntTable, as_tmplist = [], as_nodecountleft = aa_nodecount q,
    as_impossiblecount = 0, as_skipchosenmachine = True\<rparr>"
  obtain st v w where L: "allocateByLocality resolve slicelimit m q 0 (aa_preferredhostname q) ?st = Some st"
    "rp_heap (as_pool st) = (rp_heap p)(a \<mapsto> taken q ridx 2 s)" "frame p (as_pool st)"
    "OrderedIOBytesWorkload (as_pool st) = OrderedIOBytesWorkload p"
    "as_vsegcnttbl st = ht_set (ht_set newVSegCntTable (seg_key (st_ID (sr_Stat s))) (Some v)) (seg_key (st_ID (sr_Stat s))) (Some w)"
    "vs_Resource w = a" "vs_VSegmentCount w = 1" "as_nodecountleft st = 0" "as_tmplist st = []"
    unfolding assms(6)
    by (rule locality_duplicate [OF assms(1-3,7-14), where st = ?st and resolve = resolve and hs = hs])
      (use assms(4) in simp_all)
  let ?io = "c_div (aa_iobytes q) 2"
  have stop: "allocateByWorkload resolve slicelimit m q full st = Some st" for full
    using L(8) by (subst allocateByWorkload.simps) (simp add: loop_cond_def)
  have fill: "refillIndex (as_pool st) (as_tmplist st) = as_pool st" using L(9) by (simp add: refillIndex_def)
  obtain p' where p': "addWorkload ?io [Some w] (as_pool st) = Some p'" "frame (as_pool st) p'"
    "\<forall>x. rp_heap p' x = map_option (\<lambda>s. s\<lparr>sr_IOBytesWorkload := sr_IOBytesWorkload s + ?io * int (vsegs_on [w] x)\<rparr>) (rp_heap (as_pool st) x)"
    using addWorkload_spec [of "[w]" "as_pool st" ?io] L(2,6) by auto
  let ?r = "\<lparr>ar_vsegcounters = [w], ar_totalvsegcount = 2, ar_vsegiobytes = ?io\<rparr>"
  have alloc: "allocateResourceFromResourcePoolIOBytes resolve slicelimit m p q [] = Some (?r, p')"
    unfolding allocateResourceFromResourcePoolIOBytes_def Let_def
    using assms(4,5) L(1,8) stop fill p'(1) set_twice [OF L(5)]
    by (simp add: getAllPAIRRefIntoList_def List.map_filter_def)
  let ?h0 = "(rp_heap p)(a \<mapsto> taken q ridx 1 s)"
  have r0: "0 \<le> ridx" using assms(12) by (auto simp: ctn_set_def split: if_splits)
  have q': "uint (aa_memory q) < 2 ^ 31" "0 \<le> aa_slicesize q" "aa_slicesize q < 2 ^ 31" using assms(3,4) by (auto simp: args_ok_def)
  have "rp_heap p' x = map_option (charged q ridx ?io (vsegs_on [w] x)) (?h0 x)" for x
    using p'(3) L(2,6,7) taken_taken [of q ridx 1 1 s]
    by (cases "rp_heap p x") (auto simp: charged_def option.map_ident numeral_2_eq_2)
  then have H: "\<forall>x. rp_heap p' x = map_option (\<lambda>s. charged q ridx ?io (vsegs_on [w] x) s) (?h0 x)" by simp
  have C: "\<forall>c \<in> set [w]. \<exists>s. ?h0 (vs_Resource c) = Some s \<and> ctn_set s ridx \<noteq> None \<and>
      int (vsegs_on [w] (vs_Resource c)) * uint (aa_memory q) < 2 ^ 31 \<and> int (vsegs_on [w] (vs_Resource c)) * aa_slicesize q < 2 ^ 31"
    using L(6,7) assms(12) q' by simp
  have I: "[w] \<noteq> [] \<longrightarrow> 0 \<le> ridx \<and> index_at (OrderedSegResAvailByRatio p') ridx \<noteq> None"
    using r0 assms(2) frame_index [OF frame_trans [OF L(3) p'(2)]] by (simp add: pool_wf_def)
  obtain p'' where "returnResourceToResourcePool m p' (uint (aa_memory q)) (aa_core q) ?io (aa_slicesize q) [w] False = Some p''"
      "rp_heap p'' = ?h0"
    using return_spec [OF assms(1) q'(1,2) H C I] by (elim exE conjE)
  then show ?thesis using alloc L(6,7) by (intro exI [of _ ?r] exI [of _ p'] exI [of _ p''] exI [of _ w]) simp
qed

theorem duplicate_hosts_leak_witness:
  "\<exists>r p' p'' v. allocateResourceFromResourcePoolIOBytes (\<lambda>_. None) 100 ex_manager (ex_pool ex_segs3 [([97], 1), ([98], 1)])
       (ex_args 2 [[97], [98]]) [] = Some (r, p') \<and>
    ar_totalvsegcount r = 2 \<and> ar_vsegcounters r = [v] \<and> vs_VSegmentCount v = 1 \<and>
    returnResourceToResourcePool ex_manager p' 1024 1 (ar_vsegiobytes r) 2 [v] False = Some p'' \<and>
    map_option (\<lambda>s. rb_MemoryMB (sr_Available s)) (rp_heap p'' 1) = Some 5120"
proof -
  let ?p = "ex_pool ex_segs3 [([97], 1), ([98], 1)]" and ?q = "ex_args 2 [[97], [98]]"
  have ok: "args_ok ?q" by (rule ex_args_ok) simp_all
  have wf: "pool_wf (getResourceQueueRatioIndex ex_manager (aa_ratio ?q)) ?p" unfolding ex_index by (rule ex_pool3_wf)
  have h: "ht_get (HDFSHostNameIndexed ?p) (name_key [97]) = Some (Some 1)" "ht_get (HDFSHostNameIndexed ?p) (name_key [98]) = Some (Some 1)"
    using ex_hosts_get [of "[([97], 1), ([98], 1)]"] by (simp_all add: ex_pool_def del: ex_hosts.simps)
  have g: "getSegResource ?p 1 = Some 1"
    using ex_segments_get [of ex_segs3 1 "ex_seg 1 (Some ex_set)"]
    by (simp add: getSegResource_get ex_pool_def ex_segs3_def ex_seg_def)
  have s: "rp_heap ?p 1 = Some (ex_seg 1 (Some ex_set))" "IS_SEGRESOURCE_USABLE (ex_seg 1 (Some ex_set))"
    "ctn_set (ex_seg 1 (Some ex_set)) (getResourceQueueRatioIndex ex_manager (aa_ratio ?q)) = Some ex_set"
    "2 * uint (aa_memory ?q) \<le> rb_MemoryMB (cs_Available ex_set)"
    "sr_SliceWorkload (ex_seg 1 (Some ex_set)) + 2 * aa_slicesize ?q \<le> 100"
    unfolding ex_index
    by (simp_all add: ex_pool_def ex_segs3_def ex_seg_def ex_set_def createSegResource_def IS_SEGRESOURCE_USABLE_def ctn_set_def ex_args_def)
  have a: "aa_nodecount ?q = 2" "2 < sint (AvailNodeCount ?p)" "aa_preferredhostname ?q = [97] # [98] # []"
    by (simp_all add: ex_args_def ex_pool_def ex_segs3_def)
  have e: "uint (aa_memory ?q) = 1024" "aa_core ?q = 1" "aa_slicesize ?q = 2" by (simp_all add: ex_args_def)
  have left: "rb_MemoryMB (sr_Available (taken ?q 0 1 (ex_seg 1 (Some ex_set)))) = 5120"
    by (simp add: taken_def ctn_set_def ex_seg_def ex_set_def minusResourceBundleData_def ex_args_def)
  show ?thesis
    using duplicate_hosts_leak [OF refl wf ok a h g s] left unfolding e ex_index by fastforce
qed

section \<open>Segments with equal workloads\<close>

text \<open>Between segments of equal workload the index puts the last inserted first, so each refill reverses it.\<close>

lemma refill_ties:
  assumes "\<forall>x \<in> set xs. iobytes_of (rp_heap p) x = w" "OrderedIOBytesWorkload p = []"
  shows "refillIndex p xs = p\<lparr>OrderedIOBytesWorkload := rev xs\<rparr>"
proof -
  let ?ins = "\<lambda>tree a. index_insert (comp_iobytes (rp_heap p)) a tree"
  have "foldl ?ins ys xs = rev xs @ ys" if "\<forall>y \<in> set ys. iobytes_of (rp_heap p) y = w" for ys
    using assms(1) that
  proof (induction xs arbitrary: ys)
    case (Cons x xs)
    have "?ins ys x = x # ys" using Cons.prems
      by (simp add: index_insert_def comp_iobytes_def filter_empty_conv)
    then show ?case using Cons by simp
  qed simp
  then show ?thesis using assms(2) by (simp add: refillIndex_def)
qed

lemma alloc_iobytes:
  assumes "alloc_inv p q ridx st"
  shows "iobytes_of (rp_heap (as_pool st)) x = iobytes_of (rp_heap p) x"
  using alloc_invD(2) [OF assms, of x] by (cases "rp_heap p x") (simp_all add: iobytes_of_def)

lemma lookup_index: "OrderedIOBytesWorkload (snd (snd (getSegIDByHDFSHostName resolve p h))) = OrderedIOBytesWorkload p"
  by (simp add: getSegIDByHDFSHostName_def Let_def split: prod.splits)

lemma find_index: "OrderedIOBytesWorkload (snd (findHDFSNameIndex resolve p wanted k hs)) = OrderedIOBytesWorkload p"
proof (induction resolve p wanted k hs rule: findHDFSNameIndex.induct)
  case (2 resolve p wanted k h hs)
  obtain res i p' where g: "getSegIDByHDFSHostName resolve p h = (res, i, p')" by (cases "getSegIDByHDFSHostName resolve p h")
  then have "OrderedIOBytesWorkload p' = OrderedIOBytesWorkload p" using lookup_index [of resolve p h] by simp
  then show ?case using 2 [OF refl] g by (simp add: Let_def)
qed simp

lemma take_index: "take_vseg m q p a s = Some p' \<Longrightarrow> OrderedIOBytesWorkload p' = OrderedIOBytesWorkload p"
  by (auto simp: take_vseg_def bind_eq_Some_conv reorderSegResourceAvailIndex_def put_seg_def Let_def split: if_splits)

lemma choose_index:
  assumes "chooseSegment resolve m q st a s curhost = Some st'"
  shows "OrderedIOBytesWorkload (as_pool st') = OrderedIOBytesWorkload (as_pool st)"
proof -
  obtain p where p: "take_vseg m q (as_pool st) a s = Some p"
    using assms by (auto simp: chooseSegment_def bind_eq_Some_conv)
  show ?thesis
    using assms p take_index [OF p] find_index [of resolve p "st_ID (sr_Stat s)" 0 "aa_preferredhostname q"]
    by (auto simp: chooseSegment_def Let_def split: prod.splits option.splits)
qed

text \<open>One round of the loop, in a pool of segments of equal workload.\<close>

lemma round:
  assumes wf: "pool_wf ridx p" and q: "args_ok q" and ridx: "ridx = getResourceQueueRatioIndex m (aa_ratio q)"
    and tie: "\<forall>x \<in> set (OrderedIOBytesWorkload p). iobytes_of (rp_heap p) x = w"
    and inv: "alloc_inv p q ridx st" and ix: "OrderedIOBytesWorkload (as_pool st) = x # xs" and u: "rp_heap p x = Some u"
    and cond: "loop_cond full st"
    and can: "can_take slicelimit m q (as_skipchosenmachine st) (taken q ridx (cnt_of (as_vsegcnttbl st) (st_ID (sr_Stat u))) u)
        (Option.bind (ht_get (as_vsegcnttbl st) (seg_key (st_ID (sr_Stat u)))) id) = ok"
    and imp: "imp = (if ok then 0 else as_impossiblecount st + 1)"
  obtains st' where "allocateByWorkload resolve slicelimit m q full st = allocateByWorkload resolve slicelimit m q full st'"
    "alloc_inv p q ridx st'" "as_nodecountleft st' = as_nodecountleft st - of_bool ok"
    "as_impossiblecount st' = (if full \<le> imp \<and> as_skipchosenmachine st then 0 else imp)"
    "as_skipchosenmachine st' \<longleftrightarrow> as_skipchosenmachine st \<and> imp < full"
    "OrderedIOBytesWorkload (as_pool st') = (if xs = [] then rev (as_tmplist st @ [x]) else xs)"
    "as_tmplist st' = (if xs = [] then [] else as_tmplist st @ [x])"
proof -
  obtain st' where body: "allocateByWorkloadBody resolve slicelimit m q full st = Some st'" "alloc_inv p q ridx st'"
    using body_inv [OF wf q inv ridx cond] by blast
  obtain st2 where st2: "st' = endOfBody full st2" "OrderedIOBytesWorkload (as_pool st2) = xs" "as_tmplist st2 = as_tmplist st @ [x]"
    "as_nodecountleft st2 = as_nodecountleft st - of_bool ok" "as_impossiblecount st2 = imp"
    "as_skipchosenmachine st2 = as_skipchosenmachine st"
  proof (rule body_cases [OF body(1)])
    fix a rest s curhost st1
    assume H: "OrderedIOBytesWorkload (as_pool st) = a # rest" "rp_heap (as_pool st) a = Some s"
      "curhost = Option.bind (ht_get (as_vsegcnttbl st) (seg_key (st_ID (sr_Stat s)))) id"
      "st1 = st\<lparr>as_pool := (as_pool st)\<lparr>OrderedIOBytesWorkload := rest\<rparr>, as_tmplist := as_tmplist st @ [a]\<rparr>"
      "if can_take slicelimit m q (as_skipchosenmachine st) s curhost
       then \<exists>st2. chooseSegment resolve m q st1 a s curhost = Some st2 \<and> st' = endOfBody full st2
       else st' = endOfBody full (st1\<lparr>as_impossiblecount := as_impossiblecount st + 1\<rparr>)"
    have a: "a = x" "rest = xs" using H(1) ix by simp_all
    have s: "s = taken q ridx (cnt_of (as_vsegcnttbl st) (st_ID (sr_Stat u))) u"
      using H(2) alloc_invD(2) [OF inv, of x] u a by simp
    have c: "can_take slicelimit m q (as_skipchosenmachine st) s curhost = ok" using can H(3) s by simp
    show thesis
    proof (cases ok)
      case True
      then obtain st2 where S: "chooseSegment resolve m q st1 a s curhost = Some st2" "st' = endOfBody full st2" using H(5) c by auto
      have "OrderedIOBytesWorkload (as_pool st2) = OrderedIOBytesWorkload (as_pool st1)"
        by (rule choose_index [OF S(1)])
      then show thesis using that [OF S(2)] chooseSegment_simps [OF S(1)] H(4) a True imp by simp
    next
      case False
      then show thesis using that [of "st1\<lparr>as_impossiblecount := as_impossiblecount st + 1\<rparr>"] H(4,5) c a imp by simp
    qed
  qed
  have step: "allocateByWorkload resolve slicelimit m q full st = allocateByWorkload resolve slicelimit m q full st'"
    using cond body(1) by (subst allocateByWorkload.simps) simp
  have sub: "set (OrderedIOBytesWorkload (as_pool st)) \<union> set (as_tmplist st) = set (OrderedIOBytesWorkload p)"
    using alloc_invD(6) [OF inv] by (metis set_mset_mset set_mset_union)
  have "\<forall>y \<in> set (as_tmplist st @ [x]). iobytes_of (rp_heap (as_pool st2)) y = w"
    using tie sub ix alloc_iobytes [OF body(2)] st2(1) by auto
  then have "refillIndex (as_pool st2) (as_tmplist st2) = (as_pool st2)\<lparr>OrderedIOBytesWorkload := rev (as_tmplist st @ [x])\<rparr>" if "xs = []"
    using refill_ties [of "as_tmplist st2" "as_pool st2" w] st2(2,3) that by simp
  then show thesis
    using that [OF step body(2)] st2 by (simp add: endOfBody_pool)
qed

text \<open>A segment with room for the whole request can take a virtual segment, unless it was chosen and the chosen
  ones are skipped; one without containers cannot.\<close>

definition has_room :: "int \<Rightarrow> AllocArgs \<Rightarrow> int \<Rightarrow> SegResource \<Rightarrow> bool" where
  "has_room slicelimit q ridx s \<longleftrightarrow>
     IS_SEGRESOURCE_USABLE s \<and> sr_SliceWorkload s + aa_nodecount q * aa_slicesize q \<le> slicelimit \<and>
     (case ctn_set s ridx of
        None \<Rightarrow> False
      | Some c \<Rightarrow> aa_nodecount q * uint (aa_memory q) \<le> rb_MemoryMB (cs_Available c) \<and>
                 of_int (aa_nodecount q) * aa_core q \<le> rb_Core (cs_Available c))"

lemma room_can_take:
  assumes wf: "pool_wf ridx p" and q: "args_ok q" "0 \<le> aa_core q" "aa_nodecount q \<le> aa_vseglimitpseg q"
    and ridx: "ridx = getResourceQueueRatioIndex m (aa_ratio q)"
    and inv: "alloc_inv p q ridx st" and left: "0 < as_nodecountleft st" and u: "rp_heap p x = Some u"
    and room: "has_room slicelimit q ridx u"
    and skip: "skip \<longrightarrow> ht_get (as_vsegcnttbl st) (seg_key (st_ID (sr_Stat u))) = None"
  shows "can_take slicelimit m q skip (taken q ridx (cnt_of (as_vsegcnttbl st) (st_ID (sr_Stat u))) u)
        (Option.bind (ht_get (as_vsegcnttbl st) (seg_key (st_ID (sr_Stat u)))) id)"
proof -
  define n where "n = cnt_of (as_vsegcnttbl st) (st_ID (sr_Stat u))"
  define cur where "cur = Option.bind (ht_get (as_vsegcnttbl st) (seg_key (st_ID (sr_Stat u)))) id"
  obtain c where c: "ctn_set u ridx = Some c" "aa_nodecount q * uint (aa_memory q) \<le> rb_MemoryMB (cs_Available c)"
    "of_int (aa_nodecount q) * aa_core q \<le> rb_Core (cs_Available c)"
    using room by (auto simp: has_room_def split: option.splits)
  have r0: "0 \<le> ridx" using c(1) by (auto simp: ctn_set_def split: if_splits)
  have n: "int (Suc n) \<le> aa_nodecount q"
    using cnt_of_le_total [OF alloc_invD(1) [OF inv], of "st_ID (sr_Stat u)"] alloc_invD(4) [OF inv] left by (simp add: n_def)
  have mem: "int n * uint (aa_memory q) + uint (aa_memory q) \<le> rb_MemoryMB (cs_Available c)"
  proof -
    have "int (Suc n) * uint (aa_memory q) \<le> aa_nodecount q * uint (aa_memory q)" using n by (rule mult_right_mono) simp
    then show ?thesis using c(2) by (simp add: algebra_simps)
  qed
  have slices: "sr_SliceWorkload u + int n * aa_slicesize q + aa_slicesize q \<le> slicelimit"
  proof -
    have "int (Suc n) * aa_slicesize q \<le> aa_nodecount q * aa_slicesize q" using n q(1) by (intro mult_right_mono) (simp_all add: args_ok_def)
    then show ?thesis using room by (simp add: has_room_def algebra_simps)
  qed
  have core: "of_nat n * aa_core q + aa_core q \<le> rb_Core (cs_Available c)"
  proof -
    have "of_int (int (Suc n)) * aa_core q \<le> of_int (aa_nodecount q) * aa_core q" using n q(2) by (intro mult_right_mono) (simp_all only: of_int_le_iff)
    then show ?thesis using c(3) by (simp add: algebra_simps)
  qed
  have "aa_memory q \<le> (of_int (rb_MemoryMB (cs_Available c) - int n * uint (aa_memory q)) :: uint32)"
    unfolding word_le_def taken_available [OF wf inv u c(1) n_def] using mem by simp
  moreover have "\<not> (of_int (aa_vseglimitpseg q) :: uint32) \<le> vs_VSegmentCount h" if h: "cur = Some h" for h
  proof -
    have l: "uint (of_int (aa_vseglimitpseg q) :: uint32) = aa_vseglimitpseg q"
      using q(1) by (intro uint_of_int_31) (auto simp: args_ok_def)
    have "unat (vs_VSegmentCount h) = n" using curhost_spec(2) [OF wf inv u cur_def h] by (simp add: n_def)
    then have "uint (vs_VSegmentCount h) = int n" by (metis int_nat_eq unat_eq_nat_uint uint_ge_0)
    then show ?thesis using n q(3) by (simp add: word_le_def l)
  qed
  moreover have "\<not> skip" if "cur = Some h" for h using skip that by (auto simp: cur_def)
  moreover have "getGRMContainerSet m (taken q ridx n u) (aa_ratio q) =
      (FUNC_RETURN_OK, Some (c\<lparr>cs_Available := minusResourceBundleData (cs_Available c) (int n * uint (aa_memory q)) (of_nat n * aa_core q)\<rparr>))"
    using ridx r0 c(1) by (simp add: getGRMContainerSet_def Let_def)
  moreover have "sr_SliceWorkload (taken q ridx n u) = sr_SliceWorkload u + int n * aa_slicesize q"
    using c(1) by (simp add: taken_def)
  ultimately show ?thesis
    using slices core room unfolding n_def [symmetric] cur_def [symmetric]
    by (cases cur) (auto simp: can_take_def has_room_def minusResourceBundleData_def algebra_simps simp del: of_int_diff)
qed

lemma empty_cannot_take:
  assumes "ridx = getResourceQueueRatioIndex m (aa_ratio q)" "ctn_set u ridx = None"
  shows "\<not> can_take slicelimit m q skip (taken q ridx n u) cur"
  using assms by (auto simp: can_take_def taken_def getGRMContainerSet_def Let_def split: if_splits)

lemma two_ties:
  assumes wf: "pool_wf ridx p" and q: "args_ok q" "0 \<le> aa_core q" "aa_nodecount q \<le> aa_vseglimitpseg q" "4 \<le> aa_nodecount q"
    and ridx: "ridx = getResourceQueueRatioIndex m (aa_ratio q)"
    and ab: "OrderedIOBytesWorkload p = [a, b]" "rp_heap p a = Some s" "rp_heap p b = Some t"
    and tie: "iobytes_of (rp_heap p) a = w" "iobytes_of (rp_heap p) b = w"
    and room: "has_room slicelimit q ridx s" "ctn_set t ridx = None"
    and st: "alloc_inv p q ridx st" "OrderedIOBytesWorkload (as_pool st) = [a, b]" "as_tmplist st = []" "as_impossiblecount st = 0"
      "as_nodecountleft st = aa_nodecount q" "as_skipchosenmachine st" "as_vsegcnttbl st = newVSegCntTable"
  obtains st' where "allocateByWorkload resolve slicelimit m q 2 st = Some st'" "as_nodecountleft st' = aa_nodecount q - 3"
proof -
  have ties: "\<forall>x \<in> set (OrderedIOBytesWorkload p). iobytes_of (rp_heap p) x = w" using ab(1) tie by simp
  let ?run = "allocateByWorkload resolve slicelimit m q 2"
  have A: "\<exists>u'. ?run u = ?run u' \<and> alloc_inv p q ridx u' \<and> as_nodecountleft u' = as_nodecountleft u - 1 \<and> as_impossiblecount u' = 0 \<and>
      as_skipchosenmachine u' = as_skipchosenmachine u \<and>
      OrderedIOBytesWorkload (as_pool u') = (if xs = [] then rev (as_tmplist u @ [a]) else xs) \<and>
      as_tmplist u' = (if xs = [] then [] else as_tmplist u @ [a])"
    if u: "alloc_inv p q ridx u" "OrderedIOBytesWorkload (as_pool u) = a # xs" "0 < as_nodecountleft u" "as_impossiblecount u < 2"
      "as_skipchosenmachine u \<longrightarrow> as_vsegcnttbl u = newVSegCntTable" for u xs
  proof -
    have can: "can_take slicelimit m q (as_skipchosenmachine u) (taken q ridx (cnt_of (as_vsegcnttbl u) (st_ID (sr_Stat s))) s)
        (Option.bind (ht_get (as_vsegcnttbl u) (seg_key (st_ID (sr_Stat s)))) id) = True"
      using room_can_take [OF wf q(1-3) ridx u(1,3) ab(2) room(1)] u(5) new_table_facts(2) by simp
    have c: "loop_cond 2 u" using u by (simp add: loop_cond_def)
    show ?thesis
      by (rule round [OF wf q(1) ridx ties u(1,2) ab(2) c can refl, where resolve = resolve]) (rule exI, intro conjI, assumption+, simp_all)
  qed
  have B: "\<exists>u'. ?run u = ?run u' \<and> alloc_inv p q ridx u' \<and> as_nodecountleft u' = as_nodecountleft u \<and>
      as_impossiblecount u' = (if as_impossiblecount u = 1 \<and> as_skipchosenmachine u then 0 else as_impossiblecount u + 1) \<and>
      (as_skipchosenmachine u' \<longleftrightarrow> as_skipchosenmachine u \<and> as_impossiblecount u = 0) \<and>
      OrderedIOBytesWorkload (as_pool u') = (if xs = [] then rev (as_tmplist u @ [b]) else xs) \<and>
      as_tmplist u' = (if xs = [] then [] else as_tmplist u @ [b])"
    if u: "alloc_inv p q ridx u" "OrderedIOBytesWorkload (as_pool u) = b # xs" "0 < as_nodecountleft u" "as_impossiblecount u \<in> {0, 1}" for u xs
  proof -
    have can: "can_take slicelimit m q (as_skipchosenmachine u) (taken q ridx (cnt_of (as_vsegcnttbl u) (st_ID (sr_Stat t))) t)
        (Option.bind (ht_get (as_vsegcnttbl u) (seg_key (st_ID (sr_Stat t)))) id) = False"
      using empty_cannot_take [OF ridx room(2)] by simp
    have c: "loop_cond 2 u" using u by (auto simp: loop_cond_def)
    show ?thesis
      by (rule round [OF wf q(1) ridx ties u(1,2) ab(3) c can refl, where resolve = resolve])
        (rule exI, intro conjI, assumption+, use u(4) in auto)
  qed
  obtain st1 where 1: "?run st = ?run st1" "alloc_inv p q ridx st1" "as_nodecountleft st1 = aa_nodecount q - 1" "as_impossiblecount st1 = 0"
    "as_skipchosenmachine st1" "OrderedIOBytesWorkload (as_pool st1) = [b]" "as_tmplist st1 = [a]"
    using A [OF st(1,2)] st(3-7) q(4) by auto
  obtain st2 where 2: "?run st1 = ?run st2" "alloc_inv p q ridx st2" "as_nodecountleft st2 = aa_nodecount q - 1" "as_impossiblecount st2 = 1"
    "as_skipchosenmachine st2" "OrderedIOBytesWorkload (as_pool st2) = [b, a]" "as_tmplist st2 = []"
    using B [OF 1(2,6)] 1(3-7) q(4) by auto
  obtain st3 where 3: "?run st2 = ?run st3" "alloc_inv p q ridx st3" "as_nodecountleft st3 = aa_nodecount q - 1" "as_impossiblecount st3 = 0"
    "\<not> as_skipchosenmachine st3" "OrderedIOBytesWorkload (as_pool st3) = [a]" "as_tmplist st3 = [b]"
    using B [OF 2(2,6)] 2(3-7) q(4) by auto
  obtain st4 where 4: "?run st3 = ?run st4" "alloc_inv p q ridx st4" "as_nodecountleft st4 = aa_nodecount q - 2" "as_impossiblecount st4 = 0"
    "\<not> as_skipchosenmachine st4" "OrderedIOBytesWorkload (as_pool st4) = [a, b]" "as_tmplist st4 = []"
    using A [OF 3(2,6)] 3(3-7) q(4) by auto
  obtain st5 where 5: "?run st4 = ?run st5" "alloc_inv p q ridx st5" "as_nodecountleft st5 = aa_nodecount q - 3" "as_impossiblecount st5 = 0"
    "\<not> as_skipchosenmachine st5" "OrderedIOBytesWorkload (as_pool st5) = [b]" "as_tmplist st5 = [a]"
    using A [OF 4(2,6)] 4(3-7) q(4) by auto
  obtain st6 where 6: "?run st5 = ?run st6" "alloc_inv p q ridx st6" "as_nodecountleft st6 = aa_nodecount q - 3" "as_impossiblecount st6 = 1"
    "\<not> as_skipchosenmachine st6" "OrderedIOBytesWorkload (as_pool st6) = [b, a]" "as_tmplist st6 = []"
    using B [OF 5(2,6)] 5(3-7) q(4) by auto
  obtain st7 where 7: "?run st6 = ?run st7" "as_nodecountleft st7 = aa_nodecount q - 3" "as_impossiblecount st7 = 2"
    using B [OF 6(2,6)] 6(3-7) q(4) by auto
  have "?run st7 = Some st7" using 7(3) by (subst allocateByWorkload.simps) (simp add: loop_cond_def)
  then show ?thesis using that [of st7] 1(1) 2(1) 3(1) 4(1) 5(1) 6(1) 7(1,2) by simp
qed

text \<open>C15: the allocation can stop although a segment still has room.  In a pool of two segments of equal workload,
  of which one has no container of the ratio and the other has room for the whole request of four virtual
  segments or more, exactly three are allocated, and the rest of the room stays free: each refill of the index
  reverses the two segments, so that the full one is met twice in a row and counted as two impossible segments.\<close>

theorem allocation_stops_early:
  assumes "ridx = getResourceQueueRatioIndex m (aa_ratio q)" "pool_wf ridx p"
    and "args_ok q" "0 \<le> aa_core q" "4 \<le> aa_nodecount q" "aa_nodecount q \<le> aa_vseglimitpseg q" "sint (AvailNodeCount p) \<le> aa_nodecount q"
    and "OrderedIOBytesWorkload p = [a, b]" "rp_heap p a = Some s" "rp_heap p b = Some t"
    and "iobytes_of (rp_heap p) a = iobytes_of (rp_heap p) b"
    and "has_room slicelimit q ridx s" "ctn_set t ridx = None"
  shows "\<exists>r p' s' c'. allocateResourceFromResourcePoolIOBytes resolve slicelimit m p q [] = Some (r, p') \<and>
    ar_totalvsegcount r = 3 \<and> rp_heap p' a = Some s' \<and> IS_SEGRESOURCE_USABLE s' \<and> ctn_set s' ridx = Some c' \<and>
    (aa_nodecount q - 3) * uint (aa_memory q) \<le> rb_MemoryMB (cs_Available c')"
proof -
  let ?st = "\<lparr>as_pool = p, as_vsegcnttbl = newVSegCntTable, as_tmplist = [], as_nodecountleft = aa_nodecount q,
    as_impossiblecount = 0, as_skipchosenmachine = True\<rparr>"
  have inv: "alloc_inv p q ridx ?st" by (rule initial_inv [OF assms(2,3)]) simp_all
  obtain st where st: "allocateByWorkload resolve slicelimit m q 2 ?st = Some st" "as_nodecountleft st = aa_nodecount q - 3"
    by (rule two_ties [OF assms(2,3,4,6,5,1,8,9,10,11) refl assms(12,13) inv, where resolve = resolve]) (simp_all add: assms(8))
  have apart: "hosts_apart resolve p q" using assms(7) by (simp add: hosts_apart_def)
  obtain r p' where R: "allocateResourceFromResourcePoolIOBytes resolve slicelimit m p q [] = Some (r, p')"
    "0 \<le> ar_totalvsegcount r" "ar_totalvsegcount r \<le> aa_nodecount q"
    "ar_totalvsegcount r = int (sum_list (map (\<lambda>c. unat (vs_VSegmentCount c)) (ar_vsegcounters r)))"
    "\<forall>x. rp_heap p' x = map_option (charged q ridx (ar_vsegiobytes r) (vsegs_on (ar_vsegcounters r) x)) (rp_heap p x)"
    "\<forall>x s c. rp_heap p x = Some s \<longrightarrow> ctn_set s ridx = Some c \<longrightarrow>
       int (vsegs_on (ar_vsegcounters r) x) * uint (aa_memory q) \<le> rb_MemoryMB (cs_Available c)"
    "\<not> aa_fixnodecount q \<longrightarrow> (\<forall>x. rp_heap p x \<noteq> None \<longrightarrow> int (vsegs_on (ar_vsegcounters r) x) \<le> aa_vseglimitpseg q)"
    "\<forall>c \<in> set (ar_vsegcounters r). \<exists>s. rp_heap p (vs_Resource c) = Some s \<and> ctn_set s ridx \<noteq> None \<and> IS_SEGRESOURCE_USABLE s \<and> 0 < vs_VSegmentCount c"
    "frame p p'" "cache_ok p (HDFSHostNameIndexed p')" "mset (OrderedIOBytesWorkload p') = mset (OrderedIOBytesWorkload p)"
    by (rule alloc_spec [OF assms(1,2,3) apart, where slicelimit = slicelimit])
  have total: "ar_totalvsegcount r = 3"
    using R(1) assms(7,8) st by (auto simp: allocateResourceFromResourcePoolIOBytes_def Let_def bind_eq_Some_conv)
  let ?k = "vsegs_on (ar_vsegcounters r) a"
  have "?k \<le> sum_list (map (\<lambda>c. unat (vs_VSegmentCount c)) (ar_vsegcounters r))"
    unfolding vsegs_on_def by (rule sum_list_mono) simp
  then have "int ?k \<le> 3" using R(4) total by linarith
  then have k: "int ?k * uint (aa_memory q) \<le> 3 * uint (aa_memory q)" by (rule mult_right_mono) simp
  obtain c where c: "ctn_set s ridx = Some c" "aa_nodecount q * uint (aa_memory q) \<le> rb_MemoryMB (cs_Available c)" "IS_SEGRESOURCE_USABLE s"
    using assms(12) by (auto simp: has_room_def split: option.splits)
  let ?s = "charged q ridx (ar_vsegiobytes r) ?k s"
  have "rp_heap p' a = Some ?s" using R(5) assms(9) by simp
  moreover have "IS_SEGRESOURCE_USABLE ?s" using c(3) by (simp add: charged_def IS_SEGRESOURCE_USABLE_def taken_def c(1))
  moreover have "ctn_set ?s ridx =
      Some (c\<lparr>cs_Available := minusResourceBundleData (cs_Available c) (int ?k * uint (aa_memory q)) (of_nat ?k * aa_core q)\<rparr>)"
    using c(1) by (simp add: charged_def)
  moreover have "(aa_nodecount q - 3) * uint (aa_memory q) \<le> rb_MemoryMB (cs_Available c) - int ?k * uint (aa_memory q)"
    using c(2) k by (simp add: left_diff_distrib)
  ultimately show ?thesis using R(1) total by (fastforce simp: minusResourceBundleData_def)
qed

theorem allocation_stops_early_witness:
  "\<exists>r p' s' c'. allocateResourceFromResourcePoolIOBytes (\<lambda>_. None) 100 ex_manager (ex_pool ex_segs2 []) (ex_args 6 []) [] = Some (r, p') \<and>
    ar_totalvsegcount r = 3 \<and> rp_heap p' 1 = Some s' \<and> ctn_set s' 0 = Some c' \<and> 3072 \<le> rb_MemoryMB (cs_Available c')"
proof -
  let ?p = "ex_pool ex_segs2 []" and ?q = "ex_args 6 []"
  have ok: "args_ok ?q" by (rule ex_args_ok) simp_all
  have wf: "pool_wf (getResourceQueueRatioIndex ex_manager (aa_ratio ?q)) ?p" unfolding ex_index by (rule ex_pool2_wf)
  have a: "0 \<le> aa_core ?q" "4 \<le> aa_nodecount ?q" "aa_nodecount ?q \<le> aa_vseglimitpseg ?q" "sint (AvailNodeCount ?p) \<le> aa_nodecount ?q"
    by (simp_all add: ex_args_def ex_pool_def ex_segs2_def)
  have p: "OrderedIOBytesWorkload ?p = [1, 2]" "rp_heap ?p 1 = Some (ex_seg 1 (Some ex_set))" "rp_heap ?p 2 = Some (ex_seg 2 None)"
    "iobytes_of (rp_heap ?p) 1 = iobytes_of (rp_heap ?p) 2"
    by (simp_all add: ex_pool_def ex_segs2_def iobytes_of_def ex_seg_def createSegResource_def IS_SEGRESOURCE_USABLE_def)
  have s: "has_room 100 ?q (getResourceQueueRatioIndex ex_manager (aa_ratio ?q)) (ex_seg 1 (Some ex_set))"
    "ctn_set (ex_seg 2 None) (getResourceQueueRatioIndex ex_manager (aa_ratio ?q)) = None"
    unfolding ex_index by (simp_all add: has_room_def ctn_set_def ex_seg_def ex_set_def createSegResource_def IS_SEGRESOURCE_USABLE_def ex_args_def)
  have e: "(aa_nodecount ?q - 3) * uint (aa_memory ?q) = 3072" by (simp add: ex_args_def)
  show ?thesis
    using allocation_stops_early [OF refl wf ok a p s, of "\<lambda>_. None"] unfolding e ex_index by blast
qed

end
