(* ===== verification/RM_Queue_Props.thy ===== *)
theory RM_Queue_Props
  imports RM_Queue RM_Pool_Main
begin

text \<open>
  Properties of the resource queues: the round robin of the dispatch is fair, the quota of a query stays
  within its bounds, the dispatch between the queues does not give away more memory than there is, and the
  search for deadlocks may not end.
\<close>

section \<open>The round robin\<close>

text \<open>The share of each query after \<open>L\<close> full rounds and \<open>k\<close> steps of the next one.\<close>

definition fair_share :: "(nat \<Rightarrow> int) \<Rightarrow> int \<Rightarrow> nat \<Rightarrow> nat \<Rightarrow> int" where
  "fair_share wanted L k i = min (wanted i) (L + (if i < k then 1 else 0))"

lemma put_conn_fields [simp]:
  "conn_at (put_conn g a c) = (conn_at g)(a \<mapsto> c)" "rm_tracks (put_conn g a c) = rm_tracks g" "rm_pool (put_conn g a c) = rm_pool g"
  "rm_mgr (put_conn g a c) = rm_mgr g" "rm_sessions (put_conn g a c) = rm_sessions g"
  by (simp_all add: put_conn_def put_track_def)

text \<open>The state in which the queries have got their shares, and nothing else has changed.\<close>

definition with_shares :: "RMState \<Rightarrow> addr list \<Rightarrow> (nat \<Rightarrow> int) \<Rightarrow> RMState \<Rightarrow> bool" where
  "with_shares g0 todisp share g \<longleftrightarrow>
     (\<exists>h. rm_conns g = (rm_conns g0)\<lparr>ct_heap := h\<rparr>) \<and> rm_tracks g = rm_tracks g0 \<and> rm_pool g = rm_pool g0 \<and>
     rm_mgr g = rm_mgr g0 \<and> rm_sessions g = rm_sessions g0 \<and>
     (\<forall>a. a \<notin> set todisp \<longrightarrow> conn_at g a = conn_at g0 a) \<and>
     (\<forall>i < length todisp. conn_at g (todisp ! i) =
        map_option (\<lambda>c. c\<lparr>ct_SegNumActual := ct_SegNumActual c + share i\<rparr>) (conn_at g0 (todisp ! i)))"

lemma fair_share_step:
  assumes "k < n"
  shows "fair_share w L (Suc k) i = fair_share w L k i + (if i = k \<and> L < w k then 1 else 0)"
  by (cases "i = k") (auto simp: fair_share_def min_def less_Suc_eq)

lemma fair_share_round: "i < n \<Longrightarrow> fair_share w L n i = fair_share w (L + 1) 0 i"
  by (simp add: fair_share_def)

lemma with_shares_cong:
  "with_shares g0 todisp s g \<Longrightarrow> (\<And>i. i < length todisp \<Longrightarrow> s i = s' i) \<Longrightarrow> with_shares g0 todisp s' g"
  by (simp add: with_shares_def)

lemma with_shares_0: "with_shares g todisp (\<lambda>_. 0) g"
proof -
  have "rm_conns g = (rm_conns g)\<lparr>ct_heap := conn_at g\<rparr>" by (rule ConnectionTrackManager.equality) simp_all
  then have "\<exists>h. rm_conns g = (rm_conns g)\<lparr>ct_heap := h\<rparr>" by (rule exI [of _ "conn_at g"])
  then show ?thesis unfolding with_shares_def by (simp add: option.map_ident)
qed

lemma with_shares_give:
  assumes ws: "with_shares g0 todisp s g" and d: "distinct todisp" and k: "k < length todisp"
    and c: "conn_at g (todisp ! k) = Some c"
  shows "with_shares g0 todisp (s(k := s k + 1)) (put_conn g (todisp ! k) (c\<lparr>ct_SegNumActual := ct_SegNumActual c + 1\<rparr>))"
proof -
  obtain c0 where c0: "conn_at g0 (todisp ! k) = Some c0" "c = c0\<lparr>ct_SegNumActual := ct_SegNumActual c0 + s k\<rparr>"
    using ws k c by (auto simp: with_shares_def)
  have "todisp ! i \<noteq> todisp ! k" if "i \<noteq> k" "i < length todisp" for i
    using d k that by (simp add: nth_eq_iff_index_eq)
  moreover have "todisp ! k \<in> set todisp" using k by simp
  moreover obtain h where "rm_conns g = (rm_conns g0)\<lparr>ct_heap := h\<rparr>" using ws by (auto simp: with_shares_def)
  then have "\<exists>h. rm_conns (put_conn g (todisp ! k) d) = (rm_conns g0)\<lparr>ct_heap := h\<rparr>" for d
    by (simp add: put_conn_def put_track_def) blast
  ultimately show ?thesis
    using ws c0 k unfolding with_shares_def by auto
qed

text \<open>One step of the loop.\<close>

lemma distribute_step:
  assumes ws: "with_shares g0 todisp (fair_share w L k) g" and d: "distinct todisp" and k: "k < length todisp"
    and c0: "conn_at g0 (todisp ! k) = Some c0" "ct_SegNumActual c0 + w k = ct_SegNum c0" and avail: "0 < avail"
  obtains g' where
    "with_shares g0 todisp (fair_share w L (Suc k)) g'"
    "distributeSegs todisp k avail full g =
       (let full' = (if L < w k then 0 else full + 1) in
        if full' = length todisp then Some g'
        else distributeSegs todisp (if Suc k < length todisp then Suc k else 0) (avail - (if L < w k then 1 else 0)) full' g')"
proof -
  let ?s = "fair_share w L k"
  let ?c = "c0\<lparr>ct_SegNumActual := ct_SegNumActual c0 + ?s k\<rparr>"
  have c: "conn_at g (todisp ! k) = Some ?c" using ws k c0(1) by (simp add: with_shares_def)
  have test: "ct_SegNum ?c > ct_SegNumActual ?c \<longleftrightarrow> L < w k" using c0(2) by (auto simp: fair_share_def)
  show ?thesis
  proof (cases "L < w k")
    case True
    let ?g = "put_conn g (todisp ! k) (?c\<lparr>ct_SegNumActual := ct_SegNumActual ?c + 1\<rparr>)"
    have "with_shares g0 todisp (?s(k := ?s k + 1)) ?g" by (rule with_shares_give [OF ws d k c])
    then have "with_shares g0 todisp (fair_share w L (Suc k)) ?g"
      by (rule with_shares_cong) (simp add: fair_share_step [OF k] True)
    moreover have "distributeSegs todisp k avail full g =
       (if 0 = length todisp then Some ?g else distributeSegs todisp (if Suc k < length todisp then Suc k else 0) (avail - 1) 0 ?g)"
      using c k avail True test by (subst distributeSegs.simps) (simp add: Let_def)
    ultimately show ?thesis using that [of ?g] True by (simp add: Let_def)
  next
    case False
    have "with_shares g0 todisp (fair_share w L (Suc k)) g"
      using ws by (rule with_shares_cong) (use False in \<open>simp add: fair_share_step [OF k]\<close>)
    moreover have "distributeSegs todisp k avail full g =
       (if full + 1 = length todisp then Some g else distributeSegs todisp (if Suc k < length todisp then Suc k else 0) avail (full + 1) g)"
      using c k avail False test by (subst distributeSegs.simps) (simp add: Let_def)
    ultimately show ?thesis using that [of g] False by (simp add: Let_def)
  qed
qed

text \<open>How many steps it takes from one position to another; a query that still wants a segment is met before
  the count of satisfied queries gets to their number.\<close>

definition steps_to :: "nat \<Rightarrow> nat \<Rightarrow> nat \<Rightarrow> nat" where
  "steps_to n k i = (if k \<le> i then i - k else i + n - k)"

lemma distribute_loop:
  assumes d: "distinct todisp" and w: "\<And>i. 0 \<le> w i"
    and conns: "\<And>i. i < length todisp \<Longrightarrow> \<exists>c0. conn_at g0 (todisp ! i) = Some c0 \<and> ct_SegNumActual c0 + w i = ct_SegNum c0"
  defines "n \<equiv> length todisp"
  defines "total1 \<equiv> \<lambda>L k. \<Sum>i<n. fair_share w L k i"
  shows "with_shares g0 todisp (fair_share w L k) g \<Longrightarrow> k < n \<Longrightarrow> full < n \<Longrightarrow> 0 \<le> avail \<Longrightarrow> 0 \<le> L \<Longrightarrow>
    (\<And>i. i < n \<Longrightarrow> fair_share w L k i < w i \<Longrightarrow> steps_to n k i < n - full) \<Longrightarrow>
    \<exists>g' L' k'. distributeSegs todisp k avail full g = Some g' \<and> with_shares g0 todisp (fair_share w L' k') g' \<and> 0 \<le> L' \<and>
      total1 L' k' - total1 L k \<le> avail \<and>
      (total1 L' k' - total1 L k = avail \<or> (\<forall>i<n. fair_share w L' k' i = w i))"
proof (induction "nat avail * (n + 1) + (n - full)" arbitrary: avail full k L g rule: less_induct)
  case less
  show ?case
  proof (cases "avail = 0")
    case True
    then have "distributeSegs todisp k avail full g = Some g" by (subst distributeSegs.simps) simp
    then show ?thesis using less.prems True by (intro exI [of _ g] exI [of _ L] exI [of _ k]) simp
  next
    case False
    then have av: "0 < avail" using less.prems(4) by simp
    have k: "k < length todisp" using less.prems(2) by (simp add: n_def)
    obtain c0 where c0: "conn_at g0 (todisp ! k) = Some c0" "ct_SegNumActual c0 + w k = ct_SegNum c0" using conns [OF k] by blast
    let ?give = "if L < w k then 1 else 0 :: int" and ?full = "if L < w k then 0 else full + 1"
    obtain g' where g': "with_shares g0 todisp (fair_share w L (Suc k)) g'"
      "distributeSegs todisp k avail full g =
       (let full' = ?full in if full' = length todisp then Some g'
        else distributeSegs todisp (if Suc k < length todisp then Suc k else 0) (avail - ?give) full' g')"
      by (rule distribute_step [OF less.prems(1) d k c0 av])
    have tot: "total1 L (Suc k) = total1 L k + ?give"
    proof -
      have "(\<Sum>i<n. if i = k \<and> L < w k then 1 else 0 :: int) = ?give"
        using less.prems(2) by (cases "L < w k") (simp_all add: sum.delta)
      then show ?thesis unfolding total1_def fair_share_step [OF less.prems(2)] sum.distrib by simp
    qed
    have mono: "fair_share w L k i \<le> fair_share w L (Suc k) i" for i by (auto simp: fair_share_def)
    show ?thesis
    proof (cases "?full = n")
      case True
      have "fair_share w L (Suc k) i = w i" if i: "i < n" for i
      proof (rule ccontr)
        assume "fair_share w L (Suc k) i \<noteq> w i"
        then have u: "fair_share w L (Suc k) i < w i" by (simp add: fair_share_def min_def split: if_splits)
        then have "steps_to n k i < n - full" using less.prems(6) [OF i] mono [of i] by linarith
        then have "steps_to n k i = 0" using True less.prems(3) by (simp split: if_splits)
        then have "i = k" using i less.prems(2) by (auto simp: steps_to_def split: if_splits)
        moreover have "\<not> L < w k" using True less.prems(2) by (auto split: if_splits)
        ultimately show False using u by (simp add: fair_share_def)
      qed
      moreover have "distributeSegs todisp k avail full g = Some g'" using g'(2) True by (simp add: n_def Let_def)
      moreover have "?give \<le> avail" using av by simp
      ultimately show ?thesis using g'(1) less.prems(5) tot
        by (intro exI [of _ g'] exI [of _ L] exI [of _ "Suc k"]) simp
    next
      case False
      define k1 where "k1 = (if Suc k < n then Suc k else 0)"
      define L1 where "L1 = (if Suc k < n then L else L + 1)"
      have eq: "fair_share w L1 k1 i = fair_share w L (Suc k) i" if "i < n" for i
        using fair_share_round [OF that, of w L] less.prems(2) by (auto simp: k1_def L1_def not_less less_Suc_eq le_Suc_eq)
      have ws: "with_shares g0 todisp (fair_share w L1 k1) g'"
        using g'(1) by (rule with_shares_cong) (simp add: eq n_def)
      have "total1 L1 k1 = total1 L (Suc k)" unfolding total1_def by (rule sum.cong) (simp_all add: eq)
      then have tot1: "total1 L1 k1 = total1 L k + ?give" using tot by (rule trans)
      have run: "distributeSegs todisp k avail full g = distributeSegs todisp k1 (avail - ?give) ?full g'"
        using g'(2) False by (simp add: n_def Let_def k1_def)
      have unsat: "steps_to n k1 i < n - ?full" if i: "i < n" "fair_share w L1 k1 i < w i" for i
      proof (cases "L < w k")
        case True
        then show ?thesis using i(1) by (auto simp: steps_to_def k1_def)
      next
        case full: False
        have u: "fair_share w L (Suc k) i < w i" using i eq by simp
        then have "i \<noteq> k" using full by (auto simp: fair_share_def)
        moreover have "steps_to n k i < n - full" using less.prems(6) [OF i(1)] u mono [of i] by linarith
        ultimately show ?thesis using i(1) less.prems(2) full by (auto simp: steps_to_def k1_def split: if_splits)
      qed
      have meas: "nat (avail - ?give) * (n + 1) + (n - ?full) < nat avail * (n + 1) + (n - full)"
      proof (cases "L < w k")
        case True
        have "nat avail = Suc (nat (avail - 1))" using av by simp
        then show ?thesis using True less.prems(3) by simp
      next
        case False
        then show ?thesis using less.prems(3) by simp
      qed
      have "\<exists>g'' L' k'. distributeSegs todisp k1 (avail - ?give) ?full g' = Some g'' \<and> with_shares g0 todisp (fair_share w L' k') g'' \<and> 0 \<le> L' \<and>
        total1 L' k' - total1 L1 k1 \<le> avail - ?give \<and>
        (total1 L' k' - total1 L1 k1 = avail - ?give \<or> (\<forall>i<n. fair_share w L' k' i = w i))"
      proof (rule less.hyps [OF meas ws _ _ _ _ unsat])
        show "k1 < n" using less.prems(2) by (simp add: k1_def)
        show "?full < n" using less.prems(3) False by (simp split: if_splits)
        show "0 \<le> avail - ?give" using av by simp
        show "0 \<le> L1" using less.prems(5) by (simp add: L1_def)
      qed
      then show ?thesis unfolding run tot1 by (simp add: algebra_simps)
    qed
  qed
qed

text \<open>What a query may get beyond what it has.\<close>

definition wanted :: "RMState \<Rightarrow> addr list \<Rightarrow> nat \<Rightarrow> int" where
  "wanted g todisp i =
     (if i < length todisp
      then (case conn_at g (todisp ! i) of None \<Rightarrow> 0 | Some c \<Rightarrow> ct_SegNum c - ct_SegNumActual c) else 0)"

lemma round_robin:
  assumes "todisp \<noteq> []" "distinct todisp" "0 \<le> avail"
    and "\<forall>a \<in> set todisp. \<exists>c. conn_at g a = Some c \<and> ct_SegNumActual c \<le> ct_SegNum c"
  shows "\<exists>g' L k. distributeSegs todisp 0 avail 0 g = Some g' \<and> 0 \<le> L \<and>
    with_shares g todisp (fair_share (wanted g todisp) L k) g' \<and>
    (\<Sum>i<length todisp. fair_share (wanted g todisp) L k i) = min avail (\<Sum>i<length todisp. wanted g todisp i)"
proof -
  let ?n = "length todisp" and ?w = "wanted g todisp"
  have conns: "\<exists>c. conn_at g (todisp ! i) = Some c \<and> ct_SegNumActual c + ?w i = ct_SegNum c" if "i < ?n" for i
    using assms(4) that by (auto simp: wanted_def dest!: nth_mem)
  have w: "0 \<le> ?w i" for i
  proof (cases "i < ?n")
    case True
    then obtain c where "conn_at g (todisp ! i) = Some c" "ct_SegNumActual c \<le> ct_SegNum c"
      using assms(4) nth_mem by blast
    then show ?thesis by (simp add: wanted_def)
  qed (simp add: wanted_def)
  have s0: "fair_share ?w 0 0 = (\<lambda>_. 0)" using w by (auto simp: fair_share_def)
  have ws: "with_shares g todisp (fair_share ?w 0 0) g" unfolding s0 by (rule with_shares_0)
  have n: "0 < ?n" using assms(1) by simp
  have steps: "steps_to ?n 0 i < ?n - 0" if "i < ?n" for i using that by (simp add: steps_to_def)
  obtain g' L k where R: "distributeSegs todisp 0 avail 0 g = Some g'" "with_shares g todisp (fair_share ?w L k) g'" "0 \<le> L"
    "(\<Sum>i<?n. fair_share ?w L k i) - (\<Sum>i<?n. fair_share ?w 0 0 i) \<le> avail"
    "(\<Sum>i<?n. fair_share ?w L k i) - (\<Sum>i<?n. fair_share ?w 0 0 i) = avail \<or> (\<forall>i<?n. fair_share ?w L k i = ?w i)"
    using distribute_loop [OF assms(2) w conns ws n n assms(3) order_refl steps] by blast
  have le: "(\<Sum>i<?n. fair_share ?w L k i) \<le> (\<Sum>i<?n. ?w i)" by (rule sum_mono) (simp add: fair_share_def)
  have "(\<Sum>i<?n. fair_share ?w L k i) = min avail (\<Sum>i<?n. ?w i)"
  proof (cases "\<forall>i<?n. fair_share ?w L k i = ?w i")
    case True
    then have "(\<Sum>i<?n. fair_share ?w L k i) = (\<Sum>i<?n. ?w i)" by (intro sum.cong) simp_all
    then show ?thesis using R(4) unfolding s0 by simp
  next
    case False
    then show ?thesis using R(5) le unfolding s0 by auto
  qed
  then show ?thesis using R(1-3) by blast
qed

text \<open>C16: the round robin of the EVEN policy ends and is fair.  The segments that are left after every query has got
  its minimum are handed out completely, or until no query wants more; the queries have got the same number
  each, up to what they wanted, where those that come first in the queue may be one ahead; and nothing else
  changes.\<close>

theorem round_robin_fair:
  assumes "todisp \<noteq> []" "distinct todisp" "0 \<le> avail"
    and "\<forall>a \<in> set todisp. \<exists>c. conn_at g a = Some c \<and> ct_SegNumActual c \<le> ct_SegNum c"
  shows "\<exists>g' L k. distributeSegs todisp 0 avail 0 g = Some g' \<and> 0 \<le> L \<and>
    with_shares g todisp (fair_share (wanted g todisp) L k) g' \<and>
    (\<Sum>i<length todisp. fair_share (wanted g todisp) L k i) = min avail (\<Sum>i<length todisp. wanted g todisp i)"
  by (rule round_robin [OF assms])

section \<open>The search for deadlocks\<close>

text \<open>No waiting query belongs to a session that holds resource.\<close>

definition no_holder :: "RMState \<Rightarrow> DynResourceQueueTrack \<Rightarrow> bool" where
  "no_holder g t \<longleftrightarrow>
     (\<forall>a \<in> set (qt_QueryResRequests t). case conn_at g a of
        None \<Rightarrow> False
      | Some c \<Rightarrow> (case findSession (qt_DLDetector t) (of_int (ct_SessionID c)) of
                    None \<Rightarrow> True
                  | Some sa \<Rightarrow> (case tracks (rm_sessions g) sa of None \<Rightarrow> False | Some s \<Rightarrow> st_InUseTotalMemoryMB s = 0)))"

lemma findHolder_none:
  "\<forall>a \<in> set as. case conn_at g a of
        None \<Rightarrow> False
      | Some c \<Rightarrow> (case findSession d (of_int (ct_SessionID c)) of
                    None \<Rightarrow> True
                  | Some sa \<Rightarrow> (case tracks (rm_sessions g) sa of None \<Rightarrow> False | Some s \<Rightarrow> st_InUseTotalMemoryMB s = 0)) \<Longrightarrow>
   findHolder g d as = Some None"
  by (induction as) (auto split: option.splits)

lemma stuck_loop:
  assumes "deadLockLoop q em ec dk = Some g'"
  shows "\<not> (\<exists>t. rm_tracks (dk_state dk) q = Some t \<and> qt_QueryResRequests t \<noteq> [] \<and> dk_availmemorymb dk < em \<and>
    deadLockBody q t dk = Some dk)"
proof (rule deadLockLoop.raw_induct [OF _ assms])
  fix f q em ec dk g'
  assume IH: "\<And>q em ec dk g'. f q em ec dk = Some g' \<Longrightarrow> \<not> (\<exists>t. rm_tracks (dk_state dk) q = Some t \<and> qt_QueryResRequests t \<noteq> [] \<and>
      dk_availmemorymb dk < em \<and> deadLockBody q t dk = Some dk)"
    and run: "Option.bind (rm_tracks (dk_state dk) q)
        (\<lambda>t. if (dk_availmemorymb dk < em \<or> dk_availcore dk < ec) \<and> qt_QueryResRequests t \<noteq> []
              then Option.bind (deadLockBody q t dk) (f q em ec) else Some (dk_state dk)) = Some g'"
  show "\<not> (\<exists>t. rm_tracks (dk_state dk) q = Some t \<and> qt_QueryResRequests t \<noteq> [] \<and> dk_availmemorymb dk < em \<and>
      deadLockBody q t dk = Some dk)"
  proof
    assume *: "\<exists>t. rm_tracks (dk_state dk) q = Some t \<and> qt_QueryResRequests t \<noteq> [] \<and> dk_availmemorymb dk < em \<and>
      deadLockBody q t dk = Some dk"
    then have "f q em ec dk = Some g'" using run by auto
    then show False using IH * by blast
  qed
qed

text \<open>C17: the search for deadlocks in a queue hangs.  When the minimum of the first waiting query needs more memory
  than the queue may ever get, but not more cores, and no waiting query belongs to a session that holds
  resource, the body of the outer loop leaves its state as it is and the loop never ends: the search only gives
  up beforehand when both, memory and cores, are too many.\<close>

theorem deadlock_search_hangs:
  assumes "rm_tracks g q = Some t" "qt_QueryResRequests t = a # as" "conn_at g a = Some c" "no_holder g t"
    and "of_int (qt_ClusterMemoryMaxMB t) - dl_LockedTotalMemoryMB (qt_DLDetector t) < (of_int (ct_SegMemoryMB c * ct_SegNumMin c) :: uint32)"
    and "ct_SegCore c * of_int (ct_SegNumMin c) \<le> qt_ClusterVCoreMax t"
  shows "(\<forall>dk. dk_state dk = g \<longrightarrow> deadLockBody q t dk = Some dk) \<and> detectAndDealWithDeadLock g q = None"
proof -
  have "findHolder g (qt_DLDetector t) (rev (qt_QueryResRequests t)) = Some None"
    using assms(4) by (intro findHolder_none) (simp add: no_holder_def)
  then have body: "deadLockBody q t dk = Some dk" if "dk_state dk = g" for dk
    using that by (simp add: deadLockBody_def)
  let ?em = "of_int (ct_SegMemoryMB c * ct_SegNumMin c)" and ?ec = "ct_SegCore c * of_int (ct_SegNumMin c)"
  let ?dk = "\<lparr>dk_state = g, dk_availmemorymb = of_int (qt_ClusterMemoryMaxMB t) - dl_LockedTotalMemoryMB (qt_DLDetector t),
    dk_availcore = qt_ClusterVCoreMax t - dl_LockedTotalCore (qt_DLDetector t)\<rparr>"
  have "deadLockLoop q ?em ?ec ?dk = None"
  proof (cases "deadLockLoop q ?em ?ec ?dk")
    case (Some g')
    then show ?thesis using stuck_loop [OF Some] assms(1,2,5) body [of ?dk] by auto
  qed
  then show ?thesis using assms body by (auto simp: detectAndDealWithDeadLock_def Let_def not_less)
qed

text \<open>A state with one queue and one connection that waits in it.\<close>

definition ex_queue :: DynResourceQueue where
  "ex_queue = \<lparr>rq_OID = 1, rq_ParentOID = 0, rq_ParallelCount = 20, rq_ClusterMemoryMB = 2048, rq_Status = 0, rq_ClusterVCore = 2,
     rq_SegResourceQuotaVCore = 1 / 2, rq_SegResourceQuotaMemoryMB = 1024, rq_ResourceUpperFactor = 1, rq_VSegUpperLimit = 1000,
     rq_AllocatePolicy = 0, rq_ClusterMemoryPer = 50, rq_ClusterVCorePer = 50, rq_Name = [113]\<rparr>"

definition ex_track :: DynResourceQueueTrack where
  "ex_track = \<lparr>qt_QueueInfo = ex_queue, qt_ParentTrack = None, qt_ChildrenTracks = [], qt_CurConnCounter = 1,
     qt_QueryResRequests = [1], qt_MemCoreRatio = 2048, qt_RatioIndex = 0, qt_ClusterSegNumber = 2, qt_ClusterSegNumberMax = 2,
     qt_ClusterMemoryMaxMB = 2048, qt_ClusterVCoreMax = 2, qt_ClusterMemoryActPer = 50, qt_ClusterMemoryMaxPer = 50,
     qt_ClusterVCoreActPer = 50, qt_ClusterVCoreMaxPer = 50, qt_TotalAllocated = \<lparr>rb_MemoryMB = 2048, rb_Core = 1, rb_Ratio = 2048\<rparr>,
     qt_TotalRequest = \<lparr>rb_MemoryMB = 3072, rb_Core = 3 / 2, rb_Ratio = 2048\<rparr>, qt_TotalUsed = \<lparr>rb_MemoryMB = 0, rb_Core = 0, rb_Ratio = 2048\<rparr>,
     qt_trackedMemCoreRatio = True, qt_isBusy = True, qt_pauseAllocation = False, qt_troubledByFragment = False,
     qt_expectMoreResource = False, qt_NumOfRunningQueries = 0, qt_DLDetector = initializeResqueueDeadLockDetector\<rparr>"

definition ex_conn :: ConnectionTrack where
  "ex_conn = createEmptyConnectionTrack\<lparr>ct_SessionID := 7, ct_SegMemoryMB := 1024, ct_SegCore := 1 / 2, ct_SegNum := 3, ct_SegNumMin := 3\<rparr>"

definition ex_state :: RMState where
  "ex_state = \<lparr>rm_conns = initializeConnectionTrackManager\<lparr>ct_heap := [1 \<mapsto> ex_conn]\<rparr>, rm_mgr = ex_manager,
     rm_pool = ex_pool ex_segs2 [], rm_tracks = [1 \<mapsto> ex_track], rm_sessions = \<lparr>tracks = Map.empty, sbrk = 1\<rparr>\<rparr>"

lemma empty_detector: "findSession initializeResqueueDeadLockDetector sid = None"
proof -
  have "ht_get (Sessions initializeResqueueDeadLockDetector) (session_key sid) = None"
    unfolding initializeResqueueDeadLockDetector_def ResqueueDeadLockDetector.simps by (rule initialize_inv(2)) simp_all
  then show ?thesis by (simp add: findSession_def ht_get_def split: option.splits)
qed

theorem deadlock_search_hangs_witness: "detectAndDealWithDeadLock ex_state 1 = None"
proof -
  have c: "conn_at ex_state 1 = Some ex_conn" by (simp add: ex_state_def)
  have t: "rm_tracks ex_state 1 = Some ex_track" "qt_QueryResRequests ex_track = [1]" by (simp_all add: ex_state_def ex_track_def)
  have d: "qt_DLDetector ex_track = initializeResqueueDeadLockDetector" by (simp add: ex_track_def)
  have "no_holder ex_state ex_track" unfolding no_holder_def t(2) d empty_detector using c by simp
  moreover have "of_int (qt_ClusterMemoryMaxMB ex_track) - dl_LockedTotalMemoryMB (qt_DLDetector ex_track)
      < (of_int (ct_SegMemoryMB ex_conn * ct_SegNumMin ex_conn) :: uint32)"
    unfolding d by (simp add: ex_track_def ex_conn_def initializeResqueueDeadLockDetector_def)
  moreover have "ct_SegCore ex_conn * of_int (ct_SegNumMin ex_conn) \<le> qt_ClusterVCoreMax ex_track"
    by (simp add: ex_track_def ex_conn_def)
  ultimately show ?thesis using deadlock_search_hangs [OF t c] by blast
qed

section \<open>The quota of a query\<close>

lemma quota_policy:
  "computeQueryQuota_EVEN t lim1 = Some (a, b) \<Longrightarrow> a \<le> qt_ClusterSegNumberMax t"
  "computeQueryQuota_FIFO t lim1 = Some (a, b) \<Longrightarrow> a \<le> qt_ClusterSegNumberMax t"
  by (auto simp: computeQueryQuota_EVEN_def computeQueryQuota_FIFO_def Let_def split: if_splits)

lemma quota_ok:
  assumes "computeQueryQuota t c = Some (FUNC_RETURN_OK, c1)"
  obtains a b where "a \<le> qt_ClusterSegNumberMax t" "ct_MinSegCountFixed c \<le> ct_VSegLimit c" "ct_MinSegCountFixed c \<le> a"
    "c1 = c\<lparr>ct_SegMemoryMB := rq_SegResourceQuotaMemoryMB (qt_QueueInfo t), ct_SegCore := rq_SegResourceQuotaVCore (qt_QueueInfo t),
      ct_MaxSegCountFixed := min (ct_MaxSegCountFixed c) (ct_VSegLimit c), ct_SegNum := a, ct_SegNumMin := ct_MinSegCountFixed c\<rparr>"
proof -
  let ?pol = "rq_AllocatePolicy (qt_QueueInfo t)" and ?lim = "ct_VSegLimit c"
  have le: "ct_MinSegCountFixed c \<le> ?lim"
    using assms by (cases "?lim < ct_MinSegCountFixed c") (simp_all add: computeQueryQuota_def Let_def)
  define r where "r = AllocationPolicy ?pol t ?lim"
  have max: "(if ?lim < ct_MaxSegCountFixed c then ?lim else ct_MaxSegCountFixed c) = min (ct_MaxSegCountFixed c) ?lim"
    by (simp add: min_def)
  have "r \<noteq> None" using assms le by (cases r) (simp_all add: computeQueryQuota_def Let_def r_def)
  then obtain a b where ab: "r = Some (a, b)" by auto
  then have run: "computeQueryQuota t c =
    (if a < ct_MinSegCountFixed c
     then Some (RESQUEMGR_TOO_MANY_FIXED_SEGNUM, c\<lparr>ct_SegMemoryMB := rq_SegResourceQuotaMemoryMB (qt_QueueInfo t),
       ct_SegCore := rq_SegResourceQuotaVCore (qt_QueueInfo t), ct_MaxSegCountFixed := min (ct_MaxSegCountFixed c) ?lim, ct_SegNum := a,
       ct_SegNumMin := b\<rparr>)
     else Some (FUNC_RETURN_OK, c\<lparr>ct_SegMemoryMB := rq_SegResourceQuotaMemoryMB (qt_QueueInfo t),
       ct_SegCore := rq_SegResourceQuotaVCore (qt_QueueInfo t), ct_MaxSegCountFixed := min (ct_MaxSegCountFixed c) ?lim, ct_SegNum := a,
       ct_SegNumMin := ct_MinSegCountFixed c\<rparr>))"
    using le unfolding r_def by (simp add: computeQueryQuota_def Let_def max)
  have "a \<le> qt_ClusterSegNumberMax t" using ab quota_policy unfolding r_def AllocationPolicy_def by (simp split: if_splits)
  then show ?thesis using that [of a] le assms run ab by (simp split: if_splits)
qed

lemma decide_ok:
  assumes "decideSegNums t n c = (FUNC_RETURN_OK, c')"
  defines "L \<equiv> rq_VSegUpperLimit (qt_QueueInfo t)" and "Gmin \<equiv> ct_MinSegCountFixed c"
  defines "Gmax \<equiv> (if ct_MaxSegCountFixed c > L \<and> Gmin \<le> L then L else ct_MaxSegCountFixed c)"
  shows "ct_SegMemoryMB c' = ct_SegMemoryMB c" "ct_SegCore c' = ct_SegCore c" "ct_SegNumMin c' \<le> ct_SegNum c'"
    "Gmin \<le> Gmax \<Longrightarrow> ct_SegNum c' \<le> Gmax" "Gmin \<noteq> 1 \<Longrightarrow> Gmin \<le> ct_SegNum c \<Longrightarrow> ct_SegNum c' \<le> ct_SegNum c"
    "Gmin \<noteq> 1 \<Longrightarrow> Gmin \<le> Gmax \<Longrightarrow> Gmin \<le> ct_SegNumMin c'"
proof -
  define R where "R = sint (of_int (ct_VSegLimitPerSeg c) * n)"
  note D = assms(1) [unfolded decideSegNums_def Let_def, folded L_def, folded Gmin_def, folded Gmax_def, folded R_def]
  consider "Gmin = 1" | "Gmin \<noteq> 1" "Gmax = Gmin" | "Gmin \<noteq> 1" "Gmax \<noteq> Gmin" by blast
  then have "ct_SegMemoryMB c' = ct_SegMemoryMB c \<and> ct_SegCore c' = ct_SegCore c \<and> ct_SegNumMin c' \<le> ct_SegNum c' \<and>
    (Gmin \<le> Gmax \<longrightarrow> ct_SegNum c' \<le> Gmax) \<and> (Gmin \<noteq> 1 \<longrightarrow> Gmin \<le> ct_SegNum c \<longrightarrow> ct_SegNum c' \<le> ct_SegNum c) \<and>
    (Gmin \<noteq> 1 \<longrightarrow> Gmin \<le> Gmax \<longrightarrow> Gmin \<le> ct_SegNumMin c')"
  proof cases
    case 1
    then show ?thesis using D by (auto simp: rm_min_def split: if_splits)
  next
    case 2
    then show ?thesis using D by (auto split: if_splits)
  next
    case 3
    then show ?thesis using D by (auto simp: rm_min_def rm_max_def split: if_splits)
  qed
  then show "ct_SegMemoryMB c' = ct_SegMemoryMB c" "ct_SegCore c' = ct_SegCore c" "ct_SegNumMin c' \<le> ct_SegNum c'"
    "Gmin \<le> Gmax \<Longrightarrow> ct_SegNum c' \<le> Gmax" "Gmin \<noteq> 1 \<Longrightarrow> Gmin \<le> ct_SegNum c \<Longrightarrow> ct_SegNum c' \<le> ct_SegNum c"
    "Gmin \<noteq> 1 \<Longrightarrow> Gmin \<le> Gmax \<Longrightarrow> Gmin \<le> ct_SegNumMin c'" by blast+
qed

text \<open>C18: an accepted request for resource.  The query gets the quota of its queue per segment; its minimum is not
  above its maximum; the maximum is at most what the query and its limit of virtual segments allow, and at most
  the upper limit of the queue unless the query fixes more; and it is at most the capacity of the queue unless the
  query is content with one segment.\<close>

theorem accepted_quota_bounds:
  assumes "computeQueryQuota t c = Some (FUNC_RETURN_OK, c1)" "decideSegNums t n c1 = (FUNC_RETURN_OK, c2)"
    and "ct_MinSegCountFixed c \<le> ct_MaxSegCountFixed c"
  shows "ct_SegMemoryMB c2 = rq_SegResourceQuotaMemoryMB (qt_QueueInfo t) \<and> ct_SegCore c2 = rq_SegResourceQuotaVCore (qt_QueueInfo t) \<and>
    ct_SegNumMin c2 \<le> ct_SegNum c2 \<and> ct_SegNum c2 \<le> ct_MaxSegCountFixed c \<and> ct_SegNum c2 \<le> ct_VSegLimit c \<and>
    (ct_MinSegCountFixed c \<le> rq_VSegUpperLimit (qt_QueueInfo t) \<longrightarrow> ct_SegNum c2 \<le> rq_VSegUpperLimit (qt_QueueInfo t)) \<and>
    (ct_MinSegCountFixed c \<noteq> 1 \<longrightarrow> ct_SegNum c2 \<le> qt_ClusterSegNumberMax t \<and> ct_MinSegCountFixed c \<le> ct_SegNumMin c2)"
proof -
  let ?q = "qt_QueueInfo t"
  obtain a b where ab: "a \<le> qt_ClusterSegNumberMax t" "ct_MinSegCountFixed c \<le> ct_VSegLimit c" "ct_MinSegCountFixed c \<le> a"
    "c1 = c\<lparr>ct_SegMemoryMB := rq_SegResourceQuotaMemoryMB ?q, ct_SegCore := rq_SegResourceQuotaVCore ?q,
      ct_MaxSegCountFixed := min (ct_MaxSegCountFixed c) (ct_VSegLimit c), ct_SegNum := a, ct_SegNumMin := ct_MinSegCountFixed c\<rparr>"
    by (rule quota_ok [OF assms(1)])
  then have c1: "ct_SegMemoryMB c1 = rq_SegResourceQuotaMemoryMB ?q" "ct_SegCore c1 = rq_SegResourceQuotaVCore ?q"
    "ct_MinSegCountFixed c1 = ct_MinSegCountFixed c" "ct_MinSegCountFixed c \<le> ct_VSegLimit c"
    "ct_MaxSegCountFixed c1 = min (ct_MaxSegCountFixed c) (ct_VSegLimit c)"
    "ct_SegNumMin c1 = ct_MinSegCountFixed c" "ct_MinSegCountFixed c \<le> ct_SegNum c1" "ct_SegNum c1 \<le> qt_ClusterSegNumberMax t"
    by simp_all
  note D = decide_ok [OF assms(2)]
  let ?L = "rq_VSegUpperLimit ?q"
  let ?G = "if ct_MaxSegCountFixed c1 > ?L \<and> ct_MinSegCountFixed c1 \<le> ?L then ?L else ct_MaxSegCountFixed c1"
  have G: "ct_MinSegCountFixed c1 \<le> ?G" "?G \<le> ct_MaxSegCountFixed c" "?G \<le> ct_VSegLimit c"
    "ct_MinSegCountFixed c \<le> ?L \<Longrightarrow> ?G \<le> ?L" using c1 assms(3) by auto
  show ?thesis
    using D(1,2,3) D(4) [OF G(1)] D(5) D(6) [OF _ G(1)] G(2-4) c1 by auto
qed

theorem accepted_quota_bounds_witness:
  "\<exists>c1 c2. computeQueryQuota ex_track (ex_conn\<lparr>ct_MinSegCountFixed := 2, ct_MaxSegCountFixed := 8, ct_VSegLimit := 10, ct_VSegLimitPerSeg := 6\<rparr>)
       = Some (FUNC_RETURN_OK, c1) \<and>
     decideSegNums ex_track 2 c1 = (FUNC_RETURN_OK, c2) \<and> ct_SegNumMin c2 \<le> ct_SegNum c2 \<and> ct_SegNum c2 \<le> 2"
proof -
  let ?c = "ex_conn\<lparr>ct_MinSegCountFixed := 2, ct_MaxSegCountFixed := 8, ct_VSegLimit := 10, ct_VSegLimitPerSeg := 6\<rparr>"
  let ?c1 = "?c\<lparr>ct_SegMemoryMB := 1024, ct_SegCore := 1 / 2, ct_SegNum := 2, ct_SegNumMin := 2\<rparr>"
  have q: "computeQueryQuota ex_track ?c = Some (FUNC_RETURN_OK, ?c1)"
    by (simp add: computeQueryQuota_def AllocationPolicy_def computeQueryQuota_EVEN_def ex_track_def ex_queue_def ex_conn_def Let_def)
  have d: "decideSegNums ex_track 2 ?c1 = (FUNC_RETURN_OK, ?c1)"
    by (simp add: decideSegNums_def ex_track_def ex_queue_def rm_min_def rm_max_def Let_def)
  have m: "ct_MinSegCountFixed ?c \<le> ct_MaxSegCountFixed ?c" by simp
  show ?thesis
    using accepted_quota_bounds [OF q d m] q d by (intro exI [of _ ?c1]) (simp add: ex_track_def)
qed

theorem round_robin_fair_witness:
  "\<exists>g' L k. distributeSegs [1] 0 5 0 (put_conn ex_state 1 (ex_conn\<lparr>ct_SegNumActual := 1\<rparr>)) = Some g' \<and>
     with_shares (put_conn ex_state 1 (ex_conn\<lparr>ct_SegNumActual := 1\<rparr>)) [1] (fair_share (\<lambda>i. if i = 0 then 2 else 0) L k) g' \<and>
     fair_share (\<lambda>i. if i = 0 then 2 else 0) L k 0 = 2"
proof -
  let ?g = "put_conn ex_state 1 (ex_conn\<lparr>ct_SegNumActual := 1\<rparr>)"
  have w: "wanted ?g [1] = (\<lambda>i. if i = 0 then 2 else 0)" by (auto simp: wanted_def ex_conn_def)
  have a: "[1 :: addr] \<noteq> []" "distinct [1 :: addr]" "(0 :: int) \<le> 5"
    "\<forall>a \<in> set [1]. \<exists>c. conn_at ?g a = Some c \<and> ct_SegNumActual c \<le> ct_SegNum c"
    by (simp_all add: ex_conn_def)
  show ?thesis
    using round_robin_fair [OF a] unfolding w by auto
qed

end
