(* ===== verification/RM_Response.thy ===== *)
theory RM_Response
  imports RM_Queue_Props
begin

text \<open>
  The response message that tells a query what it got, \<^verbatim>\<open>buildAcquireResourceResponseMessage\<close>: its layout, and
  that the offset of every virtual segment leads to the description of its host.
\<close>

section \<open>Parts of the message\<close>

lemma length_le32 [simp]: "length (le32 w) = 4"
  by (simp add: le32_def)

text \<open>An array that is prepared, written and jumped over is appended, padded with zeros.\<close>

lemma write_array:
  assumes inv: "smb_inv b" and fits: "getSMBContentSize b + uint sz \<le> SELFMAINTAINBUFFER_MAX_SIZE" and len: "length xs \<le> unat sz"
  shows "\<exists>b1 bs bs'. prepareSelfMaintainBuffer b sz True = Some b1 \<and> smb_Buffer b1 = Some bs \<and>
    write_bytes bs (smb_Cursor b1 + 1) xs = Some bs' \<and>
    smb_inv (jumpforwardSelfMaintainBuffer (b1\<lparr>smb_Buffer := Some bs'\<rparr>) sz) \<and>
    smb_content (jumpforwardSelfMaintainBuffer (b1\<lparr>smb_Buffer := Some bs'\<rparr>) sz) =
      smb_content b @ xs @ replicate (unat sz - length xs) (Some 0)"
proof -
  let ?g = "smb_grow None b sz" and ?c = "length (smb_content b)"
  note g = smb_grow_spec [OF inv fits, where fresh = None]
  obtain bs0 where bs0: "smb_Buffer ?g = Some bs0" "smb_Cursor b + 1 + uint sz \<le> int (length bs0)" using g(4) by blast
  have c: "smb_Cursor b = int ?c - 1" using length_content [OF inv] by simp
  have u: "uint sz = int (unat sz)" by simp
  have "smb_Cursor ?g + 1 + int (length (replicate (unat sz) (Some 0 :: byte))) \<le> int (length bs0)"
    using bs0(2) g(2) by simp
  then obtain bs where bs: "write_bytes bs0 (smb_Cursor ?g + 1) (replicate (unat sz) (Some 0)) = Some bs" "length bs = length bs0"
    "take (nat (smb_Cursor ?g + 1)) bs = smb_content ?g"
    "take (nat (smb_Cursor ?g + 1 + int (length (replicate (unat sz) (Some 0 :: byte))))) bs = smb_content ?g @ replicate (unat sz) (Some 0)"
    using write_content [OF g(1) bs0(1)] by blast
  define b1 where "b1 = ?g\<lparr>smb_Buffer := Some bs\<rparr>"
  have t: "take ?c bs = smb_content b" "take (?c + unat sz) bs = smb_content b @ replicate (unat sz) (Some 0)"
    using bs(3,4) c unfolding g(2,3) by (simp_all add: nat_add_distrib)
  have t3: "?c + unat sz \<le> length bs" using bs(2) bs0(2) c u by linarith
  define bs' where "bs' = take ?c bs @ xs @ drop (?c + length xs) bs"
  have w: "write_bytes bs (smb_Cursor b + 1) xs = Some bs'"
    using t3 len c by (simp add: write_bytes_def bs'_def)
  have d: "drop (?c + length xs) (take (?c + unat sz) bs) = replicate (unat sz - length xs) (Some 0)"
    unfolding t(2) by simp
  have t': "take (?c + unat sz) bs' = smb_content b @ xs @ replicate (unat sz - length xs) (Some 0)"
    using d t(1) t3 len unfolding bs'_def by (simp add: drop_take)
  have cur: "sint (of_int (smb_Cursor b) + sz) = smb_Cursor b + uint sz"
    using sint_step [OF length_content [OF inv]] fits by (simp add: getSMBContentSize_def)
  have len': "length bs' = length bs" using t3 len by (simp add: bs'_def)
  have J: "jumpforwardSelfMaintainBuffer (b1\<lparr>smb_Buffer := Some bs'\<rparr>) sz = b1\<lparr>smb_Buffer := Some bs', smb_Cursor := smb_Cursor b + uint sz\<rparr>"
    unfolding jumpforwardSelfMaintainBuffer_def by (simp add: b1_def g(2) cur)
  have n: "nat (smb_Cursor b + uint sz + 1) = ?c + unat sz" by (simp add: c nat_add_distrib)
  have "prepareSelfMaintainBuffer b sz True = Some b1"
    using bs0(1) bs(1) by (simp add: prepareSelfMaintainBuffer_def b1_def)
  moreover have "smb_inv (jumpforwardSelfMaintainBuffer (b1\<lparr>smb_Buffer := Some bs'\<rparr>) sz)"
    using g(1) bs0 bs(2) len' c unfolding J by (auto simp: smb_inv_def b1_def)
  moreover have "smb_content (jumpforwardSelfMaintainBuffer (b1\<lparr>smb_Buffer := Some bs'\<rparr>) sz) =
      smb_content b @ xs @ replicate (unat sz - length xs) (Some 0)"
    using t' n unfolding J by (simp add: smb_content_def)
  ultimately show ?thesis
    using w g(2) by (intro exI [of _ b1] exI [of _ bs] exI [of _ bs']) (simp add: b1_def)
qed


text \<open>The hosts, their descriptions, and where these start.\<close>

definition host_info :: "(addr \<rightharpoonup> SegResource) \<Rightarrow> VSegmentCounterInternal \<Rightarrow> uint8 list" where
  "host_info heap v = (case heap (vs_Resource v) of None \<Rightarrow> [] | Some s \<Rightarrow> st_Info (sr_Stat s))"

fun host_starts :: "(addr \<rightharpoonup> SegResource) \<Rightarrow> nat \<Rightarrow> VSegmentCounterInternal list \<Rightarrow> nat list" where
  "host_starts heap k [] = []"
| "host_starts heap k (v # vs) = replicate (unat (vs_VSegmentCount v)) k @ host_starts heap (k + length (host_info heap v)) vs"

abbreviation host_infos :: "(addr \<rightharpoonup> SegResource) \<Rightarrow> VSegmentCounterInternal list \<Rightarrow> uint8 list" where
  "host_infos heap vs \<equiv> concat (map (host_info heap) vs)"

definition vseg_hosts :: "VSegmentCounterInternal list \<Rightarrow> VSegmentCounterInternal list" where
  "vseg_hosts vs = concat (map (\<lambda>v. replicate (unat (vs_VSegmentCount v)) v) vs)"

lemma length_vseg_hosts: "length (vseg_hosts vs) = (\<Sum>v\<leftarrow>vs. unat (vs_VSegmentCount v))"
  by (simp add: vseg_hosts_def length_concat comp_def)

lemma length_host_starts [simp]: "length (host_starts heap k vs) = length (vseg_hosts vs)"
  by (induction vs arbitrary: k) (simp_all add: vseg_hosts_def)

lemma host_starts_lead:
  "j < length (vseg_hosts vs) \<Longrightarrow> k \<le> host_starts heap k vs ! j \<and>
   take (length (host_info heap (vseg_hosts vs ! j))) (drop (host_starts heap k vs ! j - k) (host_infos heap vs)) =
   host_info heap (vseg_hosts vs ! j)"
proof (induction vs arbitrary: k j)
  case (Cons v vs)
  let ?n = "unat (vs_VSegmentCount v)" and ?l = "length (host_info heap v)"
  have hosts: "vseg_hosts (v # vs) = replicate ?n v @ vseg_hosts vs" by (simp add: vseg_hosts_def)
  show ?case
  proof (cases "j < ?n")
    case True
    then show ?thesis unfolding hosts by (simp add: nth_append)
  next
    case False
    then have "j - ?n < length (vseg_hosts vs)" using Cons.prems unfolding hosts by simp
    note IH = Cons.IH [OF this, of "k + ?l"]
    define m where "m = host_starts heap (k + ?l) vs ! (j - ?n)"
    have m: "k + ?l \<le> m" using IH by (simp add: m_def)
    then have "drop (m - k) (host_info heap v @ host_infos heap vs) = drop (m - (k + ?l)) (host_infos heap vs)" by simp
    then show ?thesis
      using False IH m unfolding hosts m_def [symmetric] by (simp add: nth_append m_def [symmetric])
  qed
qed (simp add: vseg_hosts_def)

lemma host_starts_bound: "j < length (vseg_hosts vs) \<Longrightarrow> host_starts heap k vs ! j \<le> k + length (host_infos heap vs)"
proof (induction vs arbitrary: k j)
  case (Cons v vs)
  let ?n = "unat (vs_VSegmentCount v)"
  have hosts: "vseg_hosts (v # vs) = replicate ?n v @ vseg_hosts vs" by (simp add: vseg_hosts_def)
  show ?case
  proof (cases "j < ?n")
    case False
    then have "j - ?n < length (vseg_hosts vs)" using Cons.prems unfolding hosts by simp
    from Cons.IH [OF this, of "k + length (host_info heap v)"] show ?thesis using False by (simp add: nth_append)
  qed (simp add: nth_append)
qed (simp add: vseg_hosts_def)

lemma hostOffsets_spec:
  assumes "smb_inv b" "\<forall>v \<in> set vs. heap (vs_Resource v) \<noteq> None"
    "getSMBContentSize b + int (length (host_infos heap vs)) \<le> SELFMAINTAINBUFFER_MAX_SIZE"
  shows "\<exists>b'. hostOffsets heap base vs b = Some (map (\<lambda>k. base + of_nat k) (host_starts heap (length (smb_content b)) vs), b') \<and>
    smb_inv b' \<and> smb_content b' = smb_content b @ map Some (host_infos heap vs)"
  using assms
proof (induction vs arbitrary: b)
  case (Cons v vs)
  obtain s where s: "heap (vs_Resource v) = Some s" using Cons.prems(2) by auto
  let ?xs = "st_Info (sr_Stat s)"
  have i: "host_info heap v = ?xs" by (simp add: host_info_def s)
  have size: "getSMBContentSize b = int (length (smb_content b))" using length_content [OF Cons.prems(1)] by (simp add: getSMBContentSize_def)
  have "length (smb_content b) + length (map Some ?xs) \<le> nat SELFMAINTAINBUFFER_MAX_SIZE"
    using Cons.prems(3) size i by simp
  from smb.app [OF Cons.prems(1) this] obtain b1 where b1: "append_bytes b (map Some ?xs) = Some b1" "smb_inv b1"
    "smb_content b1 = smb_content b @ map Some ?xs" by blast
  have a: "appendSelfMaintainBuffer b (map Some ?xs) (of_nat (length ?xs)) = Some b1" using b1(1) by (simp add: append_bytes_def)
  have "getSMBContentSize b1 = int (length (smb_content b1))" using length_content [OF b1(2)] by (simp add: getSMBContentSize_def)
  then have "getSMBContentSize b1 + int (length (host_infos heap vs)) \<le> SELFMAINTAINBUFFER_MAX_SIZE"
    using Cons.prems(3) size i b1(3) by simp
  from Cons.IH [OF b1(2) _ this] Cons.prems(2) obtain b' where
    b': "hostOffsets heap base vs b1 = Some (map (\<lambda>k. base + of_nat k) (host_starts heap (length (smb_content b1)) vs), b')"
      "smb_inv b'" "smb_content b' = smb_content b1 @ map Some (host_infos heap vs)"
    by auto
  show ?case
    using b'(2,3) b1(3) by (intro exI [of _ b']) (simp add: s i size a b'(1) Let_def del: of_nat_add)
qed simp


section \<open>The whole message\<close>

definition response_ok :: "RMConfig \<Rightarrow> (addr \<rightharpoonup> SegResource) \<Rightarrow> ConnectionTrack \<Rightarrow> bool" where
  "response_ok cf heap c \<longleftrightarrow> smb_inv (ct_MessageBuff c) \<and> length (cf_double_bytes cf (ct_SegCore c)) = 8 \<and>
     (\<forall>v \<in> set (ct_Resource c). heap (vs_Resource v) \<noteq> None) \<and>
     ct_SegNumActual c = int (length (vseg_hosts (ct_Resource c))) \<and>
     46 + 8 * int (length (vseg_hosts (ct_Resource c))) + int (length (host_infos heap (ct_Resource c))) \<le> SELFMAINTAINBUFFER_MAX_SIZE"

definition response_pad :: "nat \<Rightarrow> byte list" where
  "response_pad n = replicate (if odd n then 4 else 0) (Some 0)"

definition response_offsets :: "(addr \<rightharpoonup> SegResource) \<Rightarrow> VSegmentCounterInternal list \<Rightarrow> uint32 list" where
  "response_offsets heap vs =
     map (\<lambda>k. of_nat (32 + 2 * (4 * length (vseg_hosts vs) + length (response_pad (length (vseg_hosts vs)))) + k)) (host_starts heap 0 vs)"

definition response_bytes :: "RMConfig \<Rightarrow> (addr \<rightharpoonup> SegResource) \<Rightarrow> ConnectionTrack \<Rightarrow> byte list" where
  "response_bytes cf heap c =
     (let hosts = vseg_hosts (ct_Resource c); pad = response_pad (length hosts) in
      responseHead cf c @ concat (map (\<lambda>v. le32 (vs_HDFSNameIndex v)) hosts) @ pad @
      concat (map le32 (response_offsets heap (ct_Resource c))) @ pad @ map Some (host_infos heap (ct_Resource c)))"

lemma concat_indices:
  "concat (map (\<lambda>v. concat (replicate (unat (vs_VSegmentCount v)) (le32 (vs_HDFSNameIndex v)))) vs) =
   concat (map (\<lambda>v. le32 (vs_HDFSNameIndex v)) (vseg_hosts vs))"
  by (induction vs) (simp_all add: vseg_hosts_def)

lemma length_concat_le32 [simp]: "length (concat (map (\<lambda>x. le32 (f x)) xs)) = 4 * length xs"
  by (induction xs) simp_all

lemma align_array: "SIZE_ALIGN64 (4 * int n) = int (4 * n + length (response_pad n))"
proof -
  have "SIZE_ALIGN64 (4 * int n) = (4 * int n + 7) div 8 * 8" by (simp add: SIZE_ALIGN64_def push_bit_eq_mult drop_bit_eq_div)
  then show ?thesis by (cases "even n") (auto simp: response_pad_def elim!: evenE oddE)
qed

lemma length_responseHead: "length (cf_double_bytes cf (ct_SegCore c)) = 8 \<Longrightarrow> length (responseHead cf c) = 32"
  by (simp add: responseHead_def)

lemma build_response:
  assumes c: "conn_at g a = Some c" and ok: "response_ok cf (rp_heap (rm_pool g)) c"
  shows "\<exists>b. buildAcquireResourceResponseMessage cf g a = Some (let g' = put_conn g a (c\<lparr>ct_MessageBuff := b,
      ct_MessageSize := of_int (smb_Cursor b + 1), ct_MessageID := RESPONSE_QD_ACQUIRE_RESOURCE, ct_ResAllocTime := cf_now cf\<rparr>)
      in g'\<lparr>rm_conns := (rm_conns g')\<lparr>ConnToSend := ConnToSend (rm_conns g') @ [a]\<rparr>\<rparr>) \<and>
    smb_inv b \<and> smb_content b = response_bytes cf (rp_heap (rm_pool g)) c"
proof -
  define heap vs n pad where "heap = rp_heap (rm_pool g)" and "vs = ct_Resource c" and "n = length (vseg_hosts vs)" and "pad = response_pad n"
  define sz where "sz = (of_int (SIZE_ALIGN64 (4 * ct_SegNumActual c)) :: uint32)"
  have ok': "smb_inv (ct_MessageBuff c)" "length (cf_double_bytes cf (ct_SegCore c)) = 8" "\<forall>v \<in> set vs. heap (vs_Resource v) \<noteq> None"
    "ct_SegNumActual c = int n" "46 + 8 * int n + int (length (host_infos heap vs)) \<le> SELFMAINTAINBUFFER_MAX_SIZE"
    using ok by (simp_all add: response_ok_def heap_def vs_def n_def)
  have pad: "length pad \<le> 4" by (simp add: pad_def response_pad_def)
  have max: "SELFMAINTAINBUFFER_MAX_SIZE < 2 ^ 31" by (simp add: SELFMAINTAINBUFFER_MAX_SIZE_def)
  have e: "sz = of_nat (4 * n + length pad)"
    unfolding sz_def ok'(4) align_array pad_def by (rule of_int_of_nat_eq)
  have sz: "unat sz = 4 * n + length pad" "uint sz = int (4 * n + length pad)"
  proof -
    have "4 * n + length pad \<le> nat SELFMAINTAINBUFFER_MAX_SIZE" using ok'(5) pad by linarith
    then show "unat sz = 4 * n + length pad" "uint sz = int (4 * n + length pad)" unfolding e using of_nat32 by blast+
  qed
  let ?head = "responseHead cf c" and ?idx = "concat (map (\<lambda>v. le32 (vs_HDFSNameIndex v)) (vseg_hosts vs))"
  have size: "getSMBContentSize x = int (length (smb_content x))" if "smb_inv x" for x
    using length_content [OF that] by (simp add: getSMBContentSize_def)
  note b0 = smb_reset [OF ok'(1)]
  have hl: "length ?head = 32" by (rule length_responseHead [OF ok'(2)])
  have "length (smb_content (resetSelfMaintainBuffer (ct_MessageBuff c))) + length ?head \<le> nat SELFMAINTAINBUFFER_MAX_SIZE"
    using b0 hl ok'(5) by simp
  from smb.app [OF conjunct1 [OF b0] this] b0 obtain b1 where
    b1: "appendSelfMaintainBuffer (resetSelfMaintainBuffer (ct_MessageBuff c)) ?head (of_nat (length ?head)) = Some b1"
      "smb_inv b1" "smb_content b1 = ?head" by (auto simp: append_bytes_def)
  have "getSMBContentSize b1 + uint sz \<le> SELFMAINTAINBUFFER_MAX_SIZE" "length ?idx \<le> unat sz"
    using size [OF b1(2)] b1(3) hl sz pad ok'(5) by (simp_all add: n_def)
  from write_array [OF b1(2) this] obtain b2 bs bs' b3 where b3: "prepareSelfMaintainBuffer b1 sz True = Some b2"
      "smb_Buffer b2 = Some bs" "write_bytes bs (smb_Cursor b2 + 1) ?idx = Some bs'"
      "b3 = jumpforwardSelfMaintainBuffer (b2\<lparr>smb_Buffer := Some bs'\<rparr>) sz" "smb_inv b3" "smb_content b3 = ?head @ ?idx @ pad"
    unfolding b1(3) by (auto simp: sz n_def pad_def response_pad_def)
  let ?base = "of_int (getSMBContentSize b3) + sz"
  obtain mid where mid: "hostOffsets heap ?base vs (initializeSelfMaintainBuffer 0) = Some (map (\<lambda>k. ?base + of_nat k) (host_starts heap 0 vs), mid)"
      "smb_inv mid" "smb_content mid = map Some (host_infos heap vs)"
    using hostOffsets_spec [OF smb_inv_initial(1) ok'(3), of 0 ?base] ok'(5) by (auto simp: smb_inv_initial)
  have offs: "map (\<lambda>k. ?base + of_nat k) (host_starts heap 0 vs) = response_offsets heap vs"
  proof -
    have "getSMBContentSize b3 = int (32 + (4 * n + length pad))" using size [OF b3(5)] b3(6) hl by (simp add: n_def)
    then have base: "?base = of_nat (32 + 2 * (4 * n + length pad))"
      unfolding e by simp
    show ?thesis unfolding base response_offsets_def n_def [symmetric] pad_def [symmetric] by (simp only: of_nat_add)
  qed
  have lo: "length (concat (map le32 (response_offsets heap vs))) = 4 * n"
    using length_concat_le32 [of "\<lambda>x. x" "response_offsets heap vs"] by (simp add: response_offsets_def n_def)
  have arr: "write_bytes (replicate (unat sz) (Some 0)) 0 (concat (map le32 (response_offsets heap vs))) =
      Some (concat (map le32 (response_offsets heap vs)) @ pad)"
    using lo by (simp add: write_bytes_def sz pad_def response_pad_def)
  have "getSMBContentSize b3 + uint sz \<le> SELFMAINTAINBUFFER_MAX_SIZE"
    using size [OF b3(5)] b3(6) hl sz pad ok'(5) by (simp add: n_def)
  from smb_append [OF b3(5) _ this, of "concat (map le32 (response_offsets heap vs)) @ pad"] lo sz b3(6) obtain b4 where
    b4: "appendSelfMaintainBuffer b3 (concat (map le32 (response_offsets heap vs)) @ pad) sz = Some b4" "smb_inv b4"
      "smb_content b4 = ?head @ ?idx @ pad @ concat (map le32 (response_offsets heap vs)) @ pad"
    by auto
  let ?m = "host_infos heap vs"
  have cm: "smb_Cursor mid + 1 = int (length ?m)" using length_content [OF mid(2)] mid(3) by simp
  have um: "unat (of_int (smb_Cursor mid + 1) :: uint32) = length ?m" "uint (of_int (smb_Cursor mid + 1) :: uint32) = int (length ?m)"
    unfolding cm of_int_of_nat_eq using of_nat32 [of "length ?m"] ok'(5) by auto
  have "getSMBContentSize b4 + uint (of_int (smb_Cursor mid + 1) :: uint32) \<le> SELFMAINTAINBUFFER_MAX_SIZE"
    unfolding um(2) using size [OF b4(2)] b4(3) hl pad ok'(5) lo by (simp add: n_def)
  moreover have tm: "take (length ?m) (case smb_Buffer mid of None \<Rightarrow> [] | Some bs \<Rightarrow> bs) = smb_content mid"
    unfolding smb_content_def cm by simp
  then have "length ?m \<le> length (case smb_Buffer mid of None \<Rightarrow> [] | Some bs \<Rightarrow> bs)"
    using mid(3) by (metis length_map length_take min.cobounded1)
  ultimately obtain b5 where
    b5: "appendSelfMaintainBuffer b4 (case smb_Buffer mid of None \<Rightarrow> [] | Some bs \<Rightarrow> bs) (of_int (smb_Cursor mid + 1)) = Some b5" "smb_inv b5"
      "smb_content b5 = smb_content b4 @ smb_content mid"
    using smb_append [OF b4(2), of "of_int (smb_Cursor mid + 1)" "case smb_Buffer mid of None \<Rightarrow> [] | Some bs \<Rightarrow> bs"] unfolding um tm by blast
  have "smb_content b5 = response_bytes cf heap c"
    unfolding b5(3) b4(3) mid(3) response_bytes_def by (simp add: Let_def vs_def n_def pad_def)
  moreover have "buildAcquireResourceResponseMessage cf g a = Some (let g' = put_conn g a (c\<lparr>ct_MessageBuff := b5,
      ct_MessageSize := of_int (smb_Cursor b5 + 1), ct_MessageID := RESPONSE_QD_ACQUIRE_RESOURCE, ct_ResAllocTime := cf_now cf\<rparr>)
      in g'\<lparr>rm_conns := (rm_conns g')\<lparr>ConnToSend := ConnToSend (rm_conns g') @ [a]\<rparr>\<rparr>)"
    unfolding buildAcquireResourceResponseMessage_def Let_def c bind.bind_lunit b1(1) sz_def [symmetric] b3(1,2) concat_indices
      heap_def [symmetric] vs_def [symmetric] b3(3) b3(4) [symmetric] mid(1) prod.case offs arr b4(1) b5(1) by simp
  ultimately show ?thesis using b5(2) by (intro exI [of _ b5]) (simp add: heap_def)
qed


lemma offsets_lead:
  assumes ok: "response_ok cf heap c" and j: "j < length (vseg_hosts (ct_Resource c))"
  defines "i \<equiv> host_info heap (vseg_hosts (ct_Resource c) ! j)"
  shows "take (length i) (drop (unat (response_offsets heap (ct_Resource c) ! j)) (response_bytes cf heap c)) = map Some i"
proof -
  define vs n pad where "vs = ct_Resource c" and "n = length (vseg_hosts vs)" and "pad = response_pad n"
  define m where "m = 32 + 2 * (4 * n + length pad)"
  define k where "k = host_starts heap 0 vs ! j"
  have lead: "take (length i) (drop k (host_infos heap vs)) = i"
    using host_starts_lead [of j vs 0 heap] j by (simp add: k_def i_def vs_def)
  have kle: "k \<le> length (host_infos heap vs)" using host_starts_bound [of j vs heap 0] j by (simp add: k_def vs_def)
  have pad: "length pad \<le> 4" by (simp add: pad_def response_pad_def)
  have "int (m + k) \<le> SELFMAINTAINBUFFER_MAX_SIZE"
    using ok kle pad unfolding m_def by (simp add: response_ok_def vs_def n_def)
  then have "m + k \<le> nat SELFMAINTAINBUFFER_MAX_SIZE" by linarith
  then have u: "unat (response_offsets heap vs ! j) = m + k"
    using of_nat32 [of "m + k"] j unfolding response_offsets_def n_def [symmetric] pad_def [symmetric] m_def [symmetric]
    by (simp add: k_def vs_def)
  let ?front = "responseHead cf c @ concat (map (\<lambda>v. le32 (vs_HDFSNameIndex v)) (vseg_hosts vs)) @ pad @ concat (map le32 (response_offsets heap vs)) @ pad"
  have lo: "length (concat (map le32 (response_offsets heap vs))) = 4 * n"
    using length_concat_le32 [of "\<lambda>x. x" "response_offsets heap vs"] by (simp add: response_offsets_def n_def)
  have "response_bytes cf heap c = ?front @ map Some (host_infos heap vs)"
    by (simp add: response_bytes_def Let_def vs_def n_def pad_def)
  moreover have "length ?front = m"
    using length_responseHead [of cf c] ok lo by (simp add: response_ok_def m_def n_def)
  ultimately have "drop (m + k) (response_bytes cf heap c) = map Some (drop k (host_infos heap vs))"
    by (simp only: drop_append) (simp add: drop_map)
  then show ?thesis
    using lead unfolding vs_def [symmetric] u by (simp add: take_map)
qed

text \<open>C4: the response to a query is built without leaving a buffer, and it tells the query where its virtual segments
  are.  It consists of the head, the index of the preferred host of each virtual segment, the offset of the
  description of its host, and the descriptions.  At the offset of every virtual segment the message has
  exactly the description of the segment that the virtual segment was put on.  The size that is sent is that of
  the message, and the connection is the last one to be sent to.\<close>

theorem response_describes_hosts:
  assumes "conn_at g a = Some c" "response_ok cf (rp_heap (rm_pool g)) c"
  shows "\<exists>g' c'. buildAcquireResourceResponseMessage cf g a = Some g' \<and> conn_at g' a = Some c' \<and>
    smb_content (ct_MessageBuff c') = response_bytes cf (rp_heap (rm_pool g)) c \<and>
    unat (ct_MessageSize c') = length (response_bytes cf (rp_heap (rm_pool g)) c) \<and>
    ConnToSend (rm_conns g') = ConnToSend (rm_conns g) @ [a] \<and>
    (\<forall>j < length (vseg_hosts (ct_Resource c)).
       take (length (host_info (rp_heap (rm_pool g)) (vseg_hosts (ct_Resource c) ! j)))
         (drop (unat (response_offsets (rp_heap (rm_pool g)) (ct_Resource c) ! j)) (smb_content (ct_MessageBuff c'))) =
       map Some (host_info (rp_heap (rm_pool g)) (vseg_hosts (ct_Resource c) ! j)))"
proof -
  obtain b where b: "buildAcquireResourceResponseMessage cf g a = Some (let g' = put_conn g a (c\<lparr>ct_MessageBuff := b,
      ct_MessageSize := of_int (smb_Cursor b + 1), ct_MessageID := RESPONSE_QD_ACQUIRE_RESOURCE, ct_ResAllocTime := cf_now cf\<rparr>)
      in g'\<lparr>rm_conns := (rm_conns g')\<lparr>ConnToSend := ConnToSend (rm_conns g') @ [a]\<rparr>\<rparr>)"
    "smb_inv b" "smb_content b = response_bytes cf (rp_heap (rm_pool g)) c"
    using build_response [OF assms] by blast
  have l: "smb_Cursor b + 1 = int (length (response_bytes cf (rp_heap (rm_pool g)) c))"
    using length_content [OF b(2)] b(3) by simp
  have "length (response_bytes cf (rp_heap (rm_pool g)) c) \<le> nat SELFMAINTAINBUFFER_MAX_SIZE"
    using b(2) l by (auto simp: smb_inv_def split: option.splits)
  then have "unat (of_int (smb_Cursor b + 1) :: uint32) = length (response_bytes cf (rp_heap (rm_pool g)) c)"
    unfolding l of_int_of_nat_eq using of_nat32 by blast
  then show ?thesis
    using b(1,3) offsets_lead [OF assms(2)] by (simp add: Let_def put_conn_def put_track_def del: of_int_add)
qed


definition ex_config :: RMConfig where
  "ex_config = \<lparr>cf_resolve = (\<lambda>_. None), cf_slice_num_per_seg_limit = 100, cf_force_fifo_queue = False, cf_allocation_policy = 0,
     cf_ImpType = NONE_HAWQ2, cf_double_bytes = (\<lambda>_. replicate 8 0), cf_now = 5\<rparr>"

definition ex_host :: "int \<Rightarrow> uint8 list \<Rightarrow> SegResource" where
  "ex_host i info = (ex_seg i None)\<lparr>sr_Stat := (sr_Stat (ex_seg i None))\<lparr>st_Info := info\<rparr>\<rparr>"

definition ex_response_conn :: ConnectionTrack where
  "ex_response_conn = ex_conn\<lparr>ct_SegNumActual := 3,
     ct_Resource := [\<lparr>vs_HDFSNameIndex = 0, vs_VSegmentCount = 2, vs_SegId = 1, vs_Resource = 1\<rparr>,
                     \<lparr>vs_HDFSNameIndex = 1, vs_VSegmentCount = 1, vs_SegId = 2, vs_Resource = 2\<rparr>]\<rparr>"

definition ex_response_state :: RMState where
  "ex_response_state = put_conn (ex_state\<lparr>rm_pool := (rm_pool ex_state)\<lparr>rp_heap := [1 \<mapsto> ex_host 1 [7, 8], 2 \<mapsto> ex_host 2 [9]]\<rparr>\<rparr>) 1 ex_response_conn"

theorem response_describes_hosts_witness:
  "\<exists>g' c'. buildAcquireResourceResponseMessage ex_config ex_response_state 1 = Some g' \<and> conn_at g' 1 = Some c' \<and>
     take 1 (drop 66 (smb_content (ct_MessageBuff c'))) = [Some 9]"
proof -
  let ?h = "rp_heap (rm_pool ex_response_state)" and ?vs = "ct_Resource ex_response_conn"
  have heap: "?h = [1 \<mapsto> ex_host 1 [7, 8], 2 \<mapsto> ex_host 2 [9]]" by (simp add: ex_response_state_def put_conn_def)
  have two: "replicate 2 x = [x, x]" for x :: 'a by (simp add: numeral_2_eq_2)
  have hosts: "length (vseg_hosts ?vs) = 3" "host_info ?h (vseg_hosts ?vs ! 2) = [9]" "host_starts ?h 0 ?vs ! 2 = 2"
    "length (host_infos ?h ?vs) = 3"
    unfolding heap
    by (simp_all add: ex_response_conn_def vseg_hosts_def host_info_def ex_host_def two)
  have off: "unat (response_offsets ?h ?vs ! 2) = 66"
    by (simp add: response_offsets_def hosts response_pad_def)
  have c: "conn_at ex_response_state 1 = Some ex_response_conn" by (simp add: ex_response_state_def)
  have "response_ok ex_config ?h ex_response_conn"
    unfolding response_ok_def hosts
    by (simp add: heap ex_response_conn_def ex_conn_def createEmptyConnectionTrack_def ex_config_def smb_inv_initial SELFMAINTAINBUFFER_MAX_SIZE_def)
  from response_describes_hosts [OF c this] obtain g' c' where
    "buildAcquireResourceResponseMessage ex_config ex_response_state 1 = Some g'" "conn_at g' 1 = Some c'"
    "\<forall>j<3. take (length (host_info ?h (vseg_hosts ?vs ! j))) (drop (unat (response_offsets ?h ?vs ! j)) (smb_content (ct_MessageBuff c'))) =
      map Some (host_info ?h (vseg_hosts ?vs ! j))"
    unfolding hosts(1) by blast
  then show ?thesis using off hosts(2) by (auto dest: spec [of _ 2])
qed

end
