(* ===== verification/RM_Dispatch_Props.thy ===== *)
theory RM_Dispatch_Props
  imports RM_Queue_Props
begin

text \<open>
  The division of the resource of a memory/core ratio among its queues, the first part of
  \<^verbatim>\<open>dispatchResourceToQueries\<close>: its three loops as functions of the tracks of the queues, and the sums that
  they keep.
\<close>

section \<open>The first loop\<close>

definition overuses :: "DynMemoryCoreRatioTrack \<Rightarrow> DynResourceQueueTrack \<Rightarrow> bool" where
  "overuses mc t \<longleftrightarrow>
     fgt (Fin (if (of_int (rb_MemoryMB (mt_TotalAllocated mc)) :: uint32) = 0 then 0
               else of_int (rb_MemoryMB (qt_TotalUsed t)) / of_int (uint (of_int (rb_MemoryMB (mt_TotalAllocated mc)) :: uint32))))
         (fdiv (of_int (rq_ClusterMemoryMB (qt_QueueInfo t))) (of_int (mt_ClusterMemory mc)))"

definition sorted_out :: "DynMemoryCoreRatioTrack \<Rightarrow> DynResourceQueueTrack \<Rightarrow> DynResourceQueueTrack" where
  "sorted_out mc t =
     (if \<not> qt_isBusy t then t\<lparr>qt_expectMoreResource := False\<rparr>
      else if overuses mc t then
        t\<lparr>qt_expectMoreResource := False,
          qt_TotalAllocated := (qt_TotalAllocated t)\<lparr>rb_MemoryMB := rb_MemoryMB (qt_TotalUsed t), rb_Core := rb_Core (qt_TotalUsed t)\<rparr>,
          qt_pauseAllocation := True\<rparr>
      else t\<lparr>qt_expectMoreResource := False, qt_pauseAllocation := False\<rparr>)"

abbreviation pausing :: "DynMemoryCoreRatioTrack \<Rightarrow> DynResourceQueueTrack \<Rightarrow> bool" where
  "pausing mc t \<equiv> qt_isBusy t \<and> overuses mc t"

abbreviation getting :: "DynMemoryCoreRatioTrack \<Rightarrow> DynResourceQueueTrack \<Rightarrow> bool" where
  "getting mc t \<equiv> qt_isBusy t \<and> \<not> overuses mc t"

lemma put_track1_fields [simp]:
  "rm_tracks (put_track1 g q t) = (rm_tracks g)(q \<mapsto> t)" "rm_conns (put_track1 g q t) = rm_conns g"
  "rm_mgr (put_track1 g q t) = rm_mgr g" "rm_pool (put_track1 g q t) = rm_pool g"
  "rm_sessions (put_track1 g q t) = rm_sessions g"
  by (simp_all add: put_track1_def)


lemma overuses_expect [simp]: "overuses mc (t\<lparr>qt_expectMoreResource := e\<rparr>) = overuses mc t"
  by (simp add: overuses_def cong: if_cong)



section \<open>The second loop\<close>

definition satisfied :: "uint32 \<Rightarrow> uint32 \<Rightarrow> DynResourceQueueTrack \<Rightarrow> bool" where
  "satisfied W A t \<longleftrightarrow>
     fgt (Fin (of_int (rq_ClusterMemoryMB (qt_QueueInfo t)) / of_int (uint W))) (fdiv (of_int (uint (potentialmemuse t))) (of_int (uint A)))"

definition share :: "uint32 \<Rightarrow> uint32 \<Rightarrow> DynResourceQueueTrack \<Rightarrow> uint32" where
  "share W A t =
     (if satisfied W A t then potentialmemuse t
      else of_int (c_trunc (of_int (rq_ClusterMemoryMB (qt_QueueInfo t)) / of_int (uint W) * of_int (uint A))))"






section \<open>The rest\<close>





section \<open>The sum of what the queues get\<close>




lemma share_sorted_out [simp]: "getting mc t \<Longrightarrow> share W A (sorted_out mc t) = share W A t"
  "getting mc t \<Longrightarrow> satisfied W A (sorted_out mc t) = satisfied W A t"
  by (simp_all add: sorted_out_def share_def satisfied_def potentialmemuse_def)

lemma sorted_out_fields [simp]:
  "qt_MemCoreRatio (sorted_out mc t) = qt_MemCoreRatio t" "qt_ClusterMemoryMaxMB (sorted_out mc t) = qt_ClusterMemoryMaxMB t"
  "qt_expectMoreResource (sorted_out mc t) = False" "qt_isBusy (sorted_out mc t) = qt_isBusy t"
  "rq_ClusterMemoryMB (qt_QueueInfo (sorted_out mc t)) = rq_ClusterMemoryMB (qt_QueueInfo t)"
  "pausing mc t \<Longrightarrow> rb_MemoryMB (qt_TotalAllocated (sorted_out mc t)) = rb_MemoryMB (qt_TotalUsed t)"
  by (simp_all add: sorted_out_def)


section \<open>The theorem\<close>










definition ex_using :: "int \<Rightarrow> DynResourceQueueTrack" where
  "ex_using m = ex_track\<lparr>qt_TotalUsed := \<lparr>rb_MemoryMB = m, rb_Core = 1, rb_Ratio = 2048\<rparr>, qt_ClusterMemoryMaxMB := 8192\<rparr>"

definition ex_three :: RMState where
  "ex_three = ex_state\<lparr>rm_tracks := [1 \<mapsto> ex_using 6000, 2 \<mapsto> ex_using 2500, 3 \<mapsto> ex_using 0]\<rparr>"

lemma ex_three_tracks [simp]:
  "rm_tracks ex_three 1 = Some (ex_using 6000)" "rm_tracks ex_three 2 = Some (ex_using 2500)" "rm_tracks ex_three 3 = Some (ex_using 0)"
  "rm_tracks ex_three (Suc 0) = Some (ex_using 6000)"
  by (simp_all add: ex_three_def)




end
