(* ===== verification/RM_Pool_Hosts.thy ===== *)
theory RM_Pool_Hosts
  imports RM_Pool_Main
begin

text \<open>
  Allocations cache the segments that host names lead to.  This theory shows that the cache is transparent: after
  an allocation every name leads to the segment it led to before, so that queries served one after the other see
  the same hosts.
\<close>

abbreviation cache_inv :: "ResourcePool \<Rightarrow> bool" where
  "cache_inv p \<equiv> ht_inv HASHTABLE_Hash_SIMPSTR HASHTABLE_Comp_SIMPSTR simpstr_ok (HDFSHostNameIndexed p)"

definition leads_to :: "resolver \<Rightarrow> ResourcePool \<Rightarrow> uint8 list \<Rightarrow> drm_code \<times> int" where
  "leads_to resolve p n = (let (res, i, tbl) = getSegIDByHostNameInternal resolve p (HDFSHostNameIndexed p) n in (res, i))"

definition same_hosts :: "resolver \<Rightarrow> ResourcePool \<Rightarrow> ResourcePool \<Rightarrow> bool" where
  "same_hosts resolve p p' \<longleftrightarrow> cache_inv p' \<and> SegmentHostNameIndexed p' = SegmentHostNameIndexed p \<and>
     SegmentHostAddrIndexed p' = SegmentHostAddrIndexed p \<and> AvailNodeCount p' = AvailNodeCount p \<and>
     (\<forall>n. 0 \<notin> set n \<longrightarrow> leads_to resolve p' n = leads_to resolve p n)"

lemma same_hosts_refl: "cache_inv p \<Longrightarrow> same_hosts resolve p p"
  by (simp add: same_hosts_def)

lemma same_hosts_trans: "same_hosts resolve p p' \<Longrightarrow> same_hosts resolve p' p'' \<Longrightarrow> same_hosts resolve p p''"
  by (simp add: same_hosts_def)

lemma same_hosts_tables:
  assumes "HDFSHostNameIndexed p' = HDFSHostNameIndexed p" "SegmentHostNameIndexed p' = SegmentHostNameIndexed p"
    "SegmentHostAddrIndexed p' = SegmentHostAddrIndexed p" "AvailNodeCount p' = AvailNodeCount p" "cache_inv p"
  shows "same_hosts resolve p p'"
  using assms lookup_cong [OF assms(2,3)] by (simp add: same_hosts_def leads_to_def)

lemma name_key_ok: "simpstr_ok (name_key n) \<longleftrightarrow> 0 \<notin> set n"
  by (simp add: simpstr_ok_def name_key_def)

definition found_by :: "ResourcePool \<Rightarrow> uint8 list \<Rightarrow> uint8 list list \<Rightarrow> drm_code \<times> int" where
  "found_by p ohostname gottenaddr =
     (case getSegIDByHostName p ohostname of (FUNC_RETURN_OK, segid) \<Rightarrow> (FUNC_RETURN_OK, segid) | _ \<Rightarrow> tryAddresses p gottenaddr)"

lemma found_by_hdfs [simp]: "found_by (p\<lparr>HDFSHostNameIndexed := tbl\<rparr>) = found_by p"
proof -
  have "getSegIDByHostName (p\<lparr>HDFSHostNameIndexed := tbl\<rparr>) = getSegIDByHostName p" by (rule ext) (simp add: getSegIDByHostName_def)
  then show ?thesis
    unfolding fun_eq_iff found_by_def tryAddresses_cong [of "p\<lparr>HDFSHostNameIndexed := tbl\<rparr>" p, simplified] by simp
qed

lemma leads_to_get:
  "leads_to resolve p n =
     (case ht_get (HDFSHostNameIndexed p) (name_key n) of
        Some v \<Rightarrow> (FUNC_RETURN_OK, id_of_pair ((), v))
      | None \<Rightarrow> (case resolve n of None \<Rightarrow> (FUNC_RETURN_FAIL, SEGSTAT_ID_INVALID) | Some (oh, ga) \<Rightarrow> found_by p oh ga))"
  unfolding leads_to_def getSegIDByHostNameInternal_def ht_get_def found_by_def [symmetric]
  by (auto simp: Let_def id_of_pair_def split: option.splits prod.splits)

lemma lookup_same_hosts:
  assumes inv: "cache_inv p" and n: "0 \<notin> set n" and get: "getSegIDByHDFSHostName resolve p n = (res, i, p')"
  shows "same_hosts resolve p p'" "leads_to resolve p n = (res, i)"
proof -
  obtain tbl where tbl: "getSegIDByHostNameInternal resolve p (HDFSHostNameIndexed p) n = (res, i, tbl)"
    "p' = p\<lparr>HDFSHostNameIndexed := tbl\<rparr>"
    using get by (auto simp: getSegIDByHDFSHostName_def Let_def split: prod.splits)
  then show l: "leads_to resolve p n = (res, i)" by (simp add: leads_to_def)
  show "same_hosts resolve p p'"
  proof (cases "tbl = HDFSHostNameIndexed p")
    case True
    then show ?thesis using tbl(2) inv by (simp add: same_hosts_tables)
  next
    case False
    then have none: "getHASHTABLENode (HDFSHostNameIndexed p) (name_key n) = None" and t: "tbl = ht_set (HDFSHostNameIndexed p) (name_key n) (Some i)"
      and ok: "res = FUNC_RETURN_OK"
      using tbl(1) by (auto simp: getSegIDByHostNameInternal_def split: option.splits prod.splits if_splits)
    note laws = key_simpstr.ht_keyed [OF inv]
    have inv': "cache_inv p'" using laws(1) [of "name_key n" "name_key n"] n by (simp add: tbl(2) t name_key_ok)
    have "leads_to resolve p' k = leads_to resolve p k" if k: "0 \<notin> set k" for k
    proof (cases "k = n")
      case True
      have "ht_get tbl (name_key n) = Some (Some i)"
        using laws(3) [of "name_key n" "name_key n" "Some i"] n unfolding t by (simp add: name_key_ok comp_simpstr_eq_0)
      then show ?thesis using l ok True by (simp add: leads_to_get tbl(2) id_of_pair_def)
    next
      case False
      then have "ht_get tbl (name_key k) = ht_get (HDFSHostNameIndexed p) (name_key k)"
        using laws(3) [of "name_key n" "name_key k" "Some i"] n k unfolding t
        by (simp add: name_key_ok comp_simpstr_eq_0) (simp add: name_key_def)
      then show ?thesis unfolding leads_to_get tbl(2) found_by_hdfs by simp
    qed
    then show ?thesis using inv' by (simp add: same_hosts_def tbl(2))
  qed
qed


lemma resolve_ids_same:
  "same_hosts resolve p p' \<Longrightarrow> cache_inv p \<Longrightarrow> \<forall>n \<in> set ns. 0 \<notin> set n \<Longrightarrow> resolve_ids resolve p' ns = resolve_ids resolve p ns"
proof (induction ns arbitrary: p p')
  case (Cons n ns)
  obtain res i p1 where g: "getSegIDByHDFSHostName resolve p n = (res, i, p1)" by (metis prod_cases3)
  obtain res' i' p1' where g': "getSegIDByHDFSHostName resolve p' n = (res', i', p1')" by (metis prod_cases3)
  have inv': "cache_inv p'" and n: "0 \<notin> set n" using Cons.prems by (simp_all add: same_hosts_def)
  note L = lookup_same_hosts [OF Cons.prems(2) n g] and L' = lookup_same_hosts [OF inv' n g']
  have "res' = res \<and> i' = i" using L(2) L'(2) Cons.prems(1) n by (simp add: same_hosts_def)
  moreover have "same_hosts resolve p1 p1'"
    using L(1) L'(1) Cons.prems(1) by (simp add: same_hosts_def)
  moreover have "cache_inv p1" using L(1) by (simp add: same_hosts_def)
  ultimately show ?case using Cons.IH [of p1 p1'] Cons.prems(3) g g' by simp
qed simp

lemma hosts_apart_same:
  assumes "same_hosts resolve p p'" "cache_inv p" "\<forall>n \<in> set (aa_preferredhostname q). 0 \<notin> set n"
  shows "hosts_apart resolve p' q = hosts_apart resolve p q"
  using resolve_ids_same [OF assms] assms(1) by (simp add: hosts_apart_def same_hosts_def)

section \<open>The steps of an allocation\<close>

lemma find_same_hosts:
  "cache_inv p \<Longrightarrow> \<forall>n \<in> set ns. 0 \<notin> set n \<Longrightarrow> findHDFSNameIndex resolve p w k ns = (k', p') \<Longrightarrow> same_hosts resolve p p'"
proof (induction ns arbitrary: p k)
  case (Cons n ns)
  obtain res i p1 where g: "getSegIDByHDFSHostName resolve p n = (res, i, p1)" by (metis prod_cases3)
  have L: "same_hosts resolve p p1" using lookup_same_hosts(1) [OF Cons.prems(1) _ g] Cons.prems(2) by simp
  then have "cache_inv p1" by (simp add: same_hosts_def)
  then show ?case
    using Cons.IH [of p1 "k + 1"] Cons.prems(2,3) g L by (auto intro: same_hosts_trans split: if_splits)
qed (simp add: same_hosts_refl)

lemma take_vseg_tables:
  assumes "take_vseg m q p a s = Some p'"
  shows "HDFSHostNameIndexed p' = HDFSHostNameIndexed p" "SegmentHostNameIndexed p' = SegmentHostNameIndexed p"
    "SegmentHostAddrIndexed p' = SegmentHostAddrIndexed p" "AvailNodeCount p' = AvailNodeCount p"
  using assms
  by (auto simp: take_vseg_def reorderSegResourceAvailIndex_def put_seg_def Let_def bind_eq_Some_conv split: if_splits)

lemma take_same_hosts: "take_vseg m q p a s = Some p' \<Longrightarrow> cache_inv p \<Longrightarrow> same_hosts resolve p p'"
  by (rule same_hosts_tables [OF take_vseg_tables])

lemma locality_same_hosts:
  "cache_inv (as_pool st) \<Longrightarrow> \<forall>n \<in> set ns. 0 \<notin> set n \<Longrightarrow> allocateByLocality resolve slicelimit m q k ns st = Some st' \<Longrightarrow>
   same_hosts resolve (as_pool st) (as_pool st')"
proof (induction ns arbitrary: st k)
  case (Cons n ns)
  obtain res i p1 where g: "getSegIDByHDFSHostName resolve (as_pool st) n = (res, i, p1)" by (metis prod_cases3)
  have L: "same_hosts resolve (as_pool st) p1" using lookup_same_hosts(1) [OF Cons.prems(1) _ g] Cons.prems(2) by simp
  then have inv: "cache_inv p1" by (simp add: same_hosts_def)
  have go: "same_hosts resolve (as_pool st) (as_pool st')"
    if "allocateByLocality resolve slicelimit m q (k + 1) ns st1 = Some st'" "same_hosts resolve (as_pool st) (as_pool st1)" for st1
    using Cons.IH [of st1 "k + 1"] that Cons.prems(2) by (auto intro: same_hosts_trans simp: same_hosts_def)
  have T: "same_hosts resolve (as_pool st) p2" if "take_vseg m q p1 a s = Some p2" for a s p2
    using take_same_hosts [OF that inv] L by (rule same_hosts_trans [rotated])
  show ?case
    using Cons.prems(3) g L go T
    by (auto simp: Let_def bind_eq_Some_conv split: if_splits prod.splits)
qed (simp add: same_hosts_refl)


lemma choose_same_hosts:
  assumes inv: "cache_inv (as_pool st)" and names: "\<forall>n \<in> set (aa_preferredhostname q). 0 \<notin> set n"
    and run: "chooseSegment resolve m q st a s curhost = Some st'"
  shows "same_hosts resolve (as_pool st) (as_pool st')"
proof -
  obtain p1 where p1: "take_vseg m q (as_pool st) a s = Some p1" using run by (auto simp: chooseSegment_def bind_eq_Some_conv)
  have T: "same_hosts resolve (as_pool st) p1" by (rule take_same_hosts [OF p1 inv])
  then have inv1: "cache_inv p1" by (simp add: same_hosts_def)
  obtain k p2 where f: "findHDFSNameIndex resolve p1 (st_ID (sr_Stat s)) 0 (aa_preferredhostname q) = (k, p2)" by fastforce
  have "as_pool st' = p1 \<or> as_pool st' = p2"
    using run p1 f by (auto simp: chooseSegment_def Let_def split: option.splits)
  then show ?thesis using T same_hosts_trans [OF T find_same_hosts [OF inv1 names f]] by auto
qed

lemma end_same_hosts: "cache_inv (as_pool st) \<Longrightarrow> same_hosts resolve (as_pool st) (as_pool (endOfBody fullcount st))"
  by (rule same_hosts_tables) (simp_all add: endOfBody_def Let_def refillIndex_def)

lemma body_same_hosts:
  assumes inv: "cache_inv (as_pool st)" and names: "\<forall>n \<in> set (aa_preferredhostname q). 0 \<notin> set n"
    and run: "allocateByWorkloadBody resolve slicelimit m q fullcount st = Some st'"
  shows "same_hosts resolve (as_pool st) (as_pool st')"
proof (rule body_cases [OF run])
  fix a rest s curhost st1
  assume st1: "st1 = st\<lparr>as_pool := (as_pool st)\<lparr>OrderedIOBytesWorkload := rest\<rparr>, as_tmplist := as_tmplist st @ [a]\<rparr>"
    and st': "if can_take slicelimit m q (as_skipchosenmachine st) s curhost
     then \<exists>st2. chooseSegment resolve m q st1 a s curhost = Some st2 \<and> st' = endOfBody fullcount st2
     else st' = endOfBody fullcount (st1\<lparr>as_impossiblecount := as_impossiblecount st + 1\<rparr>)"
  have S: "same_hosts resolve (as_pool st) (as_pool st1)" by (rule same_hosts_tables) (simp_all add: st1 inv)
  then have inv1: "cache_inv (as_pool st1)" by (simp add: same_hosts_def)
  have E: "same_hosts resolve (as_pool st) (as_pool (endOfBody fullcount st2))" if "same_hosts resolve (as_pool st) (as_pool st2)" for st2
    using that end_same_hosts [of st2 resolve fullcount] by (auto intro: same_hosts_trans simp: same_hosts_def)
  show ?thesis
  proof (cases "can_take slicelimit m q (as_skipchosenmachine st) s curhost")
    case True
    then obtain st2 where "chooseSegment resolve m q st1 a s curhost = Some st2" "st' = endOfBody fullcount st2" using st' by auto
    then show ?thesis using E same_hosts_trans [OF S choose_same_hosts [OF inv1 names]] by simp
  next
    case False
    then show ?thesis using st' E [of "st1\<lparr>as_impossiblecount := as_impossiblecount st + 1\<rparr>"] S by simp
  qed
qed

lemma workload_same_hosts:
  "cache_inv (as_pool st) \<Longrightarrow> \<forall>n \<in> set (aa_preferredhostname q). 0 \<notin> set n \<Longrightarrow>
   allocateByWorkload resolve slicelimit m q fullcount st = Some st' \<Longrightarrow> same_hosts resolve (as_pool st) (as_pool st')"
proof (induction resolve slicelimit m q fullcount st rule: allocateByWorkload.induct)
  case (1 resolve slicelimit m q fullcount st)
  show ?case
  proof (cases "loop_cond fullcount st")
    case True
    then obtain st1 where b: "allocateByWorkloadBody resolve slicelimit m q fullcount st = Some st1"
      "allocateByWorkload resolve slicelimit m q fullcount st1 = Some st'"
      using "1.prems"(3) by (auto simp: allocateByWorkload.simps [of resolve slicelimit m q fullcount st] split: option.splits)
    have S: "same_hosts resolve (as_pool st) (as_pool st1)" by (rule body_same_hosts [OF "1.prems"(1,2) b(1)])
    then have "same_hosts resolve (as_pool st1) (as_pool st')"
      using "1.IH" [OF True b(1) _ "1.prems"(2) b(2)] by (simp add: same_hosts_def)
    with S show ?thesis by (rule same_hosts_trans)
  next
    case False
    then show ?thesis using "1.prems" by (simp add: allocateByWorkload.simps [of resolve slicelimit m q fullcount st] same_hosts_refl)
  qed
qed

lemma addWorkload_tables:
  "addWorkload io vs p = Some p' \<Longrightarrow> HDFSHostNameIndexed p' = HDFSHostNameIndexed p \<and> SegmentHostNameIndexed p' = SegmentHostNameIndexed p \<and>
    SegmentHostAddrIndexed p' = SegmentHostAddrIndexed p \<and> AvailNodeCount p' = AvailNodeCount p"
  by (induction vs arbitrary: p)
     (fastforce simp: Let_def bind_eq_Some_conv reorderSegResourceIOBytesWorkloadIndex_def put_seg_def split: if_splits)+

text \<open>An allocation leaves what the host names lead to.\<close>

lemma allocation_same_hosts:
  assumes inv: "cache_inv p" and names: "\<forall>n \<in> set (aa_preferredhostname q). 0 \<notin> set n"
    and run: "allocateResourceFromResourcePoolIOBytes resolve slicelimit m p q vs = Some (r, p')"
  shows "same_hosts resolve p p'"
proof -
  let ?st0 = "\<lparr>as_pool = p, as_vsegcnttbl = newVSegCntTable, as_tmplist = [], as_nodecountleft = aa_nodecount q,
    as_impossiblecount = 0, as_skipchosenmachine = True\<rparr>"
  obtain st1 st2 where st: "(if aa_nodecount q < sint (AvailNodeCount p)
      then allocateByLocality resolve slicelimit m q 0 (aa_preferredhostname q) ?st0 else Some ?st0) = Some st1"
    "allocateByWorkload resolve slicelimit m q (int (length (OrderedIOBytesWorkload p))) st1 = Some st2"
    "\<exists>io vs. addWorkload io vs (refillIndex (as_pool st2) (as_tmplist st2)) = Some p'"
    using run by (auto simp: allocateResourceFromResourcePoolIOBytes_def Let_def bind_eq_Some_conv)
  have 1: "same_hosts resolve p (as_pool st1)"
    using locality_same_hosts [of ?st0 "aa_preferredhostname q" resolve slicelimit m q 0 st1] st(1) inv names
    by (auto simp: same_hosts_refl split: if_splits)
  then have "cache_inv (as_pool st1)" by (simp add: same_hosts_def)
  from same_hosts_trans [OF 1 workload_same_hosts [OF this names st(2)]] have 2: "same_hosts resolve p (as_pool st2)" .
  have "same_hosts resolve (as_pool st2) p'"
    using st(3) 2 by (intro same_hosts_tables) (auto dest!: addWorkload_tables simp: refillIndex_def same_hosts_def)
  with 2 show ?thesis by (rule same_hosts_trans)
qed

lemma reorder_tables:
  "reorderSegResourceAvailIndex m p a ratio = Some (res, p') \<Longrightarrow>
    HDFSHostNameIndexed p' = HDFSHostNameIndexed p \<and> SegmentHostNameIndexed p' = SegmentHostNameIndexed p \<and>
    SegmentHostAddrIndexed p' = SegmentHostAddrIndexed p \<and> AvailNodeCount p' = AvailNodeCount p"
  by (auto simp: reorderSegResourceAvailIndex_def Let_def bind_eq_Some_conv split: if_splits)

lemma return_tables:
  "returnResourceToResourcePool m p memory core io sl vs isold = Some p' \<Longrightarrow>
    HDFSHostNameIndexed p' = HDFSHostNameIndexed p \<and> SegmentHostNameIndexed p' = SegmentHostNameIndexed p \<and>
    SegmentHostAddrIndexed p' = SegmentHostAddrIndexed p \<and> AvailNodeCount p' = AvailNodeCount p"
proof (induction vs arbitrary: p)
  case (Cons v vs)
  show ?case
  proof (cases isold)
    case True
    with Cons.prems obtain x where "returnResourceToResourcePool m (put_seg p (vs_Resource v) x) memory core io sl vs isold = Some p'"
      by (auto simp: bind_eq_Some_conv Let_def)
    from Cons.IH [OF this] show ?thesis by (simp add: put_seg_def)
  next
    case False
    with Cons.prems obtain x res p2 where r: "reorderSegResourceAvailIndex m (put_seg p (vs_Resource v) x) (vs_Resource v) (ratio_of memory core) = Some (res, p2)"
      and p': "returnResourceToResourcePool m (snd (reorderSegResourceIOBytesWorkloadIndex p2 (vs_Resource v))) memory core io sl vs isold = Some p'"
      unfolding returnResourceToResourcePool.simps Let_def bind_eq_Some_conv if_not_P [OF False] not_False_eq_True if_True
      by (elim exE conjE) (simp add: bind_eq_Some_conv split: prod.splits, blast)
    from Cons.IH [OF p'] reorder_tables [OF r] show ?thesis
      by (simp add: put_seg_def reorderSegResourceIOBytesWorkloadIndex_def Let_def split: if_splits)
  qed
qed simp

lemma return_same_hosts:
  "returnResourceToResourcePool m p memory core io sl vs isold = Some p' \<Longrightarrow> cache_inv p \<Longrightarrow> same_hosts resolve p p'"
  using return_tables [of m p memory core io sl vs isold p'] by (intro same_hosts_tables) simp_all

end
