(* ===== verification/RM_Dispatch_Query.thy ===== *)
theory RM_Dispatch_Query
  imports RM_Response RM_Dispatch_Props RM_Pool_Hosts
begin

text \<open>
  The dispatch of resource to one query, \<^verbatim>\<open>dispatchToQuery\<close>, across the components that keep books: the pool
  with its segments, the queue, the session in the deadlock detector, and the connection with its response.
\<close>

section \<open>What a query must be like\<close>

abbreviation sid_of :: "ConnectionTrack \<Rightarrow> 64 word" where
  "sid_of c \<equiv> of_int (ct_SessionID c)"

abbreviation ridx_of :: "RMState \<Rightarrow> ConnectionTrack \<Rightarrow> int" where
  "ridx_of g c \<equiv> getResourceQueueRatioIndex (rm_mgr g) (ratio_of (ct_SegMemoryMB c) (ct_SegCore c))"

text \<open>A waiting query: it has no resource yet, its numbers are in the range of their types, its session is known to
  the deadlock detector of the queue, the pool is well formed for its memory/core ratio, and the response fits
  into a buffer when the description of a host takes at most \<open>L\<close> bytes.\<close>

definition query_ok :: "RMConfig \<Rightarrow> RMState \<Rightarrow> DynResourceQueueTrack \<Rightarrow> ConnectionTrack \<Rightarrow> uint8 list list \<Rightarrow> nat \<Rightarrow> bool" where
  "query_ok cf g t c names L \<longleftrightarrow>
     cf_allocation_policy cf = 0 \<and> length (cf_double_bytes cf (ct_SegCore c)) = 8 \<and>
     ct_Resource c = [] \<and> \<not> ct_isOld c \<and> 0 \<le> ct_SegMemoryMB c \<and> ct_SegMemoryMB c < 2 ^ 31 \<and>
     preferred_hosts c = Some names \<and> args_ok (alloc_args c names) \<and>
     pool_wf (ridx_of g c) (rm_pool g) \<and> hosts_apart (cf_resolve cf) (rm_pool g) (alloc_args c names) \<and>
     det_rep (rm_sessions g) (qt_DLDetector t) \<and> sess (rm_sessions g) (qt_DLDetector t) (sid_of c) \<noteq> None \<and>
     smb_inv (ct_MessageBuff c) \<and>
     (\<forall>a s. rp_heap (rm_pool g) a = Some s \<longrightarrow> length (st_Info (sr_Stat s)) \<le> L) \<and>
     46 + (8 + int L) * ct_SegNumActual c \<le> SELFMAINTAINBUFFER_MAX_SIZE"

lemma pool_wf_cache: "pool_wf i p \<Longrightarrow> cache_inv p"
  by (simp add: pool_wf_def hosts_known_def cache_ok_def)

lemma uint_mem [simp]: "0 \<le> k \<Longrightarrow> k < 2 ^ 31 \<Longrightarrow> uint (word_of_int k :: uint32) = k"
  by (simp add: uint_word_of_int)

lemma aa_ratio_args: "0 \<le> ct_SegMemoryMB c \<Longrightarrow> ct_SegMemoryMB c < 2 ^ 31 \<Longrightarrow> aa_ratio (alloc_args c names) = ratio_of (ct_SegMemoryMB c) (ct_SegCore c)"
  by (simp add: aa_ratio_def alloc_args_def)

lemma host_infos_bound:
  "\<forall>v \<in> set vs. length (host_info heap v) \<le> L \<and> 0 < vs_VSegmentCount v \<Longrightarrow> length (host_infos heap vs) \<le> L * length (vseg_hosts vs)"
proof (induction vs)
  case (Cons v vs)
  have "1 \<le> unat (vs_VSegmentCount v)" using Cons.prems by (simp add: word_less_nat_alt)
  then have "length (host_info heap v) \<le> L * unat (vs_VSegmentCount v)"
    using Cons.prems by (metis le_trans list.set_intros(1) mult_le_mono2 nat_mult_1_right)
  then show ?case using Cons by (simp add: vseg_hosts_def add_mult_distrib2)
qed simp

lemma charged_stat [simp]: "sr_Stat (charged q ridx io n s) = sr_Stat s"
  by (simp add: charged_def)

lemma host_info_charged:
  assumes "\<forall>a. h' a = map_option (charged q ridx io (n a)) (h a)"
  shows "host_info h' v = host_info h v"
  using assms by (cases "h (vs_Resource v)") (simp_all add: host_info_def)


section \<open>The allocation\<close>

lemma counters_empty: "\<forall>v \<in> set vs. 0 < vs_VSegmentCount v \<Longrightarrow> (\<Sum>v\<leftarrow>vs. unat (vs_VSegmentCount v)) = 0 \<Longrightarrow> vs = []"
  by (cases vs) (auto simp: word_less_nat_alt)

lemma query_alloc:
  assumes ok: "query_ok cf g t c names L"
  defines "qa \<equiv> alloc_args c names" and "i \<equiv> ridx_of g c"
  shows "\<exists>r p'. allocateResourceFromResourcePool cf g qa (ct_Resource c) = Some (r, p') \<and>
    0 \<le> ar_totalvsegcount r \<and> ar_totalvsegcount r \<le> ct_SegNumActual c \<and>
    ar_totalvsegcount r = int (length (vseg_hosts (ar_vsegcounters r))) \<and>
    (\<forall>a. rp_heap p' a = map_option (charged qa i (ar_vsegiobytes r) (vsegs_on (ar_vsegcounters r) a)) (rp_heap (rm_pool g) a)) \<and>
    (\<forall>v \<in> set (ar_vsegcounters r). rp_heap (rm_pool g) (vs_Resource v) \<noteq> None \<and> 0 < vs_VSegmentCount v) \<and>
    frame (rm_pool g) p' \<and> pool_wf i p'"
proof -
  let ?p = "rm_pool g"
  have q: "args_ok qa" "hosts_apart (cf_resolve cf) ?p qa" "cf_allocation_policy cf = 0" "ct_Resource c = []" "pool_wf i ?p"
    using ok by (simp_all add: query_ok_def qa_def i_def)
  have i: "i = getResourceQueueRatioIndex (rm_mgr g) (aa_ratio qa)"
    using ok aa_ratio_args [of c names] by (simp add: query_ok_def qa_def i_def)
  obtain r p' where R: "allocateResourceFromResourcePoolIOBytes (cf_resolve cf) (cf_slice_num_per_seg_limit cf) (rm_mgr g) ?p qa [] = Some (r, p')"
    "0 \<le> ar_totalvsegcount r" "ar_totalvsegcount r \<le> aa_nodecount qa"
    "ar_totalvsegcount r = int (sum_list (map (\<lambda>c. unat (vs_VSegmentCount c)) (ar_vsegcounters r)))"
    "\<forall>a. rp_heap p' a = map_option (charged qa i (ar_vsegiobytes r) (vsegs_on (ar_vsegcounters r) a)) (rp_heap ?p a)"
    "\<forall>a s c. rp_heap ?p a = Some s \<longrightarrow> ctn_set s i = Some c \<longrightarrow>
       int (vsegs_on (ar_vsegcounters r) a) * uint (aa_memory qa) \<le> rb_MemoryMB (cs_Available c)"
    "\<not> aa_fixnodecount qa \<longrightarrow> (\<forall>a. rp_heap ?p a \<noteq> None \<longrightarrow> int (vsegs_on (ar_vsegcounters r) a) \<le> aa_vseglimitpseg qa)"
    "\<forall>c \<in> set (ar_vsegcounters r). \<exists>s. rp_heap ?p (vs_Resource c) = Some s \<and> ctn_set s i \<noteq> None \<and> IS_SEGRESOURCE_USABLE s \<and> 0 < vs_VSegmentCount c"
    "frame ?p p'" "cache_ok ?p (HDFSHostNameIndexed p')" "mset (OrderedIOBytesWorkload p') = mset (OrderedIOBytesWorkload ?p)"
    by (rule alloc_spec [OF i q(5,1,2), where slicelimit = "cf_slice_num_per_seg_limit cf"])
  have "pool_wf i p'" by (rule pool_wf_kept [OF q(5) R(9,5,6,10,11)])
  moreover have "\<forall>v \<in> set (ar_vsegcounters r). rp_heap ?p (vs_Resource v) \<noteq> None \<and> 0 < vs_VSegmentCount v" using R(8) by auto
  moreover have "allocateResourceFromResourcePool cf g qa (ct_Resource c) = Some (r, p')"
    using R(1) q(3,4) by (simp add: allocateResourceFromResourcePool_def)
  moreover have "ar_totalvsegcount r \<le> ct_SegNumActual c" using R(3) by (simp add: qa_def alloc_args_def)
  ultimately show ?thesis
    using R(2,4,5,9) unfolding length_vseg_hosts by blast
qed


section \<open>The two outcomes\<close>

text \<open>What a query that runs has got, in all books.\<close>

definition runs_with :: "RMConfig \<Rightarrow> RMState \<Rightarrow> addr \<Rightarrow> addr \<Rightarrow> RMState \<Rightarrow> bool" where
  "runs_with cf g q a g' \<longleftrightarrow> (\<exists>c t c' t' s n.
     conn_at g a = Some c \<and> rm_tracks g q = Some t \<and> conn_at g' a = Some c' \<and> rm_tracks g' q = Some t' \<and>
     sess (rm_sessions g) (qt_DLDetector t) (sid_of c) = Some s \<and>
     n = ct_SegNumActual c' \<and> ct_SegNumMin c \<le> n \<and> n \<le> ct_SegNumActual c \<and> n = int (length (vseg_hosts (ct_Resource c'))) \<and>
     ct_Progress c' = CONN_PP_RESOURCE_QUEUE_ALLOC_DONE \<and>
     qt_TotalUsed t' = addResourceBundleData (qt_TotalUsed t) (ct_SegMemoryMB c * n) (ct_SegCore c * of_int n) \<and>
     qt_TotalRequest t' = minusResourceBundleData (qt_TotalRequest t) (ct_SegMemoryMB c * ct_SegNum c) (ct_SegCore c * of_int (ct_SegNum c)) \<and>
     qt_NumOfRunningQueries t' = qt_NumOfRunningQueries t + 1 \<and>
     det_rep (rm_sessions g') (qt_DLDetector t') \<and>
     sess (rm_sessions g') (qt_DLDetector t') = (sess (rm_sessions g) (qt_DLDetector t))(sid_of c \<mapsto>
       s\<lparr>st_Locked := False, st_InUseTotalMemoryMB := st_InUseTotalMemoryMB s + of_int (ct_SegMemoryMB c * n),
         st_InUseTotalCore := st_InUseTotalCore s + ct_SegCore c * of_int n\<rparr>) \<and>
     (\<forall>b. rp_heap (rm_pool g') b = map_option (charged (alloc_args c []) (ridx_of g c) (ct_SegIOBytes c') (vsegs_on (ct_Resource c') b))
        (rp_heap (rm_pool g) b)) \<and>
     smb_content (ct_MessageBuff c') = response_bytes cf (rp_heap (rm_pool g')) c' \<and>
     ConnToSend (rm_conns g') = ConnToSend (rm_conns g) @ [a])"

text \<open>A query that waits on has changed nothing but its own mark.\<close>

definition waits_on :: "RMState \<Rightarrow> addr \<Rightarrow> RMState \<Rightarrow> bool" where
  "waits_on g a g' \<longleftrightarrow> (\<exists>c c'. conn_at g a = Some c \<and> conn_at g' a = Some c' \<and> ct_troubledByFragment c' \<and> ct_Resource c' = [] \<and>
     ct_SegNumActual c' = ct_SegNumActual c \<and> ct_Progress c' = ct_Progress c \<and>
     rp_heap (rm_pool g') = rp_heap (rm_pool g) \<and> rm_tracks g' = rm_tracks g \<and> rm_sessions g' = rm_sessions g \<and>
     ConnToSend (rm_conns g') = ConnToSend (rm_conns g))"

text \<open>What the dispatch to a query leaves: the other connections and queues, and the queue but for its books.\<close>

definition kept :: "RMState \<Rightarrow> addr \<Rightarrow> addr \<Rightarrow> RMState \<Rightarrow> bool" where
  "kept g q a g' \<longleftrightarrow> rm_mgr g' = rm_mgr g \<and> (\<forall>b. b \<noteq> a \<longrightarrow> conn_at g' b = conn_at g b) \<and>
     (\<forall>x. x \<noteq> q \<longrightarrow> rm_tracks g' x = rm_tracks g x) \<and>
     (\<exists>t t'. rm_tracks g q = Some t \<and> rm_tracks g' q = Some t' \<and> qt_QueueInfo t' = qt_QueueInfo t \<and>
        qt_TotalAllocated t' = qt_TotalAllocated t \<and> qt_QueryResRequests t' = qt_QueryResRequests t)"

lemma charged_names: "charged (alloc_args c names) = charged (alloc_args c [])"
  by (simp add: fun_eq_iff charged_def taken_def alloc_args_def cong: option.case_cong)

lemma query_runs:
  assumes c: "conn_at g a = Some c" and t: "rm_tracks g q = Some t" and ok: "query_ok cf g t c names L"
    and al: "allocateResourceFromResourcePool cf g (alloc_args c names) (ct_Resource c) = Some (r, p')"
    and n: "ct_SegNumMin c \<le> ar_totalvsegcount r" "ar_totalvsegcount r \<le> ct_SegNumActual c"
      "ar_totalvsegcount r = int (length (vseg_hosts (ar_vsegcounters r)))"
    and heap: "\<forall>a. rp_heap p' a = map_option (charged (alloc_args c names) (ridx_of g c) (ar_vsegiobytes r) (vsegs_on (ar_vsegcounters r) a)) (rp_heap (rm_pool g) a)"
    and cs: "\<forall>v \<in> set (ar_vsegcounters r). rp_heap (rm_pool g) (vs_Resource v) \<noteq> None \<and> 0 < vs_VSegmentCount v"
  shows "\<exists>g'. dispatchToQuery cf g q a = Some (True, g') \<and> runs_with cf g q a g' \<and> rm_pool g' = p' \<and> kept g q a g'"
proof -
  let ?n = "ar_totalvsegcount r" and ?sid = "sid_of c"
  let ?mem = "ct_SegMemoryMB c * ?n" and ?core = "ct_SegCore c * of_int ?n"
  define c2 where "c2 = c\<lparr>ct_Resource := ar_vsegcounters r, ct_SegIOBytes := ar_vsegiobytes r, ct_SegNumActual := ?n,
    ct_Progress := CONN_PP_RESOURCE_QUEUE_ALLOC_DONE\<rparr>"
  have names: "preferred_hosts c = Some names" and rep: "det_rep (rm_sessions g) (qt_DLDetector t)" using ok by (simp_all add: query_ok_def)
  obtain s where s: "sess (rm_sessions g) (qt_DLDetector t) ?sid = Some s" using ok by (auto simp: query_ok_def)
  obtain h1 d1 where u: "unlockSessionResource (rm_sessions g) (qt_DLDetector t) ?sid = Some (h1, d1)" "det_rep h1 d1"
    "sess h1 d1 = (sess (rm_sessions g) (qt_DLDetector t))(?sid \<mapsto> s\<lparr>st_Locked := False\<rparr>)"
    by (rule unlock_spec [OF rep s])
  have s1: "sess h1 d1 ?sid = Some (s\<lparr>st_Locked := False\<rparr>)" by (simp add: u(3))
  obtain h2 d2 where v: "addSessionInUseResource h1 d1 ?sid (of_int ?mem) ?core = Some (FUNC_RETURN_OK, h2, d2)" "det_rep h2 d2"
    "sess h2 d2 = (sess h1 d1)(?sid \<mapsto> s\<lparr>st_Locked := False\<rparr>\<lparr>st_InUseTotalMemoryMB := st_InUseTotalMemoryMB (s\<lparr>st_Locked := False\<rparr>) + of_int ?mem,
       st_InUseTotalCore := st_InUseTotalCore (s\<lparr>st_Locked := False\<rparr>) + ?core\<rparr>)"
    by (rule add_spec [OF u(2) s1])
  define t2 where "t2 = t\<lparr>qt_TotalUsed := addResourceBundleData (qt_TotalUsed t) ?mem ?core,
    qt_TotalRequest := minusResourceBundleData (qt_TotalRequest t) (ct_SegMemoryMB c * ct_SegNum c) (ct_SegCore c * of_int (ct_SegNum c)),
    qt_NumOfRunningQueries := qt_NumOfRunningQueries t + 1, qt_DLDetector := d2\<rparr>"
  define g2 where "g2 = put_conn (put_track1 (g\<lparr>rm_pool := p', rm_sessions := h2\<rparr>) q t2) a c2"
  have c2: "conn_at g2 a = Some c2" and p2: "rm_pool g2 = p'" by (simp_all add: g2_def put_conn_def put_track_def)
  have "response_ok cf (rp_heap p') c2"
  proof -
    have "length (host_infos (rp_heap p') (ar_vsegcounters r)) \<le> L * length (vseg_hosts (ar_vsegcounters r))"
    proof (rule host_infos_bound)
      have "length (host_info (rp_heap p') v) \<le> L" for v
        unfolding host_info_charged [OF heap] using ok by (simp add: host_info_def query_ok_def split: option.split)
      then show "\<forall>v \<in> set (ar_vsegcounters r). length (host_info (rp_heap p') v) \<le> L \<and> 0 < vs_VSegmentCount v" using cs by blast
    qed
    moreover have "46 + (8 + int L) * ?n \<le> SELFMAINTAINBUFFER_MAX_SIZE"
    proof -
      have "(8 + int L) * ?n \<le> (8 + int L) * ct_SegNumActual c" using n(2) by (intro mult_left_mono) simp_all
      moreover have "46 + (8 + int L) * ct_SegNumActual c \<le> SELFMAINTAINBUFFER_MAX_SIZE" using ok by (simp add: query_ok_def)
      ultimately show ?thesis by linarith
    qed
    ultimately have "46 + 8 * ?n + int (length (host_infos (rp_heap p') (ar_vsegcounters r))) \<le> SELFMAINTAINBUFFER_MAX_SIZE"
      unfolding n(3) by (simp add: distrib_right flip: of_nat_mult)
    then show ?thesis using ok cs heap n(3) by (simp add: response_ok_def query_ok_def c2_def)
  qed
  from build_response [OF c2, unfolded p2, OF this] obtain b where
    b: "buildAcquireResourceResponseMessage cf g2 a = Some (let g' = put_conn g2 a (c2\<lparr>ct_MessageBuff := b,
      ct_MessageSize := of_int (smb_Cursor b + 1), ct_MessageID := RESPONSE_QD_ACQUIRE_RESOURCE, ct_ResAllocTime := cf_now cf\<rparr>)
      in g'\<lparr>rm_conns := (rm_conns g')\<lparr>ConnToSend := ConnToSend (rm_conns g') @ [a]\<rparr>\<rparr>)"
    "smb_inv b" "smb_content b = response_bytes cf (rp_heap p') c2" by blast
  define g3 where "g3 = (let g' = put_conn g2 a (c2\<lparr>ct_MessageBuff := b,
      ct_MessageSize := of_int (smb_Cursor b + 1), ct_MessageID := RESPONSE_QD_ACQUIRE_RESOURCE, ct_ResAllocTime := cf_now cf\<rparr>)
      in g'\<lparr>rm_conns := (rm_conns g')\<lparr>ConnToSend := ConnToSend (rm_conns g') @ [a]\<rparr>\<rparr>)"
  have "dispatchToQuery cf g q a = Some (True, g3)"
    using c names al n(1) t u(1) v(1) b(1)
    by (simp add: dispatchToQuery_def Let_def transformConnectionTrackProgress_def c2_def t2_def g2_def g3_def)
  moreover have "rm_pool g3 = p'" by (simp add: g3_def g2_def Let_def put_conn_def)
  moreover have "kept g q a g3" using t by (simp add: kept_def g3_def g2_def Let_def put_conn_def put_track_def t2_def)
  moreover have "runs_with cf g q a g3"
  proof -
    let ?c3 = "c2\<lparr>ct_MessageBuff := b, ct_MessageSize := of_int (smb_Cursor b + 1), ct_MessageID := RESPONSE_QD_ACQUIRE_RESOURCE, ct_ResAllocTime := cf_now cf\<rparr>"
    have g3: "conn_at g3 a = Some ?c3" "rm_tracks g3 q = Some t2" "rm_sessions g3 = h2" "rm_pool g3 = p'" "ConnToSend (rm_conns g3) = ConnToSend (rm_conns g) @ [a]"
      by (simp_all add: g3_def g2_def Let_def put_conn_def put_track_def)
    have rb: "response_bytes cf (rp_heap p') ?c3 = response_bytes cf (rp_heap p') c2"
      by (simp add: response_bytes_def responseHead_def)
    show ?thesis
      unfolding runs_with_def
      using c t s g3 n u(3) v(2,3) b(3) heap rb charged_names [of c names]
      by (intro exI [of _ c] exI [of _ t] exI [of _ ?c3] exI [of _ t2] exI [of _ s] exI [of _ ?n]) (simp add: c2_def t2_def)
  qed
  ultimately show ?thesis by blast
qed


lemma query_waits:
  assumes c: "conn_at g a = Some c" and t: "rm_tracks g q = Some t" and ok: "query_ok cf g t c names L"
    and al: "allocateResourceFromResourcePool cf g (alloc_args c names) (ct_Resource c) = Some (r, p')"
    and n: "ar_totalvsegcount r < ct_SegNumMin c" "ar_totalvsegcount r = int (length (vseg_hosts (ar_vsegcounters r)))"
    and heap: "\<forall>a. rp_heap p' a = map_option (charged (alloc_args c names) (ridx_of g c) (ar_vsegiobytes r) (vsegs_on (ar_vsegcounters r) a)) (rp_heap (rm_pool g) a)"
    and cs: "\<forall>v \<in> set (ar_vsegcounters r). rp_heap (rm_pool g) (vs_Resource v) \<noteq> None \<and> 0 < vs_VSegmentCount v"
    and p': "pool_wf (ridx_of g c) p'" "frame (rm_pool g) p'"
  shows "\<exists>g'. dispatchToQuery cf g q a = Some (False, g') \<and> waits_on g a g' \<and> pool_wf (ridx_of g c) (rm_pool g') \<and>
    frame (rm_pool g) (rm_pool g') \<and> same_hosts (cf_resolve cf) p' (rm_pool g') \<and> kept g q a g'"
proof -
  let ?qa = "alloc_args c names"
  have o: "preferred_hosts c = Some names" "ct_Resource c = []" "cf_allocation_policy cf = 0" "\<not> ct_isOld c" "args_ok ?qa"
    "hosts_apart (cf_resolve cf) (rm_pool g) ?qa" "pool_wf (ridx_of g c) (rm_pool g)" "0 \<le> ct_SegMemoryMB c" "ct_SegMemoryMB c < 2 ^ 31"
    using ok by (simp_all add: query_ok_def)
  have cache': "cache_inv p'" by (rule pool_wf_cache [OF p'(1)])
  define c' where "c' = c\<lparr>ct_Resource := ar_vsegcounters r, ct_SegIOBytes := ar_vsegiobytes r\<rparr>"
  define gb where "gb = (if ar_totalvsegcount r > 0 then do {
      p \<leftarrow> returnResourceToResourcePool (rm_mgr (g\<lparr>rm_pool := p'\<rparr>)) p' (ct_SegMemoryMB c') (ct_SegCore c') (ct_SegIOBytes c') (ct_SliceSize c')
             (ct_Resource c') (ct_isOld c');
      Some (c'\<lparr>ct_Resource := []\<rparr>, p) }
    else Some (c', p'))"
  have "\<exists>p1. gb = Some (c'\<lparr>ct_Resource := []\<rparr>, p1) \<and> rp_heap p1 = rp_heap (rm_pool g) \<and> pool_wf (ridx_of g c) p1 \<and> frame (rm_pool g) p1 \<and>
    same_hosts (cf_resolve cf) p' p1"
  proof (cases "ar_totalvsegcount r > 0")
    case True
    have i: "ridx_of g c = getResourceQueueRatioIndex (rm_mgr g) (aa_ratio ?qa)" using aa_ratio_args [OF o(8,9)] by simp
    have a1: "allocateResourceFromResourcePoolIOBytes (cf_resolve cf) (cf_slice_num_per_seg_limit cf) (rm_mgr g) (rm_pool g) ?qa [] = Some (r, p')"
      using al o(2,3) by (simp add: allocateResourceFromResourcePool_def)
    obtain p1 where S: "returnResourceToResourcePool (rm_mgr g) p' (uint (aa_memory ?qa)) (aa_core ?qa) (ar_vsegiobytes r) (aa_slicesize ?qa)
        (ar_vsegcounters r) False = Some p1" "rp_heap p1 = rp_heap (rm_pool g)" "frame (rm_pool g) p1"
      "cache_ok (rm_pool g) (HDFSHostNameIndexed p1)" "mset (OrderedIOBytesWorkload p1) = mset (OrderedIOBytesWorkload (rm_pool g))"
      using alloc_return [OF i o(7,5,6), of "cf_slice_num_per_seg_limit cf"] a1 by auto
    have "pool_wf (ridx_of g c) p1"
      by (rule pool_wf_kept [OF o(7) S(3) _ _ S(4,5), of ?qa 0 "\<lambda>_. 0"]) (use S(2) pool_wfD(4) [OF o(7)] in auto)
    then show ?thesis using True S(1-3) return_same_hosts [OF S(1) cache'] o(4,8,9) by (simp add: gb_def c'_def alloc_args_def)
  next
    case False
    then have "ar_vsegcounters r = []"
      using counters_empty [of "ar_vsegcounters r"] cs n(2) by (simp add: length_vseg_hosts)
    moreover have "rp_heap p' = rp_heap (rm_pool g)"
      using heap calculation by (simp add: fun_eq_iff)
    ultimately show ?thesis using False p' same_hosts_refl [OF cache'] by (simp add: gb_def c'_def)
  qed
  then obtain p1 where p1: "gb = Some (c'\<lparr>ct_Resource := []\<rparr>, p1)" "rp_heap p1 = rp_heap (rm_pool g)" "pool_wf (ridx_of g c) p1" "frame (rm_pool g) p1"
    "same_hosts (cf_resolve cf) p' p1"
    by blast
  define c1 where "c1 = (if \<not> ct_troubledByFragment (c'\<lparr>ct_Resource := []\<rparr>)
     then c'\<lparr>ct_Resource := [], ct_troubledByFragmentTimestamp := cf_now cf, ct_troubledByFragment := True\<rparr> else c'\<lparr>ct_Resource := []\<rparr>)"
  let ?g = "put_conn (g\<lparr>rm_pool := p1\<rparr>) a c1"
  have few: "\<not> ct_SegNumMin c' \<le> ar_totalvsegcount r" using n(1) by (simp add: c'_def)
  have "dispatchToQuery cf g q a = Some (False, ?g)"
    unfolding dispatchToQuery_def Let_def c bind.bind_lunit o(1) al prod.case c'_def [symmetric] if_not_P [OF few] gb_def [symmetric] p1(1) c1_def
    by simp
  moreover have "waits_on g a ?g"
    unfolding waits_on_def using c p1(2) by (intro exI [of _ c] exI [of _ c1]) (simp add: c1_def c'_def put_conn_def put_track_def)
  moreover have "kept g q a ?g" using t by (simp add: kept_def put_conn_def put_track_def)
  ultimately show ?thesis using p1(3-5) by (intro exI [of _ ?g]) (simp add: put_conn_def)
qed


lemma query_same_hosts:
  assumes ok: "query_ok cf g t c names L"
    and al: "allocateResourceFromResourcePool cf g (alloc_args c names) (ct_Resource c) = Some (r, p')"
  shows "same_hosts (cf_resolve cf) (rm_pool g) p'"
proof (rule allocation_same_hosts)
  show "cache_inv (rm_pool g)" using ok pool_wf_cache by (auto simp: query_ok_def)
  show "\<forall>n \<in> set (aa_preferredhostname (alloc_args c names)). 0 \<notin> set n" using ok by (simp add: query_ok_def args_ok_def)
  show "allocateResourceFromResourcePoolIOBytes (cf_resolve cf) (cf_slice_num_per_seg_limit cf) (rm_mgr g) (rm_pool g) (alloc_args c names) [] = Some (r, p')"
    using ok al by (simp add: query_ok_def allocateResourceFromResourcePool_def)
qed

lemma query_dispatched:
  assumes c: "conn_at g a = Some c" and t: "rm_tracks g q = Some t" and ok: "query_ok cf g t c names L"
  obtains disp g' where "dispatchToQuery cf g q a = Some (disp, g')" "if disp then runs_with cf g q a g' else waits_on g a g'"
    "pool_wf (ridx_of g c) (rm_pool g')" "kept g q a g'" "same_hosts (cf_resolve cf) (rm_pool g) (rm_pool g')"
proof -
  obtain r p' where al: "allocateResourceFromResourcePool cf g (alloc_args c names) (ct_Resource c) = Some (r, p')"
    and R: "ar_totalvsegcount r \<le> ct_SegNumActual c" "ar_totalvsegcount r = int (length (vseg_hosts (ar_vsegcounters r)))"
      "\<forall>a. rp_heap p' a = map_option (charged (alloc_args c names) (ridx_of g c) (ar_vsegiobytes r) (vsegs_on (ar_vsegcounters r) a)) (rp_heap (rm_pool g) a)"
      "\<forall>v \<in> set (ar_vsegcounters r). rp_heap (rm_pool g) (vs_Resource v) \<noteq> None \<and> 0 < vs_VSegmentCount v"
      "frame (rm_pool g) p'" "pool_wf (ridx_of g c) p'"
    using query_alloc [OF ok] by blast
  note S = query_same_hosts [OF ok al]
  show ?thesis
  proof (cases "ct_SegNumMin c \<le> ar_totalvsegcount r")
    case True
    from query_runs [OF c t ok al True R(1-4)] show ?thesis using R(6) S that [of True] by auto
  next
    case False
    then have "ar_totalvsegcount r < ct_SegNumMin c" by simp
    from query_waits [OF c t ok al this R(2-4,6,5)] show ?thesis using S that [of False] by (auto intro: same_hosts_trans)
  qed
qed

text \<open>C2: the dispatch of resource to a waiting query ends, and it is all or nothing.  Either the query runs: then it
  got at least its minimum and at most what it asked for, and the same number of virtual segments is charged to
  the segments of the pool, to the queue and to the session of the query, whose lock is released; the response is
  built and the connection is the next to be sent to.  Or it waits on: then the pool, the queues, the sessions
  and the responses are as before, and only the query is marked as troubled by fragments.  In both cases the
  pool stays well formed.\<close>

theorem dispatch_all_or_nothing:
  assumes "conn_at g a = Some c" "rm_tracks g q = Some t" "query_ok cf g t c names L"
  shows "\<exists>disp g'. dispatchToQuery cf g q a = Some (disp, g') \<and> (if disp then runs_with cf g q a g' else waits_on g a g') \<and>
    pool_wf (ridx_of g c) (rm_pool g')"
  by (rule query_dispatched [OF assms]) blast


text \<open>A query of three virtual segments, in a queue whose detector knows its session.\<close>

definition ex_query :: ConnectionTrack where
  "ex_query = ex_conn\<lparr>ct_SegMemoryMB := 1024, ct_SegCore := 1, ct_IOBytes := 300, ct_SliceSize := 2, ct_VSegLimitPerSeg := 6,
     ct_SegNumActual := 3, ct_SegNum := 3, ct_SegNumMin := 1, ct_MinSegCountFixed := 1, ct_MaxSegCountFixed := 4, ct_SegPreferredHostCount := 0\<rparr>"

definition ex_waiting :: "sheap \<Rightarrow> ResqueueDeadLockDetector \<Rightarrow> RMState" where
  "ex_waiting h d = put_track1 (put_conn (ex_state\<lparr>rm_sessions := h\<rparr>) 1 ex_query) 1 (ex_track\<lparr>qt_DLDetector := d\<rparr>)"

lemma ex_ridx: "getResourceQueueRatioIndex ex_manager (ratio_of 1024 1) = 0"
  by (simp add: ratio_of_def c_trunc_def ex_ratio)

lemma ex_query_ok:
  assumes "det_inv h d" "sess h d = [7 \<mapsto> s]" "0 < n" "n < 1000"
  shows "query_ok ex_config (ex_waiting h d) (ex_track\<lparr>qt_DLDetector := d\<rparr>) (ex_query\<lparr>ct_SegNumActual := n\<rparr>) [] 0"
proof -
  have args: "alloc_args (ex_query\<lparr>ct_SegNumActual := n\<rparr>) [] = ex_args n []" by (simp add: alloc_args_def ex_query_def ex_args_def)
  have g: "rm_pool (ex_waiting h d) = ex_pool ex_segs2 []" "rm_sessions (ex_waiting h d) = h" "rm_mgr (ex_waiting h d) = ex_manager"
    by (simp_all add: ex_waiting_def ex_state_def)
  have "length (st_Info (sr_Stat s)) \<le> 0" if "rp_heap (ex_pool ex_segs2 []) a = Some s" for a s
    using that by (auto simp: ex_pool_def ex_segs2_def ex_seg_def split: if_splits)
  then show ?thesis
    unfolding query_ok_def args g
    using assms ex_args_ok [of n "[]"] ex_pool2_wf ex_apart
    by (simp add: det_inv_def ex_query_def ex_config_def ex_conn_def createEmptyConnectionTrack_def preferred_hosts_def smb_inv_initial
        SELFMAINTAINBUFFER_MAX_SIZE_def ex_ridx)
qed

theorem dispatch_all_or_nothing_witness:
  "\<exists>g disp g'. conn_at g 1 = Some ex_query \<and> dispatchToQuery ex_config g 1 1 = Some (disp, g') \<and> pool_wf 0 (rm_pool g')"
proof -
  obtain h d where hd: "det_inv h d" "sess h d = [7 \<mapsto> (fresh_session 7)\<lparr>st_Locked := True\<rparr>]"
    using waiting_session [of "\<lparr>tracks = Map.empty, sbrk = 1\<rparr>" 7] by blast
  let ?g = "ex_waiting h d"
  have c: "conn_at ?g 1 = Some ex_query" "rm_tracks ?g 1 = Some (ex_track\<lparr>qt_DLDetector := d\<rparr>)" by (simp_all add: ex_waiting_def)
  have "ridx_of ?g ex_query = 0" by (simp add: ex_waiting_def ex_state_def ex_query_def ex_ridx)
  moreover have "query_ok ex_config ?g (ex_track\<lparr>qt_DLDetector := d\<rparr>) ex_query [] 0"
  proof -
    have "ex_query\<lparr>ct_SegNumActual := 3\<rparr> = ex_query" by (simp add: ex_query_def)
    then show ?thesis using ex_query_ok [OF hd, of 3] by simp
  qed
  ultimately show ?thesis using dispatch_all_or_nothing [OF c] c(1) by fastforce
qed

end
