(* ===== verification/RM_Dispatch_Loop.thy ===== *)
theory RM_Dispatch_Loop
  imports RM_Dispatch_Query "HOL-Library.Sublist"
begin

text \<open>
  The dispatch of the resource of one queue to its waiting queries, \<^verbatim>\<open>dispatchResourceToQueries_EVEN\<close>: which queries
  are considered, what each is offered, and what the books of the queue are after the queries have been served
  one after the other.
\<close>

section \<open>The queries that are considered\<close>

abbreviation min_at :: "RMState \<Rightarrow> addr \<Rightarrow> int" where
  "min_at g a \<equiv> ct_SegNumMin (the (conn_at g a))"

lemma count_spec:
  "\<forall>a \<in> set reqs. conn_at g a \<noteq> None \<and> 0 < min_at g a \<Longrightarrow> segmin \<le> avail \<Longrightarrow>
   0 < n \<or> (\<exists>a as. reqs = a # as \<and> qt_NumOfRunningQueries t < rq_ParallelCount (qt_QueueInfo t) \<and> segmin + min_at g a \<le> avail) \<Longrightarrow>
   0 \<le> n \<Longrightarrow> 0 < n \<longrightarrow> n + qt_NumOfRunningQueries t \<le> rq_ParallelCount (qt_QueueInfo t) \<Longrightarrow>
   \<exists>k. countDispatchable g t avail n segmin reqs = Some (n + int k) \<and> k \<le> length reqs \<and> 0 < n + int k \<and>
     segmin + (\<Sum>a\<leftarrow>take k reqs. min_at g a) \<le> avail \<and>
     n + int k + qt_NumOfRunningQueries t \<le> rq_ParallelCount (qt_QueueInfo t)"
proof (induction reqs arbitrary: n segmin)
  case (Cons a as)
  obtain c where c: "conn_at g a = Some c" using Cons.prems(1) by auto
  show ?case
  proof (cases "n + qt_NumOfRunningQueries t \<ge> rq_ParallelCount (qt_QueueInfo t) \<or> segmin + ct_SegNumMin c > avail")
    case True
    then have "0 < n" using Cons.prems(3,4) c by auto
    then show ?thesis using True Cons.prems(2,5) c by (intro exI [of _ 0]) auto
  next
    case False
    have ih: "\<exists>k. countDispatchable g t avail (n + 1) (segmin + ct_SegNumMin c) as = Some ((n + 1) + int k) \<and> k \<le> length as \<and> 0 < (n + 1) + int k \<and>
       segmin + ct_SegNumMin c + (\<Sum>a\<leftarrow>take k as. min_at g a) \<le> avail \<and>
       (n + 1) + int k + qt_NumOfRunningQueries t \<le> rq_ParallelCount (qt_QueueInfo t)"
      by (rule Cons.IH) (use Cons.prems False c in auto)
    then obtain k where "countDispatchable g t avail (n + 1) (segmin + ct_SegNumMin c) as = Some ((n + 1) + int k) \<and> k \<le> length as \<and> 0 < (n + 1) + int k \<and>
       segmin + ct_SegNumMin c + (\<Sum>a\<leftarrow>take k as. min_at g a) \<le> avail \<and>
       (n + 1) + int k + qt_NumOfRunningQueries t \<le> rq_ParallelCount (qt_QueueInfo t)" by blast
    then show ?thesis using False c by (intro exI [of _ "Suc k"]) (simp add: add.assoc)
  qed
qed auto

text \<open>The queries that are considered are offered their minimum.\<close>

definition offered_min :: "RMState \<Rightarrow> addr set \<Rightarrow> addr \<Rightarrow> ConnectionTrack option" where
  "offered_min g A a = (if a \<in> A then map_option (\<lambda>c. c\<lparr>ct_SegNumActual := ct_SegNumMin c\<rparr>) (conn_at g a) else conn_at g a)"

lemma take_spec:
  "distinct reqs \<Longrightarrow> k \<le> length reqs \<Longrightarrow> \<forall>a \<in> set reqs. conn_at g a \<noteq> None \<Longrightarrow>
   \<exists>h. takeToDispatch g avail k reqs = Some (take k reqs, drop k reqs, avail - (\<Sum>a\<leftarrow>take k reqs. min_at g a),
       g\<lparr>rm_conns := (rm_conns g)\<lparr>ct_heap := h\<rparr>\<rparr>) \<and> h = offered_min g (set (take k reqs))"
proof (induction k arbitrary: g avail reqs)
  case 0
  have "g = g\<lparr>rm_conns := (rm_conns g)\<lparr>ct_heap := conn_at g\<rparr>\<rparr>" by simp
  moreover have "offered_min g {} = conn_at g" by (simp add: fun_eq_iff offered_min_def)
  ultimately show ?case by simp
next
  case (Suc k)
  then obtain a as where r: "reqs = a # as" by (cases reqs) auto
  obtain c where c: "conn_at g a = Some c" using Suc.prems(3) r by auto
  define g1 where "g1 = put_conn g a (c\<lparr>ct_SegNumActual := ct_SegNumMin c\<rparr>)"
  have d: "distinct as" "a \<notin> set as" "k \<le> length as" using Suc.prems r by simp_all
  have "\<forall>b \<in> set as. conn_at g1 b \<noteq> None" using Suc.prems(3) r by (auto simp: g1_def)
  from Suc.IH [OF d(1,3) this, of "avail - ct_SegNumMin c"] obtain h where
    h: "takeToDispatch g1 (avail - ct_SegNumMin c) k as = Some (take k as, drop k as, avail - ct_SegNumMin c - (\<Sum>a\<leftarrow>take k as. min_at g1 a),
       g1\<lparr>rm_conns := (rm_conns g1)\<lparr>ct_heap := h\<rparr>\<rparr>)" "h = offered_min g1 (set (take k as))" by blast
  have at: "a \<notin> set (take k as)" using d(2) by (meson in_set_takeD)
  then have same: "map (min_at g1) (take k as) = map (min_at g) (take k as)" by (auto simp: g1_def)
  have "h = offered_min g (set (take (Suc k) reqs))" using at c r by (auto simp: h(2) fun_eq_iff offered_min_def g1_def)
  moreover have "g1\<lparr>rm_conns := (rm_conns g1)\<lparr>ct_heap := h\<rparr>\<rparr> = g\<lparr>rm_conns := (rm_conns g)\<lparr>ct_heap := h\<rparr>\<rparr>"
    by (simp add: g1_def put_conn_def put_track_def)
  ultimately show ?case using h(1) c unfolding same r by (simp add: g1_def [symmetric] Let_def algebra_simps)
qed

section \<open>The queries one after the other\<close>

text \<open>A query of the queue that can be served, with the quota of memory and cores per virtual segment.\<close>

definition ready :: "RMConfig \<Rightarrow> RMState \<Rightarrow> addr \<Rightarrow> int \<Rightarrow> double \<Rightarrow> nat \<Rightarrow> addr \<Rightarrow> bool" where
  "ready cf g q mem core L a \<longleftrightarrow> (\<exists>c t names. conn_at g a = Some c \<and> rm_tracks g q = Some t \<and>
     ct_SegMemoryMB c = mem \<and> ct_SegCore c = core \<and> query_ok cf g t c names L)"

text \<open>Serving one query leaves the others ready.\<close>

lemma stats_kept:
  assumes "if disp then runs_with cf g q a g' else waits_on g a g'"
  shows "map_option sr_Stat (rp_heap (rm_pool g') b) = map_option sr_Stat (rp_heap (rm_pool g) b)"
  using assms by (auto simp: runs_with_def waits_on_def option.map_comp comp_def split: if_splits)

lemma sessions_kept:
  assumes "if disp then runs_with cf g q a g' else waits_on g a g'" "rm_tracks g q = Some t" "rm_tracks g' q = Some t'"
    and "det_rep (rm_sessions g) (qt_DLDetector t)" "sess (rm_sessions g) (qt_DLDetector t) i \<noteq> None"
  shows "det_rep (rm_sessions g') (qt_DLDetector t') \<and> sess (rm_sessions g') (qt_DLDetector t') i \<noteq> None"
  using assms by (auto simp: runs_with_def waits_on_def split: if_splits)

lemma ready_kept:
  assumes rb: "ready cf g q mem core L b" and ne: "b \<noteq> a"
    and out: "if disp then runs_with cf g q a g' else waits_on g a g'"
    and wf: "pool_wf (getResourceQueueRatioIndex (rm_mgr g) (ratio_of mem core)) (rm_pool g')" and k: "kept g q a g'"
    and hosts: "same_hosts (cf_resolve cf) (rm_pool g) (rm_pool g')"
  shows "ready cf g' q mem core L b"
proof -
  obtain c t names where c: "conn_at g b = Some c" "rm_tracks g q = Some t" "ct_SegMemoryMB c = mem" "ct_SegCore c = core"
    and ok: "query_ok cf g t c names L" using rb by (auto simp: ready_def)
  obtain t' where t': "rm_tracks g' q = Some t'" using k by (auto simp: kept_def)
  have c': "conn_at g' b = Some c" and m: "rm_mgr g' = rm_mgr g" using k ne c(1) by (simp_all add: kept_def)
  have o: "det_rep (rm_sessions g) (qt_DLDetector t)" "sess (rm_sessions g) (qt_DLDetector t) (sid_of c) \<noteq> None"
    "cache_inv (rm_pool g)" "args_ok (alloc_args c names)" "hosts_apart (cf_resolve cf) (rm_pool g) (alloc_args c names)"
    using ok pool_wf_cache by (auto simp: query_ok_def)
  note S = sessions_kept [OF out c(2) t' o(1,2)]
  have H: "hosts_apart (cf_resolve cf) (rm_pool g') (alloc_args c names)"
    using hosts_apart_same [OF hosts o(3)] o(4,5) by (simp add: args_ok_def)
  have I: "length (st_Info (sr_Stat s)) \<le> L" if s: "rp_heap (rm_pool g') x = Some s" for x s
  proof -
    obtain s0 where s0: "rp_heap (rm_pool g) x = Some s0" "sr_Stat s0 = sr_Stat s" using stats_kept [OF out, of x] s by (cases "rp_heap (rm_pool g) x") auto
    have "length (st_Info (sr_Stat s0)) \<le> L" using ok s0(1) by (simp add: query_ok_def)
    then show ?thesis by (simp add: s0(2))
  qed
  have "query_ok cf g' t' c names L"
    using ok wf S H I c(3,4) m unfolding query_ok_def by auto
  then show ?thesis using c' t' c(3,4) by (auto simp: ready_def)
qed

abbreviation actual_at :: "RMState \<Rightarrow> addr \<Rightarrow> int" where
  "actual_at g a \<equiv> ct_SegNumActual (the (conn_at g a))"

text \<open>What becomes of a query: it runs, with at most \<open>n\<close> virtual segments, or it waits on and holds nothing.\<close>

definition outcome :: "bool \<Rightarrow> int \<Rightarrow> ConnectionTrack \<Rightarrow> ConnectionTrack \<Rightarrow> bool" where
  "outcome disp n c c' \<longleftrightarrow>
     (if disp
      then ct_Progress c' = CONN_PP_RESOURCE_QUEUE_ALLOC_DONE \<and> ct_SegNumMin c \<le> ct_SegNumActual c' \<and>
        ct_SegNumActual c' \<le> n \<and> ct_SegNumActual c' = int (length (vseg_hosts (ct_Resource c')))
      else ct_Progress c' = ct_Progress c \<and> ct_Resource c' = [])"

text \<open>The state after the queries \<open>rs\<close> of \<open>xs\<close> have got resource.\<close>

definition served :: "RMState \<Rightarrow> addr \<Rightarrow> int \<Rightarrow> addr list \<Rightarrow> addr list \<Rightarrow> RMState \<Rightarrow> bool" where
  "served g q mem xs rs g' \<longleftrightarrow>
     (\<exists>t t'. rm_tracks g q = Some t \<and> rm_tracks g' q = Some t' \<and> qt_QueueInfo t' = qt_QueueInfo t \<and>
        qt_TotalAllocated t' = qt_TotalAllocated t \<and> qt_QueryResRequests t' = qt_QueryResRequests t \<and>
        qt_NumOfRunningQueries t' = qt_NumOfRunningQueries t + int (length rs) \<and>
        rb_MemoryMB (qt_TotalUsed t') = rb_MemoryMB (qt_TotalUsed t) + mem * (\<Sum>a\<leftarrow>rs. actual_at g' a)) \<and>
     (\<forall>x. x \<noteq> q \<longrightarrow> rm_tracks g' x = rm_tracks g x) \<and> ConnToSend (rm_conns g') = ConnToSend (rm_conns g) @ rs \<and>
     (\<forall>a. a \<notin> set xs \<longrightarrow> conn_at g' a = conn_at g a) \<and>
     (\<forall>a \<in> set xs. \<exists>c c'. conn_at g a = Some c \<and> conn_at g' a = Some c' \<and> outcome (a \<in> set rs) (ct_SegNumActual c) c c')"

lemma served_none: "\<forall>a \<in> set xs. ready cf g q mem core L a \<Longrightarrow> rm_tracks g q \<noteq> None \<Longrightarrow> served g q mem xs [] g"
  by (auto simp: served_def outcome_def ready_def query_ok_def)

lemma served_wait:
  assumes w: "waits_on g a g1" and k: "kept g q a g1" and s: "served g1 q mem xs rs g'" and a: "a \<notin> set xs" "set rs \<subseteq> set xs"
  shows "served g q mem (a # xs) rs g'"
proof -
  have tr: "rm_tracks g1 = rm_tracks g" "ConnToSend (rm_conns g1) = ConnToSend (rm_conns g)" using w by (auto simp: waits_on_def)
  obtain c c1 where c: "conn_at g a = Some c" "conn_at g1 a = Some c1" "ct_Resource c1 = []" "ct_Progress c1 = ct_Progress c"
    using w by (auto simp: waits_on_def)
  have "a \<notin> set rs" using a by blast
  moreover have "conn_at g1 b = conn_at g b" if "b \<noteq> a" for b using k that by (simp add: kept_def)
  moreover from this have "conn_at g1 b = conn_at g b" if "b \<in> set xs" for b using a(1) that by metis
  ultimately show ?thesis using s c a(1) unfolding served_def tr by (auto simp: outcome_def)
qed

lemma served_run:
  assumes r: "runs_with cf g q a g1" and k: "kept g q a g1" and s: "served g1 q mem xs rs g'" and a: "a \<notin> set xs"
    and mem: "\<forall>c. conn_at g a = Some c \<longrightarrow> ct_SegMemoryMB c = mem" and rs: "set rs \<subseteq> set xs"
  shows "served g q mem (a # xs) (a # rs) g'"
proof -
  obtain c t c1 t1 where c: "conn_at g a = Some c" "rm_tracks g q = Some t" "conn_at g1 a = Some c1" "rm_tracks g1 q = Some t1"
    and n: "ct_SegNumMin c \<le> ct_SegNumActual c1" "ct_SegNumActual c1 \<le> ct_SegNumActual c" "ct_SegNumActual c1 = int (length (vseg_hosts (ct_Resource c1)))"
      "ct_Progress c1 = CONN_PP_RESOURCE_QUEUE_ALLOC_DONE"
      "qt_TotalUsed t1 = addResourceBundleData (qt_TotalUsed t) (ct_SegMemoryMB c * ct_SegNumActual c1) (ct_SegCore c * of_int (ct_SegNumActual c1))"
      "qt_NumOfRunningQueries t1 = qt_NumOfRunningQueries t + 1" "ConnToSend (rm_conns g1) = ConnToSend (rm_conns g) @ [a]"
    using r unfolding runs_with_def by blast
  have K: "conn_at g1 b = conn_at g b" if "b \<noteq> a" for b using k that by (simp add: kept_def)
  have q: "qt_QueueInfo t1 = qt_QueueInfo t" "qt_TotalAllocated t1 = qt_TotalAllocated t" "qt_QueryResRequests t1 = qt_QueryResRequests t"
    using k c by (auto simp: kept_def)
  obtain t' where t': "rm_tracks g' q = Some t'" "qt_QueueInfo t' = qt_QueueInfo t1" "qt_TotalAllocated t' = qt_TotalAllocated t1"
    "qt_QueryResRequests t' = qt_QueryResRequests t1" "qt_NumOfRunningQueries t' = qt_NumOfRunningQueries t1 + int (length rs)"
    "rb_MemoryMB (qt_TotalUsed t') = rb_MemoryMB (qt_TotalUsed t1) + mem * (\<Sum>a\<leftarrow>rs. actual_at g' a)"
    using s c(4) by (auto simp: served_def)
  have c': "conn_at g' a = Some c1" using s a c(3) by (simp add: served_def)
  have m: "ct_SegMemoryMB c = mem" using mem c(1) by simp
  have used: "rb_MemoryMB (qt_TotalUsed t') = rb_MemoryMB (qt_TotalUsed t) + mem * (\<Sum>a\<leftarrow>a # rs. actual_at g' a)"
    using t'(6) n(5) c' by (simp add: addResourceBundleData_def m distrib_left)
  have conns: "\<exists>c c'. conn_at g b = Some c \<and> conn_at g' b = Some c' \<and> outcome (b \<in> set (a # rs)) (ct_SegNumActual c) c c'" if b: "b \<in> set (a # xs)" for b
  proof (cases "b = a")
    case True
    then show ?thesis using c c' n by (auto simp: outcome_def)
  next
    case False
    have "b \<in> set xs" using b False by simp
    then have "\<exists>c c'. conn_at g1 b = Some c \<and> conn_at g' b = Some c' \<and> outcome (b \<in> set rs) (ct_SegNumActual c) c c'" using s unfolding served_def by blast
    then show ?thesis using K [OF False] False by simp
  qed
  have rest: "\<forall>b. b \<notin> set (a # xs) \<longrightarrow> conn_at g' b = conn_at g b" "\<forall>x. x \<noteq> q \<longrightarrow> rm_tracks g' x = rm_tracks g x"
    "ConnToSend (rm_conns g') = ConnToSend (rm_conns g) @ a # rs"
    using s K k n(7) by (auto simp: served_def kept_def)
  show ?thesis unfolding served_def using c(2) t' q used conns rest n(6) by auto
qed

lemma dispatch_loop:
  "\<forall>a \<in> set xs. ready cf g q mem core L a \<Longrightarrow> rm_tracks g q \<noteq> None \<Longrightarrow> distinct xs \<Longrightarrow> cf_force_fifo_queue cf \<longrightarrow> ys = [] \<Longrightarrow>
   \<exists>rs g'. dispatchLoop cf q (length xs) (xs @ ys) g = Some (ys @ filter (\<lambda>a. a \<notin> set rs) xs, g') \<and>
     subseq rs xs \<and> served g q mem xs rs g'"
proof (induction xs arbitrary: g ys)
  case Nil
  then show ?case using served_none [of "[]"] by auto
next
  case (Cons a xs)
  obtain c t names where c: "conn_at g a = Some c" "rm_tracks g q = Some t" "ct_SegMemoryMB c = mem" "ct_SegCore c = core" "query_ok cf g t c names L"
    using Cons.prems(1) by (auto simp: ready_def)
  obtain disp g1 where d: "dispatchToQuery cf g q a = Some (disp, g1)" "if disp then runs_with cf g q a g1 else waits_on g a g1"
    "pool_wf (ridx_of g c) (rm_pool g1)" "kept g q a g1" "same_hosts (cf_resolve cf) (rm_pool g) (rm_pool g1)"
    by (rule query_dispatched [OF c(1,2,5)])
  have a: "a \<notin> set xs" "distinct xs" using Cons.prems(3) by simp_all
  have r: "ready cf g1 q mem core L b" if "b \<in> set xs" for b
    by (rule ready_kept [OF _ _ d(2) d(3) [unfolded c(3,4)] d(4,5)]) (use Cons.prems(1) a that in auto)
  have q1: "rm_tracks g1 q \<noteq> None" using d(4) by (auto simp: kept_def)
  show ?case
  proof (cases "\<not> disp \<and> cf_force_fifo_queue cf")
    case True
    have "served g q mem (a # xs) [] g1"
      by (rule served_wait [OF _ d(4) served_none [OF _ q1]]) (use d(2) True r a in auto)
    then show ?thesis using True d(1) Cons.prems(4) by (intro exI [of _ "[]"] exI [of _ g1]) simp
  next
    case go: False
    define ys1 where "ys1 = (if disp then ys else ys @ [a])"
    have "cf_force_fifo_queue cf \<longrightarrow> ys1 = []" using go Cons.prems(4) by (auto simp: ys1_def)
    from Cons.IH [OF _ q1 a(2) this] r obtain rs g' where
      R: "dispatchLoop cf q (length xs) (xs @ ys1) g1 = Some (ys1 @ filter (\<lambda>a. a \<notin> set rs) xs, g')" "subseq rs xs" "served g1 q mem xs rs g'"
      by blast
    have sub: "set rs \<subseteq> set xs" using R(2) by (auto elim: list_emb_set)
    show ?thesis
    proof (cases disp)
      case True
      have f: "filter (\<lambda>b. b \<notin> set (a # rs)) (a # xs) = filter (\<lambda>b. b \<notin> set rs) xs" using a(1) by (auto intro: filter_cong)
      have "served g q mem (a # xs) (a # rs) g'"
        by (rule served_run [OF _ d(4) R(3) a(1) _ sub]) (use d(2) True c in auto)
      then show ?thesis using R(1,2) d(1) True unfolding ys1_def
        by (intro exI [of _ "a # rs"] exI [of _ g']) (simp only: f, simp)
    next
      case False
      have "served g q mem (a # xs) rs g'"
        by (rule served_wait [OF _ d(4) R(3) a(1) sub]) (use d(2) False in auto)
      then show ?thesis using R(1,2) d(1) False go sub a(1) unfolding ys1_def
        by (intro exI [of _ rs] exI [of _ g']) auto
    qed
  qed
qed

section \<open>What the queries are offered\<close>

text \<open>A query that waits in the queue with the quota of the queue, and that can be served with every number of virtual
  segments between its minimum and what it asked for.\<close>

definition waiting :: "RMConfig \<Rightarrow> RMState \<Rightarrow> DynResourceQueueTrack \<Rightarrow> nat \<Rightarrow> addr \<Rightarrow> bool" where
  "waiting cf g t L a \<longleftrightarrow> (\<exists>c names. conn_at g a = Some c \<and> ct_SegNumMin c \<le> ct_SegNum c \<and>
     ct_SegMemoryMB c = rq_SegResourceQuotaMemoryMB (qt_QueueInfo t) \<and> ct_SegCore c = rq_SegResourceQuotaVCore (qt_QueueInfo t) \<and>
     (\<forall>n. ct_SegNumMin c \<le> n \<and> n \<le> ct_SegNum c \<longrightarrow> query_ok cf g t (c\<lparr>ct_SegNumActual := n\<rparr>) names L))"

lemma waiting_pos:
  assumes "waiting cf g t L a"
  shows "conn_at g a \<noteq> None" "0 < min_at g a" "0 < rq_SegResourceQuotaMemoryMB (qt_QueueInfo t)"
    "ct_Resource (the (conn_at g a)) = []"
proof -
  obtain c names where c: "conn_at g a = Some c" "ct_SegMemoryMB c = rq_SegResourceQuotaMemoryMB (qt_QueueInfo t)"
    "query_ok cf g t (c\<lparr>ct_SegNumActual := ct_SegNumMin c\<rparr>) names L"
    using assms by (auto simp: waiting_def)
  from c(3) have q: "0 < ct_SegNumMin c" "0 \<le> ct_SegMemoryMB c" "(word_of_int (ct_SegMemoryMB c) :: uint32) \<noteq> 0"
    by (auto simp: query_ok_def args_ok_def alloc_args_def)
  show "conn_at g a \<noteq> None" "0 < min_at g a" "ct_Resource (the (conn_at g a)) = []" using c(1,3) q(1) by (simp_all add: query_ok_def)
  show "0 < rq_SegResourceQuotaMemoryMB (qt_QueueInfo t)" using q(2,3) c(2) by (cases "ct_SegMemoryMB c = 0") simp_all
qed

lemma query_ok_cong:
  "query_ok cf g t c names L \<Longrightarrow> rm_mgr g' = rm_mgr g \<Longrightarrow> rm_pool g' = rm_pool g \<Longrightarrow> rm_sessions g' = rm_sessions g \<Longrightarrow>
   qt_DLDetector t' = qt_DLDetector t \<Longrightarrow> query_ok cf g' t' c names L"
  by (simp add: query_ok_def)

lemma sum_offers:
  assumes "\<And>i. i < length xs \<Longrightarrow> f (xs ! i) = m (xs ! i) + (s i :: int)"
  shows "(\<Sum>a\<leftarrow>xs. f a) = (\<Sum>a\<leftarrow>xs. m a) + (\<Sum>i<length xs. s i)"
  using assms by (simp add: sum_list_sum_nth atLeast0LessThan flip: sum.distrib)

text \<open>The round robin gives every query a number between its minimum and what it asked for.\<close>

lemma offer_shares:
  assumes td: "todisp \<noteq> []" "distinct todisp" and left: "0 \<le> left"
    and w: "\<And>b. b \<in> set todisp \<Longrightarrow> \<exists>c. conn_at g b = Some c \<and> conn_at g2 b = Some (c\<lparr>ct_SegNumActual := ct_SegNumMin c\<rparr>) \<and> ct_SegNumMin c \<le> ct_SegNum c"
  obtains g3 where "distributeSegs todisp 0 left 0 g2 = Some g3"
    "rm_tracks g3 = rm_tracks g2" "rm_pool g3 = rm_pool g2" "rm_mgr g3 = rm_mgr g2" "rm_sessions g3 = rm_sessions g2"
    "ConnToSend (rm_conns g3) = ConnToSend (rm_conns g2)"
    "\<forall>b. b \<notin> set todisp \<longrightarrow> conn_at g3 b = conn_at g2 b"
    "\<forall>b \<in> set todisp. \<exists>c n. conn_at g b = Some c \<and> conn_at g3 b = Some (c\<lparr>ct_SegNumActual := n\<rparr>) \<and> ct_SegNumMin c \<le> n \<and> n \<le> ct_SegNum c"
    "(\<Sum>b\<leftarrow>todisp. actual_at g3 b) \<le> (\<Sum>b\<leftarrow>todisp. min_at g b) + left"
proof -
  have "\<forall>b \<in> set todisp. \<exists>c. conn_at g2 b = Some c \<and> ct_SegNumActual c \<le> ct_SegNum c" using w by fastforce
  from round_robin [OF td left this] obtain g3 R j where d: "distributeSegs todisp 0 left 0 g2 = Some g3" "0 \<le> R"
    and ws: "with_shares g2 todisp (fair_share (wanted g2 todisp) R j) g3"
    and sum: "(\<Sum>i<length todisp. fair_share (wanted g2 todisp) R j i) = min left (\<Sum>i<length todisp. wanted g2 todisp i)" by auto
  let ?s = "fair_share (wanted g2 todisp) R j"
  have offer: "\<exists>c. conn_at g (todisp ! i) = Some c \<and> conn_at g3 (todisp ! i) = Some (c\<lparr>ct_SegNumActual := ct_SegNumMin c + ?s i\<rparr>) \<and>
      0 \<le> ?s i \<and> ct_SegNumMin c + ?s i \<le> ct_SegNum c" if i: "i < length todisp" for i
  proof -
    obtain c where c: "conn_at g (todisp ! i) = Some c" "conn_at g2 (todisp ! i) = Some (c\<lparr>ct_SegNumActual := ct_SegNumMin c\<rparr>)"
      "ct_SegNumMin c \<le> ct_SegNum c" using w [OF nth_mem [OF i]] by blast
    have "wanted g2 todisp i = ct_SegNum c - ct_SegNumMin c" using i c(2) by (simp add: wanted_def)
    then have "0 \<le> ?s i" "?s i \<le> ct_SegNum c - ct_SegNumMin c" using c(3) d(2) by (simp_all add: fair_share_def)
    moreover have "conn_at g3 (todisp ! i) = Some (c\<lparr>ct_SegNumActual := ct_SegNumMin c + ?s i\<rparr>)" using ws i c(2) by (simp add: with_shares_def)
    ultimately show ?thesis using c(1) by simp
  qed
  show ?thesis
  proof (rule that [OF d(1)])
    show "\<forall>b \<in> set todisp. \<exists>c n. conn_at g b = Some c \<and> conn_at g3 b = Some (c\<lparr>ct_SegNumActual := n\<rparr>) \<and> ct_SegNumMin c \<le> n \<and> n \<le> ct_SegNum c"
      unfolding all_set_conv_all_nth using offer by fastforce
  next
    have "actual_at g3 (todisp ! i) = min_at g (todisp ! i) + ?s i" if "i < length todisp" for i using offer [OF that] by auto
    from sum_offers [of todisp "actual_at g3" "min_at g" ?s, OF this] sum
    show "(\<Sum>b\<leftarrow>todisp. actual_at g3 b) \<le> (\<Sum>b\<leftarrow>todisp. min_at g b) + left" by simp
  qed (use ws in \<open>auto simp: with_shares_def\<close>)
qed

lemma offers:
  assumes t: "rm_tracks g q = Some t" and reqs: "qt_QueryResRequests t = a # as" "distinct (a # as)"
    and wait: "\<forall>b \<in> set (a # as). waiting cf g t L b"
    and slot: "qt_NumOfRunningQueries t < rq_ParallelCount (qt_QueueInfo t)"
  defines "mem \<equiv> rq_SegResourceQuotaMemoryMB (qt_QueueInfo t)" and "core \<equiv> rq_SegResourceQuotaVCore (qt_QueueInfo t)"
    and "avail \<equiv> rb_MemoryMB (qt_TotalAllocated t) - rb_MemoryMB (qt_TotalUsed t)"
  assumes fits: "min_at g a * mem \<le> avail"
  obtains k g' where
    "dispatchResourceToQueries_EVEN cf g q = do {
       (todisp, g) \<leftarrow> dispatchLoop cf q k (take k (a # as)) g';
       t \<leftarrow> rm_tracks g q;
       Some (put_track1 g q (t\<lparr>qt_QueryResRequests := todisp @ qt_QueryResRequests t\<rparr>)) }"
    "k \<le> length (a # as)" "int k + qt_NumOfRunningQueries t \<le> rq_ParallelCount (qt_QueueInfo t)"
    "rm_tracks g' = (rm_tracks g)(q \<mapsto> t\<lparr>qt_QueryResRequests := drop k (a # as)\<rparr>)"
    "ConnToSend (rm_conns g') = ConnToSend (rm_conns g)"
    "\<forall>b \<in> set (take k (a # as)). ready cf g' q mem core L b"
    "\<forall>b \<in> set (take k (a # as)). \<exists>c n. conn_at g b = Some c \<and> conn_at g' b = Some (c\<lparr>ct_SegNumActual := n\<rparr>) \<and> ct_SegNumMin c \<le> n \<and> n \<le> ct_SegNum c"
    "\<forall>b. b \<notin> set (take k (a # as)) \<longrightarrow> conn_at g' b = conn_at g b"
    "mem * (\<Sum>b\<leftarrow>take k (a # as). actual_at g' b) \<le> avail"
proof -
  define reqs where "reqs = a # as"
  have e: "rq_SegResourceQuotaMemoryMB (qt_QueueInfo t) = mem" "rb_MemoryMB (qt_TotalAllocated t) - rb_MemoryMB (qt_TotalUsed t) = avail"
    "qt_QueryResRequests t = reqs"
    by (simp_all add: mem_def avail_def reqs_def reqs(1))
  have mem: "0 < mem" and min: "0 < min_at g a" using waiting_pos [of cf g t L a] wait by (simp_all add: mem_def)
  have av: "0 \<le> avail" using fits mult_nonneg_nonneg [of "min_at g a" mem] mem min by linarith
  have head: "0 + min_at g a \<le> avail div mem" using zdiv_mono1 [OF fits mem] mem by simp
  have conns: "\<forall>b \<in> set reqs. conn_at g b \<noteq> None \<and> 0 < min_at g b" using wait waiting_pos unfolding reqs_def by blast
  obtain k where k: "countDispatchable g t (avail div mem) 0 0 reqs = Some (0 + int k)" "k \<le> length reqs" "0 < 0 + int k"
    "0 + (\<Sum>a\<leftarrow>take k reqs. min_at g a) \<le> avail div mem" "0 + int k + qt_NumOfRunningQueries t \<le> rq_ParallelCount (qt_QueueInfo t)"
    using count_spec [of reqs g 0 "avail div mem" 0 t] conns slot head av mem by (auto simp: pos_imp_zdiv_nonneg_iff reqs_def)
  define todisp where "todisp = take k reqs"
  define left where "left = avail div mem - (\<Sum>a\<leftarrow>todisp. min_at g a)"
  obtain h where h: "takeToDispatch g (avail div mem) k reqs = Some (todisp, drop k reqs, left, g\<lparr>rm_conns := (rm_conns g)\<lparr>ct_heap := h\<rparr>\<rparr>)"
    "h = offered_min g (set todisp)"
    using take_spec [OF reqs(2) k(2) [unfolded reqs_def], of g "avail div mem"] conns unfolding todisp_def left_def reqs_def by blast
  define t2 where "t2 = t\<lparr>qt_QueryResRequests := drop k reqs\<rparr>"
  define g2 where "g2 = put_track1 (g\<lparr>rm_conns := (rm_conns g)\<lparr>ct_heap := h\<rparr>\<rparr>) q t2"
  have g2: "conn_at g2 = h" "rm_pool g2 = rm_pool g" "rm_mgr g2 = rm_mgr g" "rm_sessions g2 = rm_sessions g"
    "rm_tracks g2 = (rm_tracks g)(q \<mapsto> t2)" "ConnToSend (rm_conns g2) = ConnToSend (rm_conns g)"
    by (simp_all add: g2_def put_track1_def)
  have td: "todisp \<noteq> []" "distinct todisp" "0 \<le> left"
    using k(3,4) reqs(2) by (simp_all add: todisp_def reqs_def left_def distinct_take del: take_Suc_Cons)
  have wt: "waiting cf g t L b" if "b \<in> set todisp" for b using wait that in_set_takeD unfolding todisp_def reqs_def by metis
  have w: "\<exists>c. conn_at g b = Some c \<and> conn_at g2 b = Some (c\<lparr>ct_SegNumActual := ct_SegNumMin c\<rparr>) \<and> ct_SegNumMin c \<le> ct_SegNum c"
    if b: "b \<in> set todisp" for b using wt [OF b] b by (auto simp: waiting_def g2(1) h(2) offered_min_def)
  obtain g3 where g3: "distributeSegs todisp 0 left 0 g2 = Some g3"
    "rm_tracks g3 = rm_tracks g2" "rm_pool g3 = rm_pool g2" "rm_mgr g3 = rm_mgr g2" "rm_sessions g3 = rm_sessions g2"
    "ConnToSend (rm_conns g3) = ConnToSend (rm_conns g2)" "\<forall>b. b \<notin> set todisp \<longrightarrow> conn_at g3 b = conn_at g2 b"
    and offer: "\<forall>b \<in> set todisp. \<exists>c n. conn_at g b = Some c \<and> conn_at g3 b = Some (c\<lparr>ct_SegNumActual := n\<rparr>) \<and> ct_SegNumMin c \<le> n \<and> n \<le> ct_SegNum c"
    and sum: "(\<Sum>b\<leftarrow>todisp. actual_at g3 b) \<le> (\<Sum>b\<leftarrow>todisp. min_at g b) + left"
    by (rule offer_shares [OF td w])
  have rdy: "ready cf g3 q mem core L b" if b: "b \<in> set todisp" for b
  proof -
    obtain c n where c: "conn_at g b = Some c" "conn_at g3 b = Some (c\<lparr>ct_SegNumActual := n\<rparr>)" "ct_SegNumMin c \<le> n" "n \<le> ct_SegNum c"
      using offer b by blast
    with wt [OF b] obtain names where "query_ok cf g t (c\<lparr>ct_SegNumActual := n\<rparr>) names L" "ct_SegMemoryMB c = mem" "ct_SegCore c = core"
      by (auto simp: waiting_def mem_def core_def)
    then show ?thesis
      using query_ok_cong [of cf g t "c\<lparr>ct_SegNumActual := n\<rparr>" names L g3 t2] g3 g2 c(2) by (auto simp: ready_def t2_def)
  qed
  show ?thesis
  proof (rule that [of k g3], unfold reqs_def [symmetric] todisp_def [symmetric])
    show "dispatchResourceToQueries_EVEN cf g q = do {
       (todisp, g) \<leftarrow> dispatchLoop cf q k todisp g3;
       t \<leftarrow> rm_tracks g q;
       Some (put_track1 g q (t\<lparr>qt_QueryResRequests := todisp @ qt_QueryResRequests t\<rparr>)) }"
      using t k(1,3) h(1) g3(1) [unfolded g2_def t2_def] mem c_div_nonneg [OF av, of mem] e by (simp add: dispatchResourceToQueries_EVEN_def)
    have "mem * (\<Sum>b\<leftarrow>todisp. actual_at g3 b) \<le> mem * (avail div mem)" using sum mem by (simp add: left_def)
    also have "\<dots> \<le> avail" using c_div_mult_le [OF av mem] av mem by (simp add: mult.commute)
    finally show "mem * (\<Sum>b\<leftarrow>todisp. actual_at g3 b) \<le> avail" .
  qed (use k g3 g2 rdy offer in \<open>auto simp: t2_def h(2) offered_min_def\<close>)
qed

lemma subseq_sum: "subseq rs xs \<Longrightarrow> \<forall>x \<in> set xs. 0 \<le> f x \<Longrightarrow> (\<Sum>x\<leftarrow>rs. f x) \<le> (\<Sum>x\<leftarrow>xs. f x :: int)"
proof (induction rule: list_emb.induct)
  case (list_emb_Nil ys)
  then show ?case by (auto intro!: sum_list_nonneg)
qed auto

lemma served_sum:
  assumes s: "served g q mem xs rs g'" and rs: "subseq rs xs" and pos: "\<forall>b \<in> set xs. 0 \<le> actual_at g b"
  shows "(\<Sum>b\<leftarrow>rs. actual_at g' b) \<le> (\<Sum>b\<leftarrow>xs. actual_at g b)"
proof -
  have "actual_at g' b \<le> actual_at g b" if "b \<in> set rs" for b
  proof -
    have "b \<in> set xs" using rs that by (auto elim: list_emb_set)
    then show ?thesis using s that by (fastforce simp: served_def outcome_def)
  qed
  then have "(\<Sum>b\<leftarrow>rs. actual_at g' b) \<le> (\<Sum>b\<leftarrow>rs. actual_at g b)" by (rule sum_list_mono)
  also have "\<dots> \<le> (\<Sum>b\<leftarrow>xs. actual_at g b)" by (rule subseq_sum [OF rs pos])
  finally show ?thesis .
qed

lemma answered:
  assumes s: "served g1 q mem xs rs g2" and sub: "set rs \<subseteq> set xs" and w: "waiting cf g t L b"
    and offer: "b \<in> set xs \<Longrightarrow> \<exists>c n. conn_at g b = Some c \<and> conn_at g1 b = Some (c\<lparr>ct_SegNumActual := n\<rparr>) \<and> ct_SegNumMin c \<le> n \<and> n \<le> ct_SegNum c"
    and others: "b \<notin> set xs \<Longrightarrow> conn_at g1 b = conn_at g b"
  shows "\<exists>c c'. conn_at g b = Some c \<and> conn_at g2 b = Some c' \<and> outcome (b \<in> set rs) (ct_SegNum c) c c'"
proof (cases "b \<in> set xs")
  case True
  then obtain c n where c: "conn_at g b = Some c" "conn_at g1 b = Some (c\<lparr>ct_SegNumActual := n\<rparr>)" "n \<le> ct_SegNum c" using offer by blast
  have "\<exists>c1 c'. conn_at g1 b = Some c1 \<and> conn_at g2 b = Some c' \<and> outcome (b \<in> set rs) (ct_SegNumActual c1) c1 c'"
    using s True unfolding served_def by blast
  then show ?thesis using c by (auto simp: outcome_def split: if_splits)
next
  case False
  then have "conn_at g2 b = conn_at g b" "b \<notin> set rs" using s others sub by (auto simp: served_def)
  then show ?thesis using waiting_pos(1,4) [OF w] by (auto simp: outcome_def)
qed

text \<open>C1: the dispatch of the resource of a queue to its queries.  When a slot is free and the first query fits, the
  dispatch ends.  The queries that get resource are among the waiting ones; they leave the queue, the others stay
  in their order, and the responses are sent in the order of the queue.  Every query that runs has at least its
  minimum and at most what it asked for, the others hold nothing.  The queue never runs more queries than it
  may, it accounts for exactly the virtual segments of its queries, and it uses at most what it was allocated.
  Nothing changes for the other queues and connections.\<close>

theorem queue_dispatch_correct:
  assumes "rm_tracks g q = Some t" "qt_QueryResRequests t = a # as" "distinct (a # as)" "\<forall>b \<in> set (a # as). waiting cf g t L b"
    and "qt_NumOfRunningQueries t < rq_ParallelCount (qt_QueueInfo t)"
    and "min_at g a * rq_SegResourceQuotaMemoryMB (qt_QueueInfo t) \<le> rb_MemoryMB (qt_TotalAllocated t) - rb_MemoryMB (qt_TotalUsed t)"
  shows "\<exists>g' t' rs. dispatchResourceToQueries_EVEN cf g q = Some g' \<and> rm_tracks g' q = Some t' \<and> subseq rs (a # as) \<and>
    qt_QueryResRequests t' = filter (\<lambda>b. b \<notin> set rs) (a # as) \<and> ConnToSend (rm_conns g') = ConnToSend (rm_conns g) @ rs \<and>
    (\<forall>b \<in> set (a # as). \<exists>c c'. conn_at g b = Some c \<and> conn_at g' b = Some c' \<and> outcome (b \<in> set rs) (ct_SegNum c) c c') \<and>
    qt_NumOfRunningQueries t' = qt_NumOfRunningQueries t + int (length rs) \<and> qt_NumOfRunningQueries t' \<le> rq_ParallelCount (qt_QueueInfo t) \<and>
    rb_MemoryMB (qt_TotalUsed t') = rb_MemoryMB (qt_TotalUsed t) + rq_SegResourceQuotaMemoryMB (qt_QueueInfo t) * (\<Sum>b\<leftarrow>rs. actual_at g' b) \<and>
    rb_MemoryMB (qt_TotalUsed t') \<le> rb_MemoryMB (qt_TotalAllocated t') \<and> qt_TotalAllocated t' = qt_TotalAllocated t \<and>
    (\<forall>x. x \<noteq> q \<longrightarrow> rm_tracks g' x = rm_tracks g x) \<and> (\<forall>b. b \<notin> set (a # as) \<longrightarrow> conn_at g' b = conn_at g b)"
proof -
  define reqs mem where "reqs = a # as" and "mem = rq_SegResourceQuotaMemoryMB (qt_QueueInfo t)"
  obtain k g1 where run: "dispatchResourceToQueries_EVEN cf g q = do {
       (todisp, g) \<leftarrow> dispatchLoop cf q k (take k reqs) g1;
       t \<leftarrow> rm_tracks g q;
       Some (put_track1 g q (t\<lparr>qt_QueryResRequests := todisp @ qt_QueryResRequests t\<rparr>)) }"
    and k: "k \<le> length reqs" "int k + qt_NumOfRunningQueries t \<le> rq_ParallelCount (qt_QueueInfo t)"
    and g1: "rm_tracks g1 = (rm_tracks g)(q \<mapsto> t\<lparr>qt_QueryResRequests := drop k reqs\<rparr>)" "ConnToSend (rm_conns g1) = ConnToSend (rm_conns g)"
      "\<forall>b \<in> set (take k reqs). ready cf g1 q mem (rq_SegResourceQuotaVCore (qt_QueueInfo t)) L b"
    and offer: "\<forall>b \<in> set (take k reqs). \<exists>c n. conn_at g b = Some c \<and> conn_at g1 b = Some (c\<lparr>ct_SegNumActual := n\<rparr>) \<and> ct_SegNumMin c \<le> n \<and> n \<le> ct_SegNum c"
      "\<forall>b. b \<notin> set (take k reqs) \<longrightarrow> conn_at g1 b = conn_at g b"
      "mem * (\<Sum>b\<leftarrow>take k reqs. actual_at g1 b) \<le> rb_MemoryMB (qt_TotalAllocated t) - rb_MemoryMB (qt_TotalUsed t)"
    unfolding reqs_def mem_def by (rule offers [OF assms])
  define xs where "xs = take k reqs"
  have xs: "distinct xs" "length xs = k" "reqs = xs @ drop k reqs" using assms(3) k(1) by (simp_all add: xs_def reqs_def [symmetric])
  obtain rs g2 where loop: "dispatchLoop cf q k xs g1 = Some (filter (\<lambda>b. b \<notin> set rs) xs, g2)" and rs: "subseq rs xs"
    and sv: "served g1 q mem xs rs g2"
    using dispatch_loop [of xs cf g1 q mem "rq_SegResourceQuotaVCore (qt_QueueInfo t)" L "[]"] g1(1,3) xs(1,2) unfolding xs_def [symmetric] by auto
  obtain t2 where t2: "rm_tracks g2 q = Some t2" "qt_TotalAllocated t2 = qt_TotalAllocated t" "qt_QueryResRequests t2 = drop k reqs"
    "qt_NumOfRunningQueries t2 = qt_NumOfRunningQueries t + int (length rs)"
    "rb_MemoryMB (qt_TotalUsed t2) = rb_MemoryMB (qt_TotalUsed t) + mem * (\<Sum>b\<leftarrow>rs. actual_at g2 b)"
    using sv g1(1) by (auto simp: served_def)
  define g' where "g' = put_track1 g2 q (t2\<lparr>qt_QueryResRequests := filter (\<lambda>b. b \<notin> set rs) xs @ drop k reqs\<rparr>)"
  have g': "conn_at g' = conn_at g2" "ConnToSend (rm_conns g') = ConnToSend (rm_conns g) @ rs"
    "rm_tracks g' q = Some (t2\<lparr>qt_QueryResRequests := filter (\<lambda>b. b \<notin> set rs) xs @ drop k reqs\<rparr>)" "\<forall>x. x \<noteq> q \<longrightarrow> rm_tracks g' x = rm_tracks g x"
    using sv g1(1,2) by (simp_all add: g'_def put_track1_def served_def)
  have sub: "set rs \<subseteq> set xs" "length rs \<le> k" using rs list_emb_length [OF rs] xs(2) by (auto elim: list_emb_set)
  have "filter (\<lambda>b. b \<notin> set rs) (drop k reqs) = drop k reqs"
    using assms(3) sub(1) unfolding reqs_def [symmetric] by (subst (asm) xs(3)) (auto intro!: filter_True)
  then have left: "filter (\<lambda>b. b \<notin> set rs) xs @ drop k reqs = filter (\<lambda>b. b \<notin> set rs) reqs" by (subst (2) xs(3)) simp
  have conns: "\<exists>c c'. conn_at g b = Some c \<and> conn_at g' b = Some c' \<and> outcome (b \<in> set rs) (ct_SegNum c) c c'" if "b \<in> set reqs" for b
    unfolding g'(1) by (rule answered [OF sv sub(1), where t = t]) (use assms(4) that offer in \<open>auto simp: reqs_def xs_def\<close>)
  have mem: "0 < mem" using waiting_pos(3) [of cf g t L a] assms(4) by (simp add: mem_def)
  have "0 \<le> actual_at g1 b" if "b \<in> set xs" for b
  proof -
    have "b \<in> set (a # as)" using that in_set_takeD unfolding xs_def reqs_def by metis
    then have "0 < min_at g b" using waiting_pos(2) [of cf g t L b] assms(4) by blast
    then show ?thesis using offer(1) that unfolding xs_def by force
  qed
  then have "mem * (\<Sum>b\<leftarrow>rs. actual_at g2 b) \<le> mem * (\<Sum>b\<leftarrow>xs. actual_at g1 b)"
    using served_sum [OF sv rs] mem by (intro mult_left_mono) simp_all
  then have used: "rb_MemoryMB (qt_TotalUsed t2) \<le> rb_MemoryMB (qt_TotalAllocated t2)" using offer(3) t2(5) unfolding xs_def t2(2) by linarith
  have rs': "subseq rs reqs" using rs by (subst xs(3)) (rule list_emb_prefix)
  have rest: "\<forall>b. b \<notin> set reqs \<longrightarrow> conn_at g' b = conn_at g b"
    using sv offer(2) unfolding served_def g'(1) xs_def by (metis in_set_takeD)
  have run': "dispatchResourceToQueries_EVEN cf g q = Some g'" using run loop t2(1,3) unfolding xs_def [symmetric] by (simp add: g'_def)
  show ?thesis
    unfolding reqs_def [symmetric] mem_def [symmetric]
    by (rule exI [of _ g'], rule exI [of _ "t2\<lparr>qt_QueryResRequests := filter (\<lambda>b. b \<notin> set rs) xs @ drop k reqs\<rparr>"], rule exI [of _ rs])
       (use run' g' rs' left conns used rest t2 k(2) sub(2) in simp)
qed

text \<open>Two queries that wait in a queue with room for two virtual segments.\<close>

definition ex_two_track :: "ResqueueDeadLockDetector \<Rightarrow> DynResourceQueueTrack" where
  "ex_two_track d = ex_track\<lparr>qt_QueueInfo := ex_queue\<lparr>rq_SegResourceQuotaVCore := 1\<rparr>, qt_QueryResRequests := [1, 2], qt_DLDetector := d\<rparr>"

definition ex_two :: "sheap \<Rightarrow> ResqueueDeadLockDetector \<Rightarrow> RMState" where
  "ex_two h d = put_track1 (put_conn (ex_waiting h d) 2 ex_query) 1 (ex_two_track d)"

lemma ex_two_waiting:
  assumes "det_inv h d" "sess h d = [7 \<mapsto> s]" "a \<in> {1, 2}"
  shows "waiting ex_config (ex_two h d) (ex_two_track d) 0 a"
proof -
  have c: "conn_at (ex_two h d) a = Some ex_query" using assms(3) by (auto simp: ex_two_def ex_waiting_def)
  have "query_ok ex_config (ex_two h d) (ex_two_track d) (ex_query\<lparr>ct_SegNumActual := n\<rparr>) [] 0" if "1 \<le> n" "n \<le> 3" for n
    by (rule query_ok_cong [OF ex_query_ok [OF assms(1,2), of n]]) (use that in \<open>simp_all add: ex_two_def ex_two_track_def\<close>)
  then show ?thesis unfolding waiting_def using c
    by (intro exI [of _ ex_query] exI [of _ "[]"]) (simp add: ex_query_def ex_two_track_def ex_queue_def)
qed

theorem queue_dispatch_correct_witness:
  "\<exists>g g' t' rs. qt_QueryResRequests (the (rm_tracks g 1)) = [1, 2] \<and> dispatchResourceToQueries_EVEN ex_config g 1 = Some g' \<and>
     rm_tracks g' 1 = Some t' \<and> qt_QueryResRequests t' = filter (\<lambda>b. b \<notin> set rs) [1, 2] \<and> rb_MemoryMB (qt_TotalUsed t') \<le> 2048"
proof -
  obtain h d where hd: "det_inv h d" "sess h d = [7 \<mapsto> (fresh_session 7)\<lparr>st_Locked := True\<rparr>]"
    using waiting_session [of "\<lparr>tracks = Map.empty, sbrk = 1\<rparr>" 7] by blast
  let ?g = "ex_two h d" and ?t = "ex_two_track d"
  have t: "rm_tracks ?g 1 = Some ?t" "qt_QueryResRequests ?t = [1, 2]" by (simp_all add: ex_two_def ex_two_track_def)
  have w: "\<forall>b \<in> set [1, 2]. waiting ex_config ?g ?t 0 b" using ex_two_waiting [OF hd] by simp
  have n: "qt_NumOfRunningQueries ?t < rq_ParallelCount (qt_QueueInfo ?t)"
    "min_at ?g 1 * rq_SegResourceQuotaMemoryMB (qt_QueueInfo ?t) \<le> rb_MemoryMB (qt_TotalAllocated ?t) - rb_MemoryMB (qt_TotalUsed ?t)"
    "distinct [1 :: nat, 2]"
    by (simp_all add: ex_two_track_def ex_track_def ex_queue_def ex_two_def ex_waiting_def ex_query_def)
  obtain g' t' rs where "dispatchResourceToQueries_EVEN ex_config ?g 1 = Some g'" "rm_tracks g' 1 = Some t'"
    "qt_QueryResRequests t' = filter (\<lambda>b. b \<notin> set rs) [1, 2]" "rb_MemoryMB (qt_TotalUsed t') \<le> rb_MemoryMB (qt_TotalAllocated ?t)"
    using queue_dispatch_correct [OF t n(3) w n(1,2)] by auto
  then show ?thesis using t by (intro exI [of _ ?g] exI [of _ g'] exI [of _ t'] exI [of _ rs]) (simp add: ex_two_track_def ex_track_def)
qed

end
