(* ===== verification/RM_Container.thy ===== *)
theory RM_Container
  imports RM_Queue
begin

text \<open>
  The life of a container of the global resource manager, of \<^verbatim>\<open>resourcepool.c\<close>, the memory quota messages of
  \<^verbatim>\<open>rmcomm_RM2RMSEG.c\<close> and the resource broker without a global resource manager, \<^verbatim>\<open>resourcebroker_NONE.c\<close>.  A
  container is created by the broker and waits to be accepted by its segment, is accepted, is part of the pool,
  waits to be kicked, is kicked and returned.  Where it waits for the answer of a segment it is carried by a
  message.  The checks of \<^verbatim>\<open>validateResourcePoolStatus\<close>, which many of the operations end with, have no effect as long
  as they find nothing, and are not part of the definitions.
\<close>

section \<open>The description of a segment\<close>

text \<open>A field of \<^verbatim>\<open>SegInfoData\<close>, 32 bits at an offset of the description, lowest byte first.\<close>

definition read_uint32 :: "uint8 list \<Rightarrow> nat \<Rightarrow> uint32 option" where
  "read_uint32 bs i =
     (if i + 4 \<le> length bs
      then Some (ucast (bs ! i) + push_bit 8 (ucast (bs ! (i + 1))) + push_bit 16 (ucast (bs ! (i + 2))) + push_bit 24 (ucast (bs ! (i + 3))))
      else None)"

definition string_at :: "uint8 list \<Rightarrow> nat \<Rightarrow> uint8 list option" where
  "string_at bs i = (if 0 \<in> set (drop i bs) then Some (takeWhile (\<lambda>b. b \<noteq> 0) (drop i bs)) else None)"

definition SegInfo_HostNameOffset :: nat where
  "SegInfo_HostNameOffset = 12"

definition GET_SEGINFO_HOSTNAME :: "uint8 list \<Rightarrow> uint8 list option" where
  "GET_SEGINFO_HOSTNAME info = do { offs \<leftarrow> read_uint32 info SegInfo_HostNameOffset; string_at info (unat offs) }"

section \<open>Moving containers\<close>

definition createGRMContainer :: "uint32 \<Rightarrow> int \<Rightarrow> double \<Rightarrow> uint8 list \<Rightarrow> ptr \<Rightarrow> GRMContainer" where
  "createGRMContainer i memory core hostname segres =
     \<lparr>gc_ID = sint i, gc_MemoryMB = memory, gc_Core = c_trunc core, gc_Life = 0, gc_CalcDecPending = False,
      gc_HostName = hostname, gc_Resource = segres\<rparr>"

definition addGRMContainerToKicked :: "ResourcePool \<Rightarrow> GRMContainer \<Rightarrow> ResourcePool" where
  "addGRMContainerToKicked p ctn =
     p\<lparr>KickedContainers := KickedContainers p @ [ctn], RetPendingContainerCount := RetPendingContainerCount p + 1\<rparr>"

text \<open>The set of the containers of a host; updating it through its pointer writes it back under its key.\<close>

definition host_set :: "(SimpString, GRMContainerSet) HASHTABLE \<Rightarrow> uint8 list \<Rightarrow> GRMContainerSet" where
  "host_set t host =
     (case getHASHTABLENode t (name_key host) of Some (k, Some ctns) \<Rightarrow> ctns | _ \<Rightarrow> createGRMContainerSet)"

definition add_to_host :: "(SimpString, GRMContainerSet) HASHTABLE \<Rightarrow> GRMContainer \<Rightarrow> (SimpString, GRMContainerSet) HASHTABLE" where
  "add_to_host t ctn =
     ht_set t (name_key (gc_HostName ctn)) (Some (appendGRMContainerSetContainer (host_set t (gc_HostName ctn)) ctn))"

text \<open>A container without a segment gets the one its host name leads to, or is kicked at once.\<close>

definition recognizeContainer :: "resolver \<Rightarrow> ResourcePool \<Rightarrow> GRMContainer \<Rightarrow> drm_code \<times> GRMContainer \<times> ResourcePool" where
  "recognizeContainer resolve p ctn =
     (if gc_Resource ctn = None then
        let (res, segid, p) = getSegIDByGRMHostName resolve p (gc_HostName ctn) in
        if res \<noteq> FUNC_RETURN_OK then (res, ctn, addGRMContainerToKicked p ctn)
        else (FUNC_RETURN_OK, ctn\<lparr>gc_Resource := getSegResource p segid\<rparr>, p)
      else (FUNC_RETURN_OK, ctn, p))"

definition addGRMContainerToToBeAccepted :: "resolver \<Rightarrow> ResourcePool \<Rightarrow> GRMContainer \<Rightarrow> (drm_code \<times> ResourcePool) option" where
  "addGRMContainerToToBeAccepted resolve p ctn =
     (let (res, ctn, p) = recognizeContainer resolve p ctn in
      if res \<noteq> FUNC_RETURN_OK then Some (res, p)
      else do {
        a \<leftarrow> gc_Resource ctn;
        s \<leftarrow> rp_heap p a;
        let p = put_seg p a (s\<lparr>sr_IncPending := addResourceBundleData (sr_IncPending s) (gc_MemoryMB ctn) (of_int (gc_Core ctn))\<rparr>);
        Some (FUNC_RETURN_OK, p\<lparr>ToAcceptContainers := add_to_host (ToAcceptContainers p) ctn,
                               AddPendingContainerCount := AddPendingContainerCount p + 1\<rparr>)
      })"

definition emptied :: "GRMContainerSet \<Rightarrow> GRMContainerSet" where
  "emptied ctns = ctns\<lparr>cs_Containers := [], cs_Allocated := resetResourceBundleData (cs_Allocated ctns) 0 0 0,
     cs_Available := resetResourceBundleData (cs_Available ctns) 0 0 0\<rparr>"

definition moveGRMContainerSetToAccepted :: "ResourcePool \<Rightarrow> GRMContainerSet \<Rightarrow> GRMContainerSet \<times> ResourcePool" where
  "moveGRMContainerSetToAccepted p ctns = (emptied ctns, p\<lparr>AcceptedContainers := AcceptedContainers p @ cs_Containers ctns\<rparr>)"

definition moveGRMContainerSetToKicked :: "ResourcePool \<Rightarrow> GRMContainerSet \<Rightarrow> GRMContainerSet \<times> ResourcePool" where
  "moveGRMContainerSetToKicked p ctns = (emptied ctns, p\<lparr>KickedContainers := KickedContainers p @ cs_Containers ctns\<rparr>)"

definition addGRMContainerToToBeKicked :: "ResourcePool \<Rightarrow> GRMContainer \<Rightarrow> ResourcePool option" where
  "addGRMContainerToToBeKicked p ctn = do {
     a \<leftarrow> gc_Resource ctn;
     s \<leftarrow> rp_heap p a;
     let p = p\<lparr>ToKickContainers := add_to_host (ToKickContainers p) (ctn\<lparr>gc_CalcDecPending := True\<rparr>)\<rparr>;
     let p = put_seg p a (s\<lparr>sr_DecPending := addResourceBundleData (sr_DecPending s) (gc_MemoryMB ctn) (of_int (gc_Core ctn))\<rparr>);
     Some (p\<lparr>RetPendingContainerCount := RetPendingContainerCount p + 1\<rparr>)
   }"

text \<open>\<^verbatim>\<open>container->MemoryMB / container->Core\<close>.\<close>

definition ctn_ratio :: "GRMContainer \<Rightarrow> uint32 option" where
  "ctn_ratio ctn = (if gc_Core ctn = 0 then None else Some (of_int (c_div (gc_MemoryMB ctn) (gc_Core ctn))))"

definition reorderBoth :: "DynResourceQueueManager \<Rightarrow> ResourcePool \<Rightarrow> addr \<Rightarrow> uint32 \<Rightarrow> ResourcePool option" where
  "reorderBoth m p a ratio = do {
     (res, p) \<leftarrow> reorderSegResourceAvailIndex m p a ratio;
     (res, p) \<leftarrow> reorderSegResourceAllocIndex m p a ratio;
     Some p
   }"

definition addGRMContainerToResPool :: "DynResourceQueueManager \<Rightarrow> ResourcePool \<Rightarrow> GRMContainer \<Rightarrow> ResourcePool option" where
  "addGRMContainerToResPool m p ctn = do {
     a \<leftarrow> gc_Resource ctn;
     s \<leftarrow> rp_heap p a;
     ratio \<leftarrow> ctn_ratio ctn;
     let (res, _, s) = createAndGetGRMContainerSet m s ratio;
     ctns \<leftarrow> ctn_set s (getResourceQueueRatioIndex m ratio);
     let mem = gc_MemoryMB ctn;
     let core = of_int (gc_Core ctn);
     let s = put_ctn_set s (getResourceQueueRatioIndex m ratio) (appendGRMContainerSetContainer ctns ctn);
     let s = s\<lparr>sr_Allocated := addResourceBundleData (sr_Allocated s) mem core,
               sr_Available := addResourceBundleData (sr_Available s) mem core,
               sr_IncPending := minusResourceBundleData (sr_IncPending s) mem core,
               sr_GRMContainerCount := sr_GRMContainerCount s + 1\<rparr>;
     reorderBoth m (put_seg p a s) a ratio
   }"

definition dropGRMContainerFromResPool :: "DynResourceQueueManager \<Rightarrow> ResourcePool \<Rightarrow> GRMContainer \<Rightarrow> ResourcePool option" where
  "dropGRMContainerFromResPool m p ctn = do {
     a \<leftarrow> gc_Resource ctn;
     s \<leftarrow> rp_heap p a;
     ratio \<leftarrow> ctn_ratio ctn;
     let mem = gc_MemoryMB ctn;
     let core = of_int (gc_Core ctn);
     let s = s\<lparr>sr_Allocated := minusResourceBundleData (sr_Allocated s) mem core,
               sr_Available := minusResourceBundleData (sr_Available s) mem core\<rparr>;
     (res, p) \<leftarrow> reorderSegResourceAllocIndex m (put_seg p a s) a ratio;
     (res, p) \<leftarrow> reorderSegResourceAvailIndex m p a ratio;
     Some p
   }"

section \<open>Taking the containers of a segment out of the pool\<close>

definition ratio_at :: "DynResourceQueueManager \<Rightarrow> int \<Rightarrow> uint32 option" where
  "ratio_at m i = (if 0 \<le> i \<and> i < int (length (RatioReverseIndex m)) then Some (RatioReverseIndex m ! nat i) else None)"

text \<open>The indices of the ratios, \<^verbatim>\<open>for ( int i = 0 ; i < PQUEMGR->RatioCount ; ++i )\<close>.\<close>

definition ratio_indices :: "DynResourceQueueManager \<Rightarrow> int list" where
  "ratio_indices m = [0..RatioCount m - 1]"

text \<open>\<^verbatim>\<open>while (ctns->Containers != NULL)\<close>: every round takes one container of the set away, so that there are as many rounds
  as containers.\<close>

fun kickAll :: "addr \<Rightarrow> int \<Rightarrow> nat \<Rightarrow> ResourcePool \<Rightarrow> ResourcePool option" where
  "kickAll a i 0 p = Some p"
| "kickAll a i (Suc n) p = do {
     s \<leftarrow> rp_heap p a;
     ctns \<leftarrow> ctn_set s i;
     let (ctn, ctns) = popGRMContainerSetContainerList ctns;
     ctn \<leftarrow> ctn;
     let p = addGRMContainerToKicked p ctn;
     let s = put_ctn_set s i ctns;
     let mem = gc_MemoryMB ctn;
     let core = of_int (gc_Core ctn);
     kickAll a i n (put_seg p a (s\<lparr>sr_Allocated := minusResourceBundleData (sr_Allocated s) mem core,
                                  sr_Available := minusResourceBundleData (sr_Available s) mem core\<rparr>))
   }"

definition returnRatioFromSegment :: "DynResourceQueueManager \<Rightarrow> addr \<Rightarrow> ResourcePool \<Rightarrow> int \<Rightarrow> ResourcePool option" where
  "returnRatioFromSegment m a p i = do {
     s \<leftarrow> rp_heap p a;
     case ctn_set s i of
       None \<Rightarrow> Some p
     | Some ctns \<Rightarrow> do {
         p \<leftarrow> kickAll a i (length (cs_Containers ctns)) p;
         ratio \<leftarrow> ratio_at m i;
         (res, p) \<leftarrow> reorderSegResourceAllocIndex m p a ratio;
         (res, p) \<leftarrow> reorderSegResourceAvailIndex m p a ratio;
         Some p
       }
   }"

definition returnAllGRMResourceFromSegment :: "DynResourceQueueManager \<Rightarrow> ResourcePool \<Rightarrow> addr \<Rightarrow> ResourcePool option" where
  "returnAllGRMResourceFromSegment m p a = do {
     p \<leftarrow> fold_opt (returnRatioFromSegment m a) p (ratio_indices m);
     s \<leftarrow> rp_heap p a;
     Some (put_seg p a (s\<lparr>sr_GRMContainerCount := 0\<rparr>))
   }"

definition returnWhenUnavailable ::
    "DynResourceQueueManager \<times> ResourcePool \<Rightarrow> (uint64, addr) PAIR \<Rightarrow> (DynResourceQueueManager \<times> ResourcePool) option" where
  "returnWhenUnavailable mp pair = do {
     let (m, p) = mp;
     a \<leftarrow> snd pair;
     s \<leftarrow> rp_heap p a;
     if st_GRMAvailable (sr_Stat s) = RESOURCE_SEG_STATUS_AVAILABLE then Some (m, p)
     else do {
       (res, m) \<leftarrow> minusResourceFromResourceManagerByBundle m (sr_Allocated s);
       p \<leftarrow> returnAllGRMResourceFromSegment m p a;
       Some (m, p)
     }
   }"

definition returnAllGRMResourceFromGRMUnavailableSegments ::
    "DynResourceQueueManager \<Rightarrow> ResourcePool \<Rightarrow> (DynResourceQueueManager \<times> ResourcePool) option" where
  "returnAllGRMResourceFromGRMUnavailableSegments m p =
     fold_opt returnWhenUnavailable (m, p) (getAllPAIRRefIntoList (Segments p) [])"

fun dropAll :: "addr \<Rightarrow> int \<Rightarrow> nat \<Rightarrow> ResourcePool \<Rightarrow> ResourcePool option" where
  "dropAll a i 0 p = Some p"
| "dropAll a i (Suc n) p = do {
     s \<leftarrow> rp_heap p a;
     ctns \<leftarrow> ctn_set s i;
     let (ctn, ctns) = popGRMContainerSetContainerList ctns;
     ctn \<leftarrow> ctn;
     p \<leftarrow> addGRMContainerToToBeKicked (put_seg p a (put_ctn_set s i ctns)) ctn;
     dropAll a i n p
   }"

definition dropRatioFromSegment :: "DynResourceQueueManager \<Rightarrow> addr \<Rightarrow> ResourcePool \<Rightarrow> int \<Rightarrow> ResourcePool option" where
  "dropRatioFromSegment m a p i = do {
     s \<leftarrow> rp_heap p a;
     case ctn_set s i of
       None \<Rightarrow> Some p
     | Some ctns \<Rightarrow> do {
         p \<leftarrow> dropAll a i (length (cs_Containers ctns)) p;
         s \<leftarrow> rp_heap p a;
         ctns \<leftarrow> ctn_set s i;
         let p = put_seg p a (put_ctn_set s i
                   (ctns\<lparr>cs_Allocated := resetResourceBundleData (cs_Allocated ctns) 0 0 0,
                         cs_Available := resetResourceBundleData (cs_Available ctns) 0 0 0\<rparr>));
         ratio \<leftarrow> ratio_at m i;
         (res, p) \<leftarrow> reorderSegResourceAllocIndex m p a ratio;
         (res, p) \<leftarrow> reorderSegResourceAvailIndex m p a ratio;
         Some p
       }
   }"

definition dropAllGRMContainersFromSegment :: "DynResourceQueueManager \<Rightarrow> ResourcePool \<Rightarrow> addr \<Rightarrow> ResourcePool option" where
  "dropAllGRMContainersFromSegment m p a = do {
     s \<leftarrow> rp_heap p a;
     let old = minusResourceBundleDataByBundle (addResourceBundleDataByBundle (sr_OldInuse s) (sr_Allocated s)) (sr_Available s);
     p \<leftarrow> fold_opt (dropRatioFromSegment m a) (put_seg p a (s\<lparr>sr_OldInuse := old\<rparr>)) (ratio_indices m);
     s \<leftarrow> rp_heap p a;
     Some (put_seg p a (s\<lparr>sr_Allocated := resetResourceBundleData (sr_Allocated s) 0 0 0,
                          sr_Available := resetResourceBundleData (sr_Available s) 0 0 0, sr_GRMContainerCount := 0\<rparr>))
   }"

section \<open>Returning idle resource\<close>

text \<open>The state of the loop: the index without the segments that are busy, those segments, and how many containers
  have been taken.\<close>

fun timeoutLoop ::
    "DynResourceQueueManager \<Rightarrow> uint32 \<Rightarrow> int \<Rightarrow> int \<Rightarrow> nat \<Rightarrow> addr list \<Rightarrow> uint32 \<Rightarrow> ResourcePool
     \<Rightarrow> (addr list \<times> uint32 \<times> ResourcePool) option" where
  "timeoutLoop m ratio rindex segminnum 0 skipped realret p = Some (skipped, realret, p)"
| "timeoutLoop m ratio rindex segminnum (Suc n) skipped realret p = do {
     tree \<leftarrow> index_at (OrderedSegResAllocByRatio p) rindex;
     case tree of
       [] \<Rightarrow> Some (skipped, realret, p)
     | a # rest \<Rightarrow> do {
         s \<leftarrow> rp_heap p a;
         let (res, ctns) = getGRMContainerSet m s ratio;
         if res \<noteq> FUNC_RETURN_OK then Some (skipped, realret, p)
         else do {
           ctns \<leftarrow> ctns;
           if int (length (cs_Containers ctns)) \<le> segminnum then Some (skipped, realret, p)
           else do {
             ctn \<leftarrow> (case cs_Containers ctns of [] \<Rightarrow> None | c # cs \<Rightarrow> Some c);
             let mem = gc_MemoryMB ctn;
             let core = of_int (gc_Core ctn);
             if rb_MemoryMB (cs_Available ctns) \<ge> mem \<and> rb_Core (cs_Available ctns) \<ge> core then do {
               let s = put_ctn_set s rindex (snd (popGRMContainerSetContainerList ctns));
               let s = s\<lparr>sr_Allocated := minusResourceBundleData (sr_Allocated s) mem core,
                         sr_Available := minusResourceBundleData (sr_Available s) mem core,
                         sr_GRMContainerCount := sr_GRMContainerCount s - 1\<rparr>;
               (res, p) \<leftarrow> reorderSegResourceAllocIndex m (put_seg p a s) a ratio;
               (res, p) \<leftarrow> reorderSegResourceAvailIndex m p a ratio;
               p \<leftarrow> addGRMContainerToToBeKicked p ctn;
               timeoutLoop m ratio rindex segminnum n skipped (realret + 1) p
             }
             else timeoutLoop m ratio rindex segminnum n (skipped @ [a]) realret
                    (p\<lparr>OrderedSegResAllocByRatio := (OrderedSegResAllocByRatio p)[nat rindex := Some rest]\<rparr>)
           }
         }
       }
   }"

definition timeoutIdleGRMResourceToRBByRatio ::
    "DynResourceQueueManager \<Rightarrow> ResourcePool \<Rightarrow> int \<Rightarrow> uint32 \<Rightarrow> int \<Rightarrow> (uint32 \<times> ResourcePool) option" where
  "timeoutIdleGRMResourceToRBByRatio m p ratioindex retcontnum segminnum = do {
     tr \<leftarrow> ratio_tracker m ratioindex;
     let ratio = mt_MemCoreRatio tr;
     let rindex = getResourceQueueRatioIndex m ratio;
     if rindex < 0 then Some (0, p)
     else do {
       (skipped, realret, p) \<leftarrow> timeoutLoop m ratio rindex segminnum (unat retcontnum) [] 0 p;
       if skipped = [] then Some (realret, p)
       else do {
         tree \<leftarrow> index_at (OrderedSegResAllocByRatio p) rindex;
         let tree = foldl (\<lambda>tree a. index_insert (comp_ratioAlloc (rp_heap p) rindex) a tree) tree skipped;
         Some (realret, p\<lparr>OrderedSegResAllocByRatio := (OrderedSegResAllocByRatio p)[nat rindex := Some tree]\<rparr>)
       }
     }
   }"

definition forceReturnGRMResourceToRB :: "DynResourceQueueManager \<Rightarrow> ResourcePool \<Rightarrow> (DynResourceQueueManager \<times> ResourcePool) option" where
  "forceReturnGRMResourceToRB m p = do {
     (realret, p) \<leftarrow> timeoutIdleGRMResourceToRBByRatio m p 0 (of_int (ForcedReturnGRMContainerCount m)) 0;
     let m = m\<lparr>ForcedReturnGRMContainerCount := sint (of_int (ForcedReturnGRMContainerCount m) - realret)\<rparr>;
     if realret > 0 then do {
       ratio \<leftarrow> ratio_at m 0;
       (res, m) \<leftarrow> minusResourceFromReourceManager m (sint (realret * ratio)) (of_int (uint realret));
       Some (m, p)
     }
     else Some (m, p)
   }"

definition getIdleResourceRequest :: "int \<Rightarrow> ResourcePool \<Rightarrow> int \<times> double" where
  "getIdleResourceRequest waterlevel p =
     (sint (MemCoreRatio p * AvailNodeCount p * of_int waterlevel), of_int (uint (AvailNodeCount p)) * of_int waterlevel)"

definition timeoutRatio ::
    "int \<Rightarrow> DynResourceQueueManager \<times> ResourcePool \<Rightarrow> int \<Rightarrow> (DynResourceQueueManager \<times> ResourcePool) option" where
  "timeoutRatio waterlevel mp i = do {
     let (m, p) = mp;
     marks \<leftarrow> (if 0 \<le> i \<and> i < int (length (RatioWaterMarks m)) then Some (RatioWaterMarks m ! nat i) else None);
     case marks of
       [] \<Rightarrow> Some (m, p)
     | mark # _ \<Rightarrow> do {
         tr \<leftarrow> ratio_tracker m i;
         if rb_MemoryMB (mt_TotalRequest tr) > 0 \<or> rb_MemoryMB (mt_TotalPending tr) > 0 then Some (m, p)
         else do {
           let idlereqcore = snd (getIdleResourceRequest waterlevel p);
           let retcore = (if wm_ClusterVCore mark > 0
                          then (if wm_ClusterVCore mark < idlereqcore then rb_Core (mt_TotalAllocated tr) - idlereqcore
                                else rb_Core (mt_TotalAllocated tr) - wm_ClusterVCore mark)
                          else rb_Core (mt_TotalAllocated tr));
           if retcore \<le> 0 then Some (m, p)
           else do {
             let retcontnum = (of_int (c_trunc retcore) :: uint32);
             if retcontnum > 0 then do {
               (realret, p) \<leftarrow> timeoutIdleGRMResourceToRBByRatio m p i retcontnum (if wm_ClusterVCore mark > 0 then 2 else 0);
               if realret > 0 then do {
                 (res, m) \<leftarrow> minusResourceFromReourceManager m (sint (realret * mt_MemCoreRatio tr)) (of_int (uint realret));
                 Some (m, p)
               }
               else Some (m, p)
             }
             else Some (m, p)
           }
         }
       }
   }"

definition timeoutIdleGRMResourceToRB ::
    "RB_IMP_TYPE \<Rightarrow> int \<Rightarrow> DynResourceQueueManager \<Rightarrow> ResourcePool \<Rightarrow> (DynResourceQueueManager \<times> ResourcePool) option" where
  "timeoutIdleGRMResourceToRB imp waterlevel m p =
     (if imp = NONE_HAWQ2 then Some (m, p) else fold_opt (timeoutRatio waterlevel) (m, p) (ratio_indices m))"

section \<open>The report of the global resource manager\<close>

record RB_GRMContainerStat =
  cst_ContainerID :: int
  cst_isActive :: bool
  cst_isFound :: bool

definition ctn_key :: "int \<Rightarrow> uint64" where
  "ctn_key i = of_int i"

definition item_at :: "'a list \<Rightarrow> nat \<Rightarrow> 'a option" where
  "item_at xs k = (if k < length xs then Some (xs ! k) else None)"

text \<open>The table from the ids of the report to the positions in it.\<close>

definition statTable :: "RB_GRMContainerStat list \<Rightarrow> (uint64, nat) HASHTABLE" where
  "statTable stats =
     foldl (\<lambda>t (i, st). ht_set t (ctn_key (cst_ContainerID st)) (Some i))
       (initializeHASHTABLE HASHTABLE_Hash_UINT32 HASHTABLE_Comp_UINT32 256 (1024 * 1024 * 1024) False) (enumerate 0 stats)"

record CheckState =
  ck_mgr :: DynResourceQueueManager
  ck_pool :: ResourcePool
  ck_stats :: "RB_GRMContainerStat list"

definition dropUnreported :: "addr \<Rightarrow> int \<Rightarrow> nat \<Rightarrow> CheckState \<Rightarrow> CheckState option" where
  "dropUnreported a ridx k ck = do {
     let m = ck_mgr ck;
     s \<leftarrow> rp_heap (ck_pool ck) a;
     ctns \<leftarrow> ctn_set s ridx;
     ctn \<leftarrow> item_at (cs_Containers ctns) k;
     let mem = gc_MemoryMB ctn;
     let core = of_int (gc_Core ctn);
     let ctns = ctns\<lparr>cs_Containers := take k (cs_Containers ctns) @ drop (Suc k) (cs_Containers ctns),
                     cs_Allocated := minusResourceBundleData (cs_Allocated ctns) mem core,
                     cs_Available := minusResourceBundleData (cs_Available ctns) mem core\<rparr>;
     let s = put_ctn_set s ridx ctns;
     let s = s\<lparr>sr_Allocated := minusResourceBundleData (sr_Allocated s) mem core,
               sr_Available := minusResourceBundleData (sr_Available s) mem core\<rparr>;
     ratio \<leftarrow> ratio_at m ridx;
     (res, p) \<leftarrow> reorderSegResourceAllocIndex m (put_seg (ck_pool ck) a s) a ratio;
     (res, p) \<leftarrow> reorderSegResourceAvailIndex m p a ratio;
     p \<leftarrow> addGRMContainerToToBeKicked p ctn;
     (res, m) \<leftarrow> minusResourceFromReourceManager m mem core;
     Some (ck\<lparr>ck_mgr := m, ck_pool := p\<rparr>)
   }"

text \<open>The walk over a list of containers: \<open>k\<close> is the position of \<^verbatim>\<open>cell\<close>, \<open>n\<close> the number of cells from there on.\<close>

fun checkContainers :: "(uint64, nat) HASHTABLE \<Rightarrow> addr \<Rightarrow> int \<Rightarrow> nat \<Rightarrow> nat \<Rightarrow> CheckState \<Rightarrow> CheckState option" where
  "checkContainers tbl a ridx k 0 ck = Some ck"
| "checkContainers tbl a ridx k (Suc n) ck = do {
     s \<leftarrow> rp_heap (ck_pool ck) a;
     ctns \<leftarrow> ctn_set s ridx;
     ctn \<leftarrow> item_at (cs_Containers ctns) k;
     case getHASHTABLENode tbl (ctn_key (gc_ID ctn)) of
       Some (_, Some j) \<Rightarrow>
         if cst_isActive (ck_stats ck ! j)
         then checkContainers tbl a ridx (Suc k) n (ck\<lparr>ck_stats := (ck_stats ck)[j := (ck_stats ck ! j)\<lparr>cst_isFound := True\<rparr>]\<rparr>)
         else do { ck \<leftarrow> dropUnreported a ridx k ck; checkContainers tbl a ridx k n ck }
     | _ \<Rightarrow> do { ck \<leftarrow> dropUnreported a ridx k ck; checkContainers tbl a ridx k n ck }
   }"

definition checkRatio :: "(uint64, nat) HASHTABLE \<Rightarrow> addr \<Rightarrow> CheckState \<Rightarrow> int \<Rightarrow> CheckState option" where
  "checkRatio tbl a ck ridx = do {
     s \<leftarrow> rp_heap (ck_pool ck) a;
     case ctn_set s ridx of
       None \<Rightarrow> Some ck
     | Some ctns \<Rightarrow> checkContainers tbl a ridx 0 (length (cs_Containers ctns)) ck
   }"

definition checkSegment :: "(uint64, nat) HASHTABLE \<Rightarrow> CheckState \<Rightarrow> int \<Rightarrow> CheckState option" where
  "checkSegment tbl ck i = do {
     a \<leftarrow> getSegResource (ck_pool ck) i;
     fold_opt (checkRatio tbl a) ck (ratio_indices (ck_mgr ck))
   }"

definition checkGRMContainerStatus ::
    "DynResourceQueueManager \<Rightarrow> ResourcePool \<Rightarrow> RB_GRMContainerStat list \<Rightarrow> CheckState option" where
  "checkGRMContainerStatus m p stats =
     fold_opt (checkSegment (statTable stats))
       \<lparr>ck_mgr = m, ck_pool = p, ck_stats = map (\<lambda>st. st\<lparr>cst_isFound := False\<rparr>) stats\<rparr>
       [0..uint (SegmentIDCounter p) - 1]"

section \<open>Messages to the segments\<close>

text \<open>What an operation is given from outside: the resolver of host names, the clock, whether a connection to a host
  can be set up, and whether the manager runs in the test mode without segments.\<close>

record ContainerEnv =
  ce_resolve :: resolver
  ce_now :: uint64
  ce_connect :: "uint8 list \<Rightarrow> drm_code"
  ce_test :: bool

text \<open>A message on its way, \<^verbatim>\<open>RPCRequestUpdateMemoryQuotaData\<close> with the \<^verbatim>\<open>UserData\<close> of its context.\<close>

record QuotaMessage =
  MemoryQuotaDelta :: uint64
  MemoryQuotaTotalPending :: uint64
  qm_UserData :: GRMContainerSet

text \<open>The state of the life cycle: the queue manager with the tracks of its queues, the pool, the messages for increasing and for
  decreasing the memory quota of a segment, whether the resource broker asked for a clean-up, and the two counters of
  the broker.\<close>

record ContainerState =
  co_mgr :: DynResourceQueueManager
  co_tracks :: "addr \<Rightarrow> DynResourceQueueTrack option"
  co_pool :: ResourcePool
  co_increasing :: "QuotaMessage list"
  co_decreasing :: "QuotaMessage list"
  IncreaseMemoryRPCCounter :: int
  DecreaseMemoryRPCCounter :: int
  ResBrokerTriggerCleanup :: bool
  RoundRobinIndex :: int
  ContainerIDCounter :: uint32

definition RESOURCE_CONTAINER_MAX_LIFETIME :: int where
  "RESOURCE_CONTAINER_MAX_LIFETIME = 10"

text \<open>The loops over a set that a segment did not accept, or did not give back.\<close>

function retryAccept :: "ContainerEnv \<Rightarrow> GRMContainerSet \<Rightarrow> ContainerState \<Rightarrow> (GRMContainerSet \<times> ContainerState) option" where
  "retryAccept e ctns co =
     (case popGRMContainerSetContainerList ctns of
        (None, ctns) \<Rightarrow> Some (ctns, co)
      | (Some ctn, ctns') \<Rightarrow> do {
          let ctn = ctn\<lparr>gc_Life := gc_Life ctn + 1\<rparr>;
          let p = (co_pool co)\<lparr>AddPendingContainerCount := AddPendingContainerCount (co_pool co) - 1\<rparr>;
          co \<leftarrow> (if \<not> ResBrokerTriggerCleanup co \<and> gc_Life ctn < RESOURCE_CONTAINER_MAX_LIFETIME
                then do { (res, p) \<leftarrow> addGRMContainerToToBeAccepted (ce_resolve e) p ctn; Some (co\<lparr>co_pool := p\<rparr>) }
                else do {
                  m \<leftarrow> removePendingResourceRequestInRootQueue (co_mgr co) (ce_now e) (gc_MemoryMB ctn) (of_int (gc_Core ctn));
                  Some (co\<lparr>co_mgr := m, co_pool := addGRMContainerToKicked p ctn\<rparr>)
                });
          retryAccept e ctns' co
        })"
  by pat_completeness auto
termination
  by (relation "measure (\<lambda>(e, ctns, co). length (cs_Containers ctns))")
    (auto simp: popGRMContainerSetContainerList_def split: list.splits)

declare retryAccept.simps [simp del]

definition processContainersAfterIncreaseMemoryQuota ::
    "ContainerEnv \<Rightarrow> GRMContainerSet \<Rightarrow> bool \<Rightarrow> ContainerState \<Rightarrow> (GRMContainerSet \<times> ContainerState) option" where
  "processContainersAfterIncreaseMemoryQuota e ctns accepted co =
     (if accepted then let (ctns, p) = moveGRMContainerSetToAccepted (co_pool co) ctns in Some (ctns, co\<lparr>co_pool := p\<rparr>)
      else retryAccept e ctns co)"

function retryKick :: "GRMContainerSet \<Rightarrow> ResourcePool \<Rightarrow> (GRMContainerSet \<times> ResourcePool) option" where
  "retryKick ctns p =
     (case popGRMContainerSetContainerList ctns of
        (None, ctns) \<Rightarrow> Some (ctns, p)
      | (Some ctn, ctns') \<Rightarrow> do {
          let ctn = ctn\<lparr>gc_Life := gc_Life ctn + 1\<rparr>;
          let p = p\<lparr>RetPendingContainerCount := RetPendingContainerCount p - 1\<rparr>;
          p \<leftarrow> (if gc_Life ctn < RESOURCE_CONTAINER_MAX_LIFETIME
                then do {
                  a \<leftarrow> gc_Resource ctn;
                  s \<leftarrow> rp_heap p a;
                  let s = s\<lparr>sr_DecPending := minusResourceBundleData (sr_DecPending s) (gc_MemoryMB ctn) (of_int (gc_Core ctn))\<rparr>;
                  addGRMContainerToToBeKicked (put_seg p a s) ctn
                }
                else Some (addGRMContainerToKicked p ctn));
          retryKick ctns' p
        })"
  by pat_completeness auto
termination
  by (relation "measure (\<lambda>(ctns, p). length (cs_Containers ctns))")
    (auto simp: popGRMContainerSetContainerList_def split: list.splits)

declare retryKick.simps [simp del]

definition processContainersAfterDecreaseMemoryQuota ::
    "GRMContainerSet \<Rightarrow> bool \<Rightarrow> ContainerState \<Rightarrow> (GRMContainerSet \<times> ContainerState) option" where
  "processContainersAfterDecreaseMemoryQuota ctns kicked co =
     (if kicked then let (ctns, p) = moveGRMContainerSetToKicked (co_pool co) ctns in Some (ctns, co\<lparr>co_pool := p\<rparr>)
      else do { (ctns, p) \<leftarrow> retryKick ctns (co_pool co); Some (ctns, co\<lparr>co_pool := p\<rparr>) })"

text \<open>The set that a table has for a key, and changing it through its pointer.\<close>

definition set_at :: "(SimpString, GRMContainerSet) HASHTABLE \<Rightarrow> SimpString \<Rightarrow> GRMContainerSet option" where
  "set_at t k = (case getHASHTABLENode t k of Some (_, Some ctns) \<Rightarrow> Some ctns | _ \<Rightarrow> None)"

definition put_accept :: "ContainerState \<Rightarrow> SimpString \<Rightarrow> GRMContainerSet \<Rightarrow> ContainerState" where
  "put_accept co k ctns = co\<lparr>co_pool := (co_pool co)\<lparr>ToAcceptContainers := ht_set (ToAcceptContainers (co_pool co)) k (Some ctns)\<rparr>\<rparr>"

definition put_kick :: "ContainerState \<Rightarrow> SimpString \<Rightarrow> GRMContainerSet \<Rightarrow> ContainerState" where
  "put_kick co k ctns = co\<lparr>co_pool := (co_pool co)\<lparr>ToKickContainers := ht_set (ToKickContainers (co_pool co)) k (Some ctns)\<rparr>\<rparr>"

definition getGRMContainerSetContainerFirst :: "GRMContainerSet \<Rightarrow> GRMContainer option" where
  "getGRMContainerSetContainerFirst ctns = (case cs_Containers ctns of [] \<Rightarrow> None | ctn # _ \<Rightarrow> Some ctn)"

definition first_segment :: "ContainerState \<Rightarrow> GRMContainerSet \<Rightarrow> SegResource option" where
  "first_segment co ctns = do {
     firstcont \<leftarrow> getGRMContainerSetContainerFirst ctns;
     a \<leftarrow> gc_Resource firstcont;
     rp_heap (co_pool co) a
   }"

text \<open>\<open>k\<close> is the key of the set that is passed, which is the one of the table.  When the connection fails, the containers of the
  new set are freed with it.\<close>

definition increaseMemoryQuota ::
    "ContainerEnv \<Rightarrow> uint8 list \<Rightarrow> SimpString \<Rightarrow> ContainerState \<Rightarrow> (drm_code \<times> ContainerState) option" where
  "increaseMemoryQuota e seghostname k co = do {
     containerset \<leftarrow> set_at (ToAcceptContainers (co_pool co)) k;
     let (newctns, containerset) = moveGRMContainerSetContainerList createGRMContainerSet containerset;
     let co = put_accept co k containerset;
     s \<leftarrow> first_segment co newctns;
     let msg = \<lparr>MemoryQuotaDelta = of_int (rb_MemoryMB (cs_Allocated newctns)),
                MemoryQuotaTotalPending =
                  of_int (rb_MemoryMB (sr_Allocated s) + rb_MemoryMB (cs_Allocated newctns) + rb_MemoryMB (sr_OldInuse s)),
                qm_UserData = newctns\<rparr>;
     let res = ce_connect e seghostname;
     if res \<noteq> FUNC_RETURN_OK then do {
       (containerset, co) \<leftarrow> processContainersAfterIncreaseMemoryQuota e containerset False co;
       Some (res, put_accept co k containerset)
     }
     else Some (FUNC_RETURN_OK, co\<lparr>co_increasing := co_increasing co @ [msg]\<rparr>)
   }"

definition decreaseMemoryQuota ::
    "ContainerEnv \<Rightarrow> uint8 list \<Rightarrow> SimpString \<Rightarrow> ContainerState \<Rightarrow> (drm_code \<times> ContainerState) option" where
  "decreaseMemoryQuota e seghostname k co = do {
     rescontainerset \<leftarrow> set_at (ToKickContainers (co_pool co)) k;
     let (ctns, rescontainerset) = moveGRMContainerSetContainerList createGRMContainerSet rescontainerset;
     let co = put_kick co k rescontainerset;
     s \<leftarrow> first_segment co ctns;
     let msg = \<lparr>MemoryQuotaDelta = of_int (rb_MemoryMB (cs_Allocated ctns)),
                MemoryQuotaTotalPending = of_int (rb_MemoryMB (sr_Allocated s) + rb_MemoryMB (sr_OldInuse s)),
                qm_UserData = ctns\<rparr>;
     let res = ce_connect e seghostname;
     if res \<noteq> FUNC_RETURN_OK then do {
       (ctns, co) \<leftarrow> processContainersAfterDecreaseMemoryQuota ctns False co;
       Some (res, co)
     }
     else Some (FUNC_RETURN_OK, co\<lparr>co_decreasing := co_decreasing co @ [msg]\<rparr>)
   }"

text \<open>One pair of the table that holds the sets to be accepted, and one of the table of those to be kicked.\<close>

definition notifyAccept :: "ContainerEnv \<Rightarrow> ContainerState \<Rightarrow> (SimpString, GRMContainerSet) PAIR \<Rightarrow> ContainerState option" where
  "notifyAccept e co pair = do {
     ctns \<leftarrow> set_at (ToAcceptContainers (co_pool co)) (fst pair);
     if rb_MemoryMB (cs_Allocated ctns) = 0 \<and> rb_Core (cs_Allocated ctns) = 0 then Some co
     else do {
       firstctn \<leftarrow> getGRMContainerSetContainerFirst ctns;
       if \<not> ce_test e then do { (res, co) \<leftarrow> increaseMemoryQuota e (gc_HostName firstctn) (fst pair) co; Some co }
       else let (ctns, p) = moveGRMContainerSetToAccepted (co_pool co) ctns in Some (put_accept (co\<lparr>co_pool := p\<rparr>) (fst pair) ctns)
     }
   }"

definition notifyToBeAcceptedGRMContainersToRMSEG :: "ContainerEnv \<Rightarrow> ContainerState \<Rightarrow> ContainerState option" where
  "notifyToBeAcceptedGRMContainersToRMSEG e co =
     fold_opt (notifyAccept e) co (getAllPAIRRefIntoList (ToAcceptContainers (co_pool co)) [])"

definition notifyKick :: "ContainerEnv \<Rightarrow> ContainerState \<Rightarrow> (SimpString, GRMContainerSet) PAIR \<Rightarrow> ContainerState option" where
  "notifyKick e co pair = do {
     ctns \<leftarrow> set_at (ToKickContainers (co_pool co)) (fst pair);
     if rb_Core (cs_Allocated ctns) = 0 \<or> rb_MemoryMB (cs_Allocated ctns) = 0 then Some co
     else do {
       firstctn \<leftarrow> getGRMContainerSetContainerFirst ctns;
       if \<not> ce_test e then do { (res, co) \<leftarrow> decreaseMemoryQuota e (gc_HostName firstctn) (fst pair) co; Some co }
       else let (ctns, p) = moveGRMContainerSetToKicked (co_pool co) ctns in Some (put_kick (co\<lparr>co_pool := p\<rparr>) (fst pair) ctns)
     }
   }"

definition notifyToBeKickedGRMContainersToRMSEG :: "ContainerEnv \<Rightarrow> ContainerState \<Rightarrow> ContainerState option" where
  "notifyToBeKickedGRMContainersToRMSEG e co =
     fold_opt (notifyKick e) co (getAllPAIRRefIntoList (ToKickContainers (co_pool co)) [])"

section \<open>The handlers of the messages\<close>

text \<open>\<open>k\<close> is the position of the message among those on their way.  The response is its message id, its size and the
  result it carries.\<close>

definition RESPONSE_RM_INCREASE_MEMORY_QUOTA :: uint16 where
  "RESPONSE_RM_INCREASE_MEMORY_QUOTA = 2566"

definition RESPONSE_RM_DECREASE_MEMORY_QUOTA :: uint16 where
  "RESPONSE_RM_DECREASE_MEMORY_QUOTA = 2567"

definition sizeof_RPCResponseUpdateMemoryQuotaData :: uint32 where
  "sizeof_RPCResponseUpdateMemoryQuotaData = 8"

definition settleIncrease :: "ContainerEnv \<Rightarrow> nat \<Rightarrow> bool \<Rightarrow> ContainerState \<Rightarrow> ContainerState option" where
  "settleIncrease e k accepted co = do {
     msg \<leftarrow> item_at (co_increasing co) k;
     (ctns, co) \<leftarrow> processContainersAfterIncreaseMemoryQuota e (qm_UserData msg) accepted co;
     Some (co\<lparr>co_increasing := (co_increasing co)[k := msg\<lparr>qm_UserData := ctns\<rparr>]\<rparr>)
   }"

definition recvIncreaseMemoryQuotaResponse ::
    "ContainerEnv \<Rightarrow> nat \<Rightarrow> uint16 \<Rightarrow> uint32 \<Rightarrow> uint32 \<Rightarrow> ContainerState \<Rightarrow> ContainerState option" where
  "recvIncreaseMemoryQuotaResponse e k messageid buffersize result co = do {
     msg \<leftarrow> item_at (co_increasing co) k;
     s \<leftarrow> first_segment co (qm_UserData msg);
     settleIncrease e k (messageid = RESPONSE_RM_INCREASE_MEMORY_QUOTA \<and> buffersize = sizeof_RPCResponseUpdateMemoryQuotaData \<and>
       result = 0) co
   }"

definition sentIncreaseMemoryQuota :: "ContainerState \<Rightarrow> ContainerState" where
  "sentIncreaseMemoryQuota co = co\<lparr>IncreaseMemoryRPCCounter := IncreaseMemoryRPCCounter co + 1\<rparr>"

definition sentIncreaseMemoryQuotaError :: "ContainerEnv \<Rightarrow> nat \<Rightarrow> ContainerState \<Rightarrow> ContainerState option" where
  "sentIncreaseMemoryQuotaError e k co = settleIncrease e k False co"

text \<open>The message is freed at the end.\<close>

definition sentIncreaseMemoryQuotaCleanup :: "ContainerEnv \<Rightarrow> nat \<Rightarrow> ContainerState \<Rightarrow> ContainerState option" where
  "sentIncreaseMemoryQuotaCleanup e k co = do {
     msg \<leftarrow> item_at (co_increasing co) k;
     co \<leftarrow> (if cs_Containers (qm_UserData msg) = [] then Some co else settleIncrease e k False co);
     Some (co\<lparr>co_increasing := take k (co_increasing co) @ drop (Suc k) (co_increasing co),
              IncreaseMemoryRPCCounter := IncreaseMemoryRPCCounter co - 1\<rparr>)
   }"

definition settleDecrease :: "nat \<Rightarrow> bool \<Rightarrow> ContainerState \<Rightarrow> ContainerState option" where
  "settleDecrease k kicked co = do {
     msg \<leftarrow> item_at (co_decreasing co) k;
     (ctns, co) \<leftarrow> processContainersAfterDecreaseMemoryQuota (qm_UserData msg) kicked co;
     Some (co\<lparr>co_decreasing := (co_decreasing co)[k := msg\<lparr>qm_UserData := ctns\<rparr>]\<rparr>)
   }"

definition recvDecreaseMemoryQuotaResponse ::
    "nat \<Rightarrow> uint16 \<Rightarrow> uint32 \<Rightarrow> uint32 \<Rightarrow> ContainerState \<Rightarrow> ContainerState option" where
  "recvDecreaseMemoryQuotaResponse k messageid buffersize result co = do {
     msg \<leftarrow> item_at (co_decreasing co) k;
     s \<leftarrow> first_segment co (qm_UserData msg);
     settleDecrease k (messageid = RESPONSE_RM_DECREASE_MEMORY_QUOTA \<and> buffersize = sizeof_RPCResponseUpdateMemoryQuotaData \<and>
       result = 0) co
   }"

definition sentDecreaseMemoryQuota :: "ContainerState \<Rightarrow> ContainerState" where
  "sentDecreaseMemoryQuota co = co\<lparr>DecreaseMemoryRPCCounter := DecreaseMemoryRPCCounter co + 1\<rparr>"

definition sentDecreaseMemoryQuotaError :: "nat \<Rightarrow> ContainerState \<Rightarrow> ContainerState option" where
  "sentDecreaseMemoryQuotaError k co = settleDecrease k False co"

definition sentDecreaseMemoryQuotaCleanup :: "nat \<Rightarrow> ContainerState \<Rightarrow> ContainerState option" where
  "sentDecreaseMemoryQuotaCleanup k co = do {
     msg \<leftarrow> item_at (co_decreasing co) k;
     co \<leftarrow> (if cs_Containers (qm_UserData msg) = [] then Some co else settleDecrease k False co);
     Some (co\<lparr>co_decreasing := take k (co_decreasing co) @ drop (Suc k) (co_decreasing co),
              DecreaseMemoryRPCCounter := DecreaseMemoryRPCCounter co - 1\<rparr>)
   }"

section \<open>The pool takes and drops containers\<close>

fun moveAccepted :: "uint64 \<Rightarrow> GRMContainer list \<Rightarrow> ContainerState \<Rightarrow> ContainerState option" where
  "moveAccepted now [] co = Some co"
| "moveAccepted now (ctn # ctns) co = do {
     let p = (co_pool co)\<lparr>AcceptedContainers := ctns\<rparr>;
     p \<leftarrow> addGRMContainerToResPool (co_mgr co) p ctn;
     let p = p\<lparr>AddPendingContainerCount := AddPendingContainerCount p - 1\<rparr>;
     (res, m) \<leftarrow> addNewResourceToResourceManager (co_mgr co) (gc_MemoryMB ctn) (of_int (gc_Core ctn));
     m \<leftarrow> removePendingResourceRequestInRootQueue m now (gc_MemoryMB ctn) (of_int (gc_Core ctn));
     moveAccepted now ctns (co\<lparr>co_mgr := m, co_pool := p\<rparr>)
   }"

definition moveAllAcceptedGRMContainersToResPool :: "uint64 \<Rightarrow> ContainerState \<Rightarrow> ContainerState option" where
  "moveAllAcceptedGRMContainersToResPool now co = moveAccepted now (AcceptedContainers (co_pool co)) co"

text \<open>\<open>timeout\<close> is \<^verbatim>\<open>rm_resource_timeout\<close>.\<close>

definition addQueueUsage :: "DynMemoryCoreRatioTrack \<Rightarrow> DynResourceQueueTrack \<Rightarrow> DynMemoryCoreRatioTrack" where
  "addQueueUsage mctrack track =
     mctrack\<lparr>mt_TotalUsed := addResourceBundleData (mt_TotalUsed mctrack) (rb_MemoryMB (qt_TotalUsed track)) (rb_Core (qt_TotalUsed track)),
       mt_TotalRequest :=
         (if rb_MemoryMB (qt_TotalRequest track) > qt_ClusterMemoryMaxMB track
          then addResourceBundleData (mt_TotalRequest mctrack) (qt_ClusterMemoryMaxMB track) (qt_ClusterVCoreMax track)
          else addResourceBundleData (mt_TotalRequest mctrack) (rb_MemoryMB (qt_TotalRequest track)) (rb_Core (qt_TotalRequest track)))\<rparr>"

definition refreshRatioUsage ::
    "int \<Rightarrow> uint64 \<Rightarrow> (addr \<Rightarrow> DynResourceQueueTrack option) \<Rightarrow> DynResourceQueueManager \<Rightarrow> int \<Rightarrow> DynResourceQueueManager option" where
  "refreshRatioUsage timeout now trs m i = do {
     mctrack \<leftarrow> ratio_tracker m i;
     let mctrack = mctrack\<lparr>mt_TotalUsed := resetResourceBundleData (mt_TotalUsed mctrack) 0 0 (rb_Ratio (mt_TotalUsed mctrack)),
                           mt_TotalRequest := resetResourceBundleData (mt_TotalRequest mctrack) 0 0 (rb_Ratio (mt_TotalUsed mctrack))\<rparr>;
     ts \<leftarrow> those (map trs (mt_QueueTrackers mctrack));
     let mctrack = foldl addQueueUsage mctrack ts;
     let mctrack = (if rb_MemoryMB (mt_TotalRequest mctrack) > mt_ClusterMemoryMaxMB mctrack
                    then mctrack\<lparr>mt_TotalRequest := (mt_TotalRequest mctrack)\<lparr>rb_MemoryMB := mt_ClusterMemoryMaxMB mctrack\<rparr>\<rparr>
                    else mctrack);
     let m = put_tracker m i mctrack;
     if nat i < length (RatioWaterMarks m)
     then Some (m\<lparr>RatioWaterMarks := (RatioWaterMarks m)[nat i :=
            markMemoryCoreRatioWaterMark timeout (RatioWaterMarks m ! nat i) now
              (rb_MemoryMB (mt_TotalUsed mctrack)) (rb_Core (mt_TotalUsed mctrack))]\<rparr>)
     else None
   }"

definition refreshMemoryCoreRatioLevelUsage ::
    "int \<Rightarrow> uint64 \<Rightarrow> (addr \<Rightarrow> DynResourceQueueTrack option) \<Rightarrow> DynResourceQueueManager \<Rightarrow> DynResourceQueueManager option" where
  "refreshMemoryCoreRatioLevelUsage timeout now trs m = fold_opt (refreshRatioUsage timeout now trs) m (ratio_indices m)"

definition dropSegment :: "ContainerState \<Rightarrow> int \<Rightarrow> ContainerState option" where
  "dropSegment co idx = do {
     a \<leftarrow> getSegResource (co_pool co) idx;
     s \<leftarrow> rp_heap (co_pool co) a;
     (res, m) \<leftarrow> minusResourceFromResourceManagerByBundle (co_mgr co) (sr_Allocated s);
     p \<leftarrow> dropAllGRMContainersFromSegment m (co_pool co) a;
     Some (co\<lparr>co_mgr := m, co_pool := p\<rparr>)
   }"

definition clearPending :: "DynResourceQueueManager \<Rightarrow> int \<Rightarrow> DynResourceQueueManager option" where
  "clearPending m i = do {
     tr \<leftarrow> ratio_tracker m i;
     Some (put_tracker m i (tr\<lparr>mt_TotalPending := resetResourceBundleData (mt_TotalPending tr) 0 0 (- 1), mt_TotalPendingStartTime := 0\<rparr>))
   }"

definition dropAllResPoolGRMContainersToToBeKicked :: "int \<Rightarrow> uint64 \<Rightarrow> ContainerState \<Rightarrow> ContainerState option" where
  "dropAllResPoolGRMContainersToToBeKicked timeout now co = do {
     co \<leftarrow> fold_opt dropSegment co [0..uint (SegmentIDCounter (co_pool co)) - 1];
     m \<leftarrow> fold_opt clearPending (co_mgr co) (ratio_indices (co_mgr co));
     m \<leftarrow> refreshMemoryCoreRatioLevelUsage timeout now (co_tracks co) m;
     Some (co\<lparr>co_mgr := m\<rparr>)
   }"

text \<open>The counter of pending returns does not change.\<close>

definition dropToAccept :: "ResourcePool \<Rightarrow> (SimpString, GRMContainerSet) PAIR \<Rightarrow> ResourcePool option" where
  "dropToAccept p pair = do {
     ctns \<leftarrow> set_at (ToAcceptContainers p) (fst pair);
     if rb_MemoryMB (cs_Allocated ctns) = 0 \<and> rb_Core (cs_Allocated ctns) = 0 then Some p
     else do {
       ctn1st \<leftarrow> getGRMContainerSetContainerFirst ctns;
       a \<leftarrow> gc_Resource ctn1st;
       s \<leftarrow> rp_heap p a;
       let p = put_seg p a (s\<lparr>sr_IncPending := minusResourceBundleDataByBundle (sr_IncPending s) (cs_Allocated ctns)\<rparr>);
       let p = p\<lparr>AddPendingContainerCount := AddPendingContainerCount p - int (length (cs_Containers ctns))\<rparr>;
       let (ctns, p) = moveGRMContainerSetToKicked p ctns;
       Some (p\<lparr>ToAcceptContainers := ht_set (ToAcceptContainers p) (fst pair) (Some ctns)\<rparr>)
     }
   }"

definition dropAllToAcceptGRMContainersToKicked :: "ResourcePool \<Rightarrow> ResourcePool option" where
  "dropAllToAcceptGRMContainersToKicked p = fold_opt dropToAccept p (getAllPAIRRefIntoList (ToAcceptContainers p) [])"

definition cleanupAllGRMContainers :: "int \<Rightarrow> uint64 \<Rightarrow> ContainerState \<Rightarrow> ContainerState option" where
  "cleanupAllGRMContainers timeout now co = do {
     co \<leftarrow> dropAllResPoolGRMContainersToToBeKicked timeout now co;
     p \<leftarrow> dropAllToAcceptGRMContainersToKicked (co_pool co);
     Some (co\<lparr>co_pool := p\<rparr>)
   }"

definition noContainersAt :: "(addr \<Rightarrow> SegResource option) \<Rightarrow> (uint64, addr) PAIR \<Rightarrow> bool option" where
  "noContainersAt heap pair = do {
     a \<leftarrow> snd pair;
     s \<leftarrow> heap a;
     Some (\<not> (rb_MemoryMB (sr_Allocated s) > 0 \<or> rb_Core (sr_Allocated s) > 0))
   }"

definition allSegmentHasNoGRMContainersAllocated :: "ResourcePool \<Rightarrow> bool option" where
  "allSegmentHasNoGRMContainersAllocated p =
     fold_opt (\<lambda>res pair. if res then noContainersAt (rp_heap p) pair else Some False) True (getAllPAIRRefIntoList (Segments p) [])"

definition cleanedAllGRMContainers :: "ContainerState \<Rightarrow> bool option" where
  "cleanedAllGRMContainers co = do {
     none \<leftarrow> allSegmentHasNoGRMContainersAllocated (co_pool co);
     Some (none \<and> AddPendingContainerCount (co_pool co) = 0 \<and> RetPendingContainerCount (co_pool co) = 0)
   }"

section \<open>The broker without a global resource manager\<close>

definition GET_SEGRESOURCE_HOSTNAME :: "SegResource \<Rightarrow> uint8 list option" where
  "GET_SEGRESOURCE_HOSTNAME s = GET_SEGINFO_HOSTNAME (st_Info (sr_Stat s))"

definition newContainer :: "ContainerEnv \<Rightarrow> int \<Rightarrow> addr \<Rightarrow> SegResource \<Rightarrow> ContainerState \<Rightarrow> ContainerState option" where
  "newContainer e contmemorymb a s co = do {
     hostname \<leftarrow> GET_SEGRESOURCE_HOSTNAME s;
     let newcontainer = createGRMContainer (ContainerIDCounter co) contmemorymb 1 hostname (Some a);
     (res, p) \<leftarrow> addGRMContainerToToBeAccepted (ce_resolve e) (co_pool co) newcontainer;
     Some (co\<lparr>co_pool := p, ContainerIDCounter := ContainerIDCounter co + 1\<rparr>)
   }"

text \<open>\<^verbatim>\<open>for ( int i = 0 ; i < availctn ; ++i )\<close>, which ends early when there are enough containers; the result is the
  number of containers that have been allocated.\<close>

fun allocateOnHost :: "ContainerEnv \<Rightarrow> int \<Rightarrow> int \<Rightarrow> addr \<Rightarrow> nat \<Rightarrow> int \<Rightarrow> ContainerState \<Rightarrow> (int \<times> ContainerState) option" where
  "allocateOnHost e contmemorymb contcount a 0 contactcount co = Some (contactcount, co)"
| "allocateOnHost e contmemorymb contcount a (Suc n) contactcount co = do {
     s \<leftarrow> rp_heap (co_pool co) a;
     co \<leftarrow> newContainer e contmemorymb a s co;
     if contactcount + 1 \<ge> contcount then Some (contactcount + 1, co)
     else allocateOnHost e contmemorymb contcount a n (contactcount + 1) co
   }"

text \<open>How many containers fit on a segment: the memory is computed in unsigned numbers.\<close>

definition freeMemory :: "SegResource \<Rightarrow> uint32" where
  "freeMemory s = st_FTSTotalMemoryMB (sr_Stat s) - of_int (rb_MemoryMB (sr_Allocated s)) - of_int (rb_MemoryMB (sr_IncPending s))"

definition freeCore :: "SegResource \<Rightarrow> double" where
  "freeCore s = of_int (uint (st_FTSTotalCore (sr_Stat s))) - rb_Core (sr_Allocated s) - rb_Core (sr_IncPending s)"

definition availableContainers :: "int \<Rightarrow> SegResource \<Rightarrow> ResourceBundle \<Rightarrow> int option" where
  "availableContainers contmemorymb s resource =
     (if contmemorymb = 0 then None
      else
        let availctn = c_trunc (freeCore s);
            availctn2 = sint (freeMemory s div of_int contmemorymb);
            availctn = (if availctn < availctn2 then availctn else availctn2)
        in Some (if of_int availctn < rb_Core resource then availctn else c_trunc (rb_Core resource)))"

fun allocatePreferred ::
    "ContainerEnv \<Rightarrow> int \<Rightarrow> int \<Rightarrow> (addr \<times> ResourceBundle) list \<Rightarrow> int \<Rightarrow> ContainerState \<Rightarrow> (int \<times> ContainerState) option" where
  "allocatePreferred e contmemorymb contcount [] contactcount co = Some (contactcount, co)"
| "allocatePreferred e contmemorymb contcount ((a, resource) # preferred) contactcount co = do {
     s \<leftarrow> rp_heap (co_pool co) a;
     if \<not> IS_SEGRESOURCE_USABLE s then allocatePreferred e contmemorymb contcount preferred contactcount co
     else do {
       availctn \<leftarrow> availableContainers contmemorymb s resource;
       (contactcount, co) \<leftarrow> allocateOnHost e contmemorymb contcount a (nat availctn) contactcount co;
       if contactcount \<ge> contcount then Some (contactcount, co)
       else allocatePreferred e contmemorymb contcount preferred contactcount co
     }
   }"

text \<open>The search for the next host, \<^verbatim>\<open>for (int i = 0 ; i < hostcount ; ++i)\<close>, and the loop around it.\<close>

fun nextHost :: "ResourcePool \<Rightarrow> int \<Rightarrow> int \<Rightarrow> nat \<Rightarrow> int \<Rightarrow> (int \<times> addr option) option" where
  "nextHost p contmemorymb hostcount 0 rr = Some (rr, None)"
| "nextHost p contmemorymb hostcount (Suc n) rr =
     (let rr = (if rr \<ge> hostcount - 1 then 0 else rr + 1) in
      case getSegResource p rr of
        None \<Rightarrow> nextHost p contmemorymb hostcount n rr
      | Some a \<Rightarrow> do {
          s \<leftarrow> rp_heap p a;
          if \<not> IS_SEGRESOURCE_USABLE s then nextHost p contmemorymb hostcount n rr
          else if freeMemory s \<ge> of_int contmemorymb \<and> freeCore s \<ge> 1 then Some (rr, Some a)
          else nextHost p contmemorymb hostcount n rr
        })"

fun allocateRoundRobin ::
    "ContainerEnv \<Rightarrow> int \<Rightarrow> int \<Rightarrow> nat \<Rightarrow> ContainerState \<Rightarrow> (nat \<times> ContainerState) option" where
  "allocateRoundRobin e contmemorymb hostcount 0 co = Some (0, co)"
| "allocateRoundRobin e contmemorymb hostcount (Suc n) co = do {
     (rr, host) \<leftarrow> nextHost (co_pool co) contmemorymb hostcount (nat hostcount) (RoundRobinIndex co);
     let co = co\<lparr>RoundRobinIndex := rr\<rparr>;
     case host of
       None \<Rightarrow> Some (Suc n, co)
     | Some a \<Rightarrow> do {
         s \<leftarrow> rp_heap (co_pool co) a;
         co \<leftarrow> newContainer e contmemorymb a s co;
         allocateRoundRobin e contmemorymb hostcount n co
       }
   }"

definition RB_NONE_acquireResource ::
    "ContainerEnv \<Rightarrow> uint32 \<Rightarrow> uint32 \<Rightarrow> (addr \<times> ResourceBundle) list \<Rightarrow> ContainerState \<Rightarrow> (drm_code \<times> ContainerState) option" where
  "RB_NONE_acquireResource e memorymb core preferred co =
     (if core = 0 then None
      else do {
        let contmemorymb = sint (memorymb div core);
        let contcount = sint core;
        let hostcount = sint (SegmentIDCounter (co_pool co));
        (contactcount, co) \<leftarrow> allocatePreferred e contmemorymb contcount preferred 0 co;
        (lacking, co) \<leftarrow> allocateRoundRobin e contmemorymb hostcount (nat (contcount - contactcount)) co;
        let missing = (if contactcount < contcount then int lacking else contcount - contactcount);
        m \<leftarrow> removePendingResourceRequestInRootQueue (co_mgr co) (ce_now e) (contmemorymb * missing) (of_int missing);
        Some (FUNC_RETURN_OK, co\<lparr>co_mgr := m\<rparr>)
      })"

text \<open>Both brokers and the clean-up give the kicked containers back in the same way.\<close>

fun returnContainers :: "GRMContainer list \<Rightarrow> ResourcePool \<Rightarrow> ResourcePool option" where
  "returnContainers [] p = Some p"
| "returnContainers (ctn # ctns) p = do {
     let p = p\<lparr>KickedContainers := ctns\<rparr>;
     p \<leftarrow> (if gc_CalcDecPending ctn then do {
             a \<leftarrow> gc_Resource ctn;
             s \<leftarrow> rp_heap p a;
             Some (put_seg p a (s\<lparr>sr_DecPending := minusResourceBundleData (sr_DecPending s) (gc_MemoryMB ctn) (of_int (gc_Core ctn))\<rparr>))
           }
           else Some p);
     returnContainers ctns (p\<lparr>RetPendingContainerCount := RetPendingContainerCount p - 1\<rparr>)
   }"

definition RB_NONE_returnResource :: "ResourcePool \<Rightarrow> (drm_code \<times> ResourcePool) option" where
  "RB_NONE_returnResource p = do { p \<leftarrow> returnContainers (KickedContainers p) p; Some (FUNC_RETURN_OK, p) }"

definition RB_clearResource :: "ResourcePool \<Rightarrow> ResourcePool option" where
  "RB_clearResource p = returnContainers (KickedContainers p) p"

end
