(* ===== verification/RM_Container_Props.thy ===== *)
theory RM_Container_Props
  imports RM_Container RM_Pool_Hosts
begin

text \<open>
  The accounts of the containers.  Every container is in one of three places of the pool: it waits to become part
  of it, belongs to a segment, or waits to be returned; or a message carries it.  The lemmas say of every operation
  how it changes the containers of the pool as a whole, and the two counters of pending containers.
\<close>

section \<open>The containers of the pool\<close>

text \<open>What a container keeps all its life: its id, its size and its host.\<close>

type_synonym ident = "int \<times> int \<times> int \<times> uint8 list"

definition ident :: "GRMContainer \<Rightarrow> ident" where
  "ident ctn = (gc_ID ctn, gc_MemoryMB ctn, gc_Core ctn, gc_HostName ctn)"

lemma ident_update [simp]:
  "ident (ctn\<lparr>gc_Life := l\<rparr>) = ident ctn" "ident (ctn\<lparr>gc_CalcDecPending := b\<rparr>) = ident ctn" "ident (ctn\<lparr>gc_Resource := r\<rparr>) = ident ctn"
  by (simp_all add: ident_def)

definition idents :: "GRMContainer list \<Rightarrow> ident multiset" where
  "idents ctns = mset (map ident ctns)"

lemma idents_simps [simp]:
  "idents [] = {#}" "idents (c # cs) = add_mset (ident c) (idents cs)" "idents (cs @ ds) = idents cs + idents ds"
  "size (idents cs) = length cs"
  by (simp_all add: idents_def)

definition set_ids :: "GRMContainerSet option \<Rightarrow> ident multiset" where
  "set_ids c = (case c of None \<Rightarrow> {#} | Some ctns \<Rightarrow> idents (cs_Containers ctns))"

lemma set_ids_simps [simp]: "set_ids None = {#}" "set_ids (Some c) = idents (cs_Containers c)"
  by (simp_all add: set_ids_def)

definition seg_ids :: "SegResource \<Rightarrow> ident multiset" where
  "seg_ids s = sum_list (map set_ids (sr_ContainerSets s))"

definition pool_ids :: "ResourcePool \<Rightarrow> ident multiset" where
  "pool_ids p = (\<Sum>a \<in> dom (rp_heap p). seg_ids (the (rp_heap p a)))"

definition joining :: "ResourcePool \<Rightarrow> ident multiset" where
  "joining p = pair_sum set_ids (ToAcceptContainers p) + idents (AcceptedContainers p)"

definition leaving :: "ResourcePool \<Rightarrow> ident multiset" where
  "leaving p = pair_sum set_ids (ToKickContainers p) + idents (KickedContainers p)"

definition everything :: "ResourcePool \<Rightarrow> ident multiset" where
  "everything p = joining p + pool_ids p + leaving p"

definition add_gap :: "ResourcePool \<Rightarrow> int" where
  "add_gap p = AddPendingContainerCount p - int (size (joining p))"

definition ret_gap :: "ResourcePool \<Rightarrow> int" where
  "ret_gap p = RetPendingContainerCount p - int (size (leaving p))"

definition name_ok :: "ident \<Rightarrow> bool" where
  "name_ok x \<longleftrightarrow> (case x of (i, m, c, host) \<Rightarrow> 0 \<notin> set host)"

abbreviation sets_inv :: "(SimpString, GRMContainerSet) HASHTABLE \<Rightarrow> bool" where
  "sets_inv t \<equiv> ht_inv HASHTABLE_Hash_SIMPSTR HASHTABLE_Comp_SIMPSTR simpstr_ok t"

definition container_wf :: "ResourcePool \<Rightarrow> bool" where
  "container_wf p \<longleftrightarrow> finite (dom (rp_heap p)) \<and> sets_inv (ToAcceptContainers p) \<and> sets_inv (ToKickContainers p) \<and>
     (\<forall>x \<in># everything p. name_ok x)"

text \<open>The operation adds the containers \<open>X\<close> to the pool, and counts those that are to join or to leave; it changes no count
  otherwise.\<close>

definition gains :: "ResourcePool \<Rightarrow> ident multiset \<Rightarrow> ResourcePool \<Rightarrow> bool" where
  "gains p X p' \<longleftrightarrow> container_wf p' \<and> everything p' = everything p + X \<and> add_gap p' = add_gap p \<and> ret_gap p' = ret_gap p"

lemma gains_trans: "gains p X p' \<Longrightarrow> gains p' Y p'' \<Longrightarrow> gains p (X + Y) p''"
  by (simp add: gains_def ac_simps)

lemma gains_none: "gains p {#} p' \<Longrightarrow> gains p' X p'' \<Longrightarrow> gains p X p''"
  using gains_trans by fastforce

text \<open>What the accounts read.\<close>

definition same_places :: "ResourcePool \<Rightarrow> ResourcePool \<Rightarrow> bool" where
  "same_places p p' \<longleftrightarrow> rp_heap p' = rp_heap p \<and> ToAcceptContainers p' = ToAcceptContainers p \<and> ToKickContainers p' = ToKickContainers p \<and>
     AcceptedContainers p' = AcceptedContainers p \<and> KickedContainers p' = KickedContainers p \<and>
     AddPendingContainerCount p' = AddPendingContainerCount p \<and> RetPendingContainerCount p' = RetPendingContainerCount p"

lemmas account_defs = everything_def joining_def leaving_def pool_ids_def add_gap_def ret_gap_def

lemma same_places_gains: "container_wf p \<Longrightarrow> same_places p p' \<Longrightarrow> gains p {#} p'"
  by (simp add: same_places_def gains_def container_wf_def account_defs)

lemma same_places_trans: "same_places p p' \<Longrightarrow> same_places p' p'' \<Longrightarrow> same_places p p''"
  by (simp add: same_places_def)

lemma same_places_reorder:
  "reorderSegResourceAvailIndex m p a r = Some (res, p') \<Longrightarrow> same_places p p'"
  "reorderSegResourceAllocIndex m p a r = Some (res, p') \<Longrightarrow> same_places p p'"
  by (auto simp: reorderSegResourceAvailIndex_def reorderSegResourceAllocIndex_def same_places_def Let_def bind_eq_Some_conv split: if_splits)

lemma pool_ids_put:
  assumes "finite (dom (rp_heap p))" "rp_heap p a = Some s"
  shows "pool_ids (put_seg p a s') + seg_ids s = pool_ids p + seg_ids s'"
proof -
  have d: "insert a (dom (rp_heap p)) = dom (rp_heap p)" "a \<in> dom (rp_heap p)" using assms(2) by auto
  show ?thesis
    unfolding pool_ids_def put_seg_def
    using assms d by (simp add: sum.remove [OF assms(1) d(2)] ac_simps)
qed

lemma sum_list_update_ids: "k < length xs \<Longrightarrow> sum_list (xs[k := y]) + xs ! k = sum_list xs + (y :: ident multiset)"
  by (induction xs arbitrary: k) (auto simp: nth_Cons' list_update_def ac_simps split: nat.splits)

lemma seg_ids_put:
  assumes "0 \<le> i" "i < int (length (sr_ContainerSets s))"
  shows "seg_ids (put_ctn_set s i c) + set_ids (ctn_set s i) = seg_ids s + idents (cs_Containers c)"
  using sum_list_update_ids [of "nat i" "map set_ids (sr_ContainerSets s)" "set_ids (Some c)"] assms
  by (simp add: seg_ids_def put_ctn_set_def map_update ctn_set_def nat_less_iff)

lemma seg_ids_put_Some:
  "ctn_set s i = Some d \<Longrightarrow> seg_ids (put_ctn_set s i c) + idents (cs_Containers d) = seg_ids s + idents (cs_Containers c)"
  using seg_ids_put [of i s c] by (auto simp: ctn_set_def split: if_splits)

lemma seg_ids_update [simp]:
  "seg_ids (s\<lparr>sr_Allocated := b\<rparr>) = seg_ids s" "seg_ids (s\<lparr>sr_Available := b\<rparr>) = seg_ids s"
  "seg_ids (s\<lparr>sr_IncPending := b\<rparr>) = seg_ids s" "seg_ids (s\<lparr>sr_DecPending := b\<rparr>) = seg_ids s"
  "seg_ids (s\<lparr>sr_OldInuse := b\<rparr>) = seg_ids s" "seg_ids (s\<lparr>sr_GRMContainerCount := n\<rparr>) = seg_ids s"
  by (simp_all add: seg_ids_def)

lemma createAndGet_ids [simp]: "seg_ids (snd (snd (createAndGetGRMContainerSet m s r))) = seg_ids s"
proof (cases "getResourceQueueRatioIndex m r < int (length (sr_ContainerSets s))")
  case True
  then show ?thesis
    using seg_ids_put [of "getResourceQueueRatioIndex m r" s createGRMContainerSet]
    by (auto simp: createAndGetGRMContainerSet_def Let_def createGRMContainerSet_def split: option.splits)
next
  case False
  then have "length (sr_ContainerSets s) \<le> nat (getResourceQueueRatioIndex m r)" by simp
  then show ?thesis
    by (auto simp: createAndGetGRMContainerSet_def Let_def put_ctn_set_def seg_ids_def list_update_beyond split: option.splits)
qed

lemma seg_ids_append [simp]:
  "ctn_set s i = Some c \<Longrightarrow> seg_ids (put_ctn_set s i (appendGRMContainerSetContainer c ctn)) = seg_ids s + {#ident ctn#}"
  using seg_ids_put_Some [of s i c "appendGRMContainerSetContainer c ctn"] by (simp add: appendGRMContainerSetContainer_def)

lemma seg_ids_pop:
  "ctn_set s i = Some c \<Longrightarrow> popGRMContainerSetContainerList c = (Some ctn, c') \<Longrightarrow> seg_ids s = seg_ids (put_ctn_set s i c') + {#ident ctn#}"
  using seg_ids_put_Some [of s i c c'] by (auto simp: popGRMContainerSetContainerList_def split: list.splits)

text \<open>Changing a segment changes the whole by what its sets have more or less.\<close>

lemma put_seg_fields [simp]:
  "rp_heap (put_seg p a s) = (rp_heap p)(a \<mapsto> s)" "ToAcceptContainers (put_seg p a s) = ToAcceptContainers p"
  "ToKickContainers (put_seg p a s) = ToKickContainers p" "AcceptedContainers (put_seg p a s) = AcceptedContainers p"
  "KickedContainers (put_seg p a s) = KickedContainers p" "AddPendingContainerCount (put_seg p a s) = AddPendingContainerCount p"
  "RetPendingContainerCount (put_seg p a s) = RetPendingContainerCount p"
  by (simp_all add: put_seg_def)

lemma put_seg_accounts:
  assumes "container_wf p" "rp_heap p a = Some s"
  shows "everything (put_seg p a s') + seg_ids s = everything p + seg_ids s'"
    "add_gap (put_seg p a s') = add_gap p" "ret_gap (put_seg p a s') = ret_gap p"
  using assms pool_ids_put [of p a s s']
  by (simp_all add: container_wf_def everything_def add_gap_def ret_gap_def joining_def leaving_def ac_simps)

lemma put_seg_gains:
  assumes "container_wf p" "rp_heap p a = Some s" "seg_ids s' = seg_ids s + X" "\<forall>x \<in># X. name_ok x"
  shows "gains p X (put_seg p a s')"
  using assms put_seg_accounts [OF assms(1,2), of s'] by (auto simp: gains_def container_wf_def)

lemma put_seg_loses:
  assumes "container_wf p" "rp_heap p a = Some s" "seg_ids s = seg_ids s' + X"
  shows "container_wf (put_seg p a s')" "gains (put_seg p a s') X p"
proof -
  have "everything p = everything (put_seg p a s') + X"
    using put_seg_accounts(1) [OF assms(1,2), of s'] assms(3) by (simp add: ac_simps)
  then show "container_wf (put_seg p a s')" "gains (put_seg p a s') X p"
    using assms put_seg_accounts(2,3) [OF assms(1,2), of s'] by (auto simp: gains_def container_wf_def)
qed

lemma gains_cancel:
  assumes "gains q X p" "gains q X p'"
  shows "gains p {#} p'"
  using assms by (simp add: gains_def)

section \<open>The operations on one container\<close>

lemma host_set_ids:
  assumes "sets_inv t" "0 \<notin> set host"
  shows "(case ht_get t (name_key host) of None \<Rightarrow> {#} | Some u \<Rightarrow> set_ids u) = idents (cs_Containers (host_set t host))"
  by (auto simp: ht_get_def host_set_def createGRMContainerSet_def split: option.splits prod.splits)

lemma add_to_host_spec:
  assumes "sets_inv t" "0 \<notin> set (gc_HostName ctn)"
  shows "sets_inv (add_to_host t ctn)" "pair_sum set_ids (add_to_host t ctn) = pair_sum set_ids t + {#ident ctn#}"
proof -
  have k: "simpstr_ok (name_key (gc_HostName ctn))" using assms(2) by (simp add: name_key_ok)
  show "sets_inv (add_to_host t ctn)"
    unfolding add_to_host_def by (rule key_simpstr.ht_keyed(1) [OF assms(1) k k])
  show "pair_sum set_ids (add_to_host t ctn) = pair_sum set_ids t + {#ident ctn#}"
    using key_simpstr.pair_sum_set [OF assms(1) k, of set_ids "Some (appendGRMContainerSetContainer (host_set t (gc_HostName ctn)) ctn)"]
    unfolding add_to_host_def host_set_ids [OF assms]
    by (simp add: appendGRMContainerSetContainer_def)
qed

lemma name_ok_ident [simp]: "name_ok (ident ctn) \<longleftrightarrow> 0 \<notin> set (gc_HostName ctn)"
  by (simp add: name_ok_def ident_def)

lemma kicked_gains: "container_wf p \<Longrightarrow> 0 \<notin> set (gc_HostName ctn) \<Longrightarrow> gains p {#ident ctn#} (addGRMContainerToKicked p ctn)"
  by (auto simp: gains_def container_wf_def account_defs addGRMContainerToKicked_def)

lemma accept_gains:
  assumes "container_wf p" "0 \<notin> set (gc_HostName ctn)"
  shows "gains p {#ident ctn#} (p\<lparr>ToAcceptContainers := add_to_host (ToAcceptContainers p) ctn, AddPendingContainerCount := AddPendingContainerCount p + 1\<rparr>)"
  using assms add_to_host_spec [of "ToAcceptContainers p" ctn]
  by (auto simp: gains_def container_wf_def account_defs)

lemma kick_gains:
  assumes "container_wf p" "0 \<notin> set (gc_HostName ctn)"
  shows "gains p {#ident ctn#} (p\<lparr>ToKickContainers := add_to_host (ToKickContainers p) ctn, RetPendingContainerCount := RetPendingContainerCount p + 1\<rparr>)"
  using assms add_to_host_spec [of "ToKickContainers p" ctn]
  by (auto simp: gains_def container_wf_def account_defs)

lemma gains_wf: "gains p X p' \<Longrightarrow> container_wf p'"
  by (simp add: gains_def)

lemma recognize_gains:
  assumes "recognizeContainer resolve p ctn = (res, ctn', p')" "container_wf p" "0 \<notin> set (gc_HostName ctn)"
  shows "res = FUNC_RETURN_OK \<Longrightarrow> gains p {#} p' \<and> ident ctn' = ident ctn \<and> gc_HostName ctn' = gc_HostName ctn"
    and "res \<noteq> FUNC_RETURN_OK \<Longrightarrow> gains p {#ident ctn#} p'"
proof -
  have g: "same_places p (p\<lparr>GRMHostNameIndexed := t\<rparr>)" for t by (simp add: same_places_def)
  have *: "gains p {#} (p\<lparr>GRMHostNameIndexed := t\<rparr>)" for t by (rule same_places_gains [OF assms(2) g])
  show "res = FUNC_RETURN_OK \<Longrightarrow> gains p {#} p' \<and> ident ctn' = ident ctn \<and> gc_HostName ctn' = gc_HostName ctn"
    using assms(1) * same_places_gains [OF assms(2), of p]
    by (auto simp: recognizeContainer_def getSegIDByGRMHostName_def same_places_def split: if_splits prod.splits)
  show "res \<noteq> FUNC_RETURN_OK \<Longrightarrow> gains p {#ident ctn#} p'"
    using assms(1) gains_none [OF * kicked_gains [OF gains_wf [OF *] assms(3)]]
    by (auto simp: recognizeContainer_def getSegIDByGRMHostName_def split: if_splits prod.splits)
qed

lemma toBeAccepted_gains:
  assumes "addGRMContainerToToBeAccepted resolve p ctn = Some (res, p')" "container_wf p" "0 \<notin> set (gc_HostName ctn)"
  shows "gains p {#ident ctn#} p'"
proof -
  obtain r c q where r: "recognizeContainer resolve p ctn = (r, c, q)" by (metis prod_cases3)
  note rec = recognize_gains [OF r assms(2,3)]
  show ?thesis
  proof (cases "r = FUNC_RETURN_OK")
    case False
    then show ?thesis using assms(1) r rec(2) by (simp add: addGRMContainerToToBeAccepted_def)
  next
    case True
    then obtain a s where s: "rp_heap q a = Some s"
      and p': "p' = (let q = put_seg q a (s\<lparr>sr_IncPending := addResourceBundleData (sr_IncPending s) (gc_MemoryMB c) (of_int (gc_Core c))\<rparr>) in
        q\<lparr>ToAcceptContainers := add_to_host (ToAcceptContainers q) c, AddPendingContainerCount := AddPendingContainerCount q + 1\<rparr>)"
      using assms(1) r by (auto simp: addGRMContainerToToBeAccepted_def bind_eq_Some_conv Let_def)
    have q: "gains p {#} q" "ident c = ident ctn" "0 \<notin> set (gc_HostName c)" using rec(1) [OF True] assms(3) by auto
    have "gains q {#} (put_seg q a (s\<lparr>sr_IncPending := addResourceBundleData (sr_IncPending s) (gc_MemoryMB c) (of_int (gc_Core c))\<rparr>))"
      by (rule put_seg_gains [OF gains_wf [OF q(1)] s]) (simp_all add: seg_ids_def)
    from gains_none [OF gains_none [OF q(1) this] accept_gains [OF gains_wf [OF this] q(3)]]
    show ?thesis unfolding p' Let_def q(2) .
  qed
qed

lemma toBeKicked_gains:
  assumes "addGRMContainerToToBeKicked p ctn = Some p'" "container_wf p" "0 \<notin> set (gc_HostName ctn)"
  shows "gains p {#ident ctn#} p'"
proof -
  let ?c = "ctn\<lparr>gc_CalcDecPending := True\<rparr>"
  obtain a s where s: "rp_heap p a = Some s"
    and p': "p' = (let q = put_seg p a (s\<lparr>sr_DecPending := addResourceBundleData (sr_DecPending s) (gc_MemoryMB ctn) (of_int (gc_Core ctn))\<rparr>) in
        q\<lparr>ToKickContainers := add_to_host (ToKickContainers q) ?c, RetPendingContainerCount := RetPendingContainerCount q + 1\<rparr>)"
    using assms(1) by (auto simp: addGRMContainerToToBeKicked_def bind_eq_Some_conv Let_def put_seg_def)
  have "gains p {#} (put_seg p a (s\<lparr>sr_DecPending := addResourceBundleData (sr_DecPending s) (gc_MemoryMB ctn) (of_int (gc_Core ctn))\<rparr>))"
    by (rule put_seg_gains [OF assms(2) s]) (simp_all add: seg_ids_def)
  from gains_none [OF this kick_gains [OF gains_wf [OF this], of ?c]] show ?thesis
    unfolding p' Let_def using assms(3) by simp
qed

section \<open>Containers in and out of the segments\<close>

lemma reorder_gains:
  assumes "gains p X q"
  shows "ensures (reorderSegResourceAvailIndex m q a r) (\<lambda>(res, p'). gains p X p')"
    "ensures (reorderSegResourceAllocIndex m q a r) (\<lambda>(res, p'). gains p X p')"
  using gains_trans [OF assms same_places_gains [OF gains_wf [OF assms]]] same_places_reorder
  unfolding ensures_def by fastforce+

lemma reorderBoth_gains: "gains p X q \<Longrightarrow> ensures (reorderBoth m q a r) (gains p X)"
  unfolding reorderBoth_def
  by (rule ensures_then [OF reorder_gains(1)], assumption, clarify, rule ensures_then [OF reorder_gains(2)], assumption) (auto intro: wp)

lemma addToResPool_gains:
  assumes "container_wf p" "0 \<notin> set (gc_HostName ctn)"
  shows "ensures (addGRMContainerToResPool m p ctn) (gains p {#ident ctn#})"
  unfolding addGRMContainerToResPool_def Let_def split_def
  by (intro ensures_bind reorderBoth_gains, rule put_seg_gains [OF assms(1)]) (use assms(2) in auto)

lemma toBeAccepted_ensures:
  assumes "container_wf p" "0 \<notin> set (gc_HostName ctn)"
  shows "ensures (addGRMContainerToToBeAccepted resolve p ctn) (\<lambda>(res, p'). gains p {#ident ctn#} p')"
  using toBeAccepted_gains [OF _ assms] by (auto simp: ensures_def)

text \<open>A container that leaves its segment and goes on to another place.\<close>

lemma seg_ids_in:
  assumes "container_wf p" "rp_heap p a = Some s" "x \<in># seg_ids s"
  shows "name_ok x"
proof -
  have "everything p = everything (put_seg p a s)" using put_seg_accounts(1) [OF assms(1,2), of s] by simp
  then have "seg_ids s \<subseteq># everything p"
    using assms(1,2) put_seg_accounts(1) [OF assms(1,2), of "s\<lparr>sr_ContainerSets := []\<rparr>"]
    by (simp add: seg_ids_def) (metis mset_subset_eq_add_right)
  then show ?thesis using assms(1,3) by (auto simp: container_wf_def dest: mset_subset_eqD)
qed

lemma out_of_segment:
  assumes "container_wf p" "rp_heap p a = Some s" "seg_ids s = seg_ids s' + {#ident ctn#}"
  shows "0 \<notin> set (gc_HostName ctn)" "gains p {#} (put_seg (addGRMContainerToKicked p ctn) a s')"
    "ensures (addGRMContainerToToBeKicked (put_seg p a s') ctn) (gains p {#})"
proof -
  have "ident ctn \<in># seg_ids s" using assms(3) by simp
  from seg_ids_in [OF assms(1,2) this] show host: "0 \<notin> set (gc_HostName ctn)" by simp
  note lose = put_seg_loses [OF assms]
  have "put_seg (addGRMContainerToKicked p ctn) a s' = addGRMContainerToKicked (put_seg p a s') ctn"
    by (simp add: put_seg_def addGRMContainerToKicked_def)
  then show "gains p {#} (put_seg (addGRMContainerToKicked p ctn) a s')"
    using gains_cancel [OF lose(2) kicked_gains [OF lose(1) host]] by simp
  show "ensures (addGRMContainerToToBeKicked (put_seg p a s') ctn) (gains p {#})"
    using gains_cancel [OF lose(2)] toBeKicked_gains [OF _ lose(1) host] by (auto simp: ensures_def)
qed

lemma kickAll_gains: "container_wf p \<Longrightarrow> ensures (kickAll a i n p) (gains p {#})"
proof (induction n arbitrary: p)
  case (Suc n)
  show ?case unfolding kickAll.simps Let_def
  proof (intro wp)
    fix s ctns c ctns' ctn
    assume s: "rp_heap p a = Some s" "ctn_set s i = Some ctns" "popGRMContainerSetContainerList ctns = (c, ctns')" "c = Some ctn"
    let ?s = "(put_ctn_set s i ctns')\<lparr>sr_Allocated := minusResourceBundleData (sr_Allocated (put_ctn_set s i ctns')) (gc_MemoryMB ctn) (of_int (gc_Core ctn)),
       sr_Available := minusResourceBundleData (sr_Available (put_ctn_set s i ctns')) (gc_MemoryMB ctn) (of_int (gc_Core ctn))\<rparr>"
    have "gains p {#} (put_seg (addGRMContainerToKicked p ctn) a ?s)"
      using seg_ids_pop [OF s(2)] s by (intro out_of_segment(2) [OF Suc.prems s(1)]) simp
    then show "ensures (kickAll a i n (put_seg (addGRMContainerToKicked p ctn) a ?s)) (gains p {#})"
      using ensures_weaken [OF Suc.IH [OF gains_wf]] gains_none by blast
  qed
qed (simp add: ensures_def same_places_gains same_places_def)

lemma ensures_chain:
  "gains p X q \<Longrightarrow> (container_wf q \<Longrightarrow> ensures r (gains q {#})) \<Longrightarrow> ensures r (gains p X)"
  using gains_wf gains_trans by (fastforce simp: ensures_def)

lemma gains_refl: "container_wf p \<Longrightarrow> gains p {#} p"
  by (simp add: gains_def)

lemma dropAll_gains: "container_wf p \<Longrightarrow> ensures (dropAll a i n p) (gains p {#})"
proof (induction n arbitrary: p)
  case (Suc n)
  show ?case unfolding dropAll.simps Let_def
  proof (intro ensures_bind ensures_prod)
    fix s ctns c ctns' ctn p'
    assume s: "rp_heap p a = Some s" "ctn_set s i = Some ctns" "popGRMContainerSetContainerList ctns = (c, ctns')" "c = Some ctn"
      and p': "addGRMContainerToToBeKicked (put_seg p a (put_ctn_set s i ctns')) ctn = Some p'"
    have "seg_ids s = seg_ids (put_ctn_set s i ctns') + {#ident ctn#}" using seg_ids_pop [OF s(2)] s by simp
    from ensuresD [OF out_of_segment(3) [OF Suc.prems s(1) this] p'] show "ensures (dropAll a i n p') (gains p {#})"
      using Suc.IH by (rule ensures_chain)
  qed
qed (simp add: ensures_def gains_refl)

text \<open>The two indices are reordered after every change.\<close>

lemma reorderTwo_gains:
  assumes "gains p X q"
  shows "ensures (do { (res, p) \<leftarrow> reorderSegResourceAllocIndex m q a r; (res, p) \<leftarrow> reorderSegResourceAvailIndex m p a r; Some p }) (gains p X)"
  by (rule ensures_then [OF reorder_gains(2) [OF assms]], clarify, rule ensures_then [OF reorder_gains(1)], assumption) (auto intro: wp)

lemma returnRatio_gains: "container_wf p \<Longrightarrow> ensures (returnRatioFromSegment m a p i) (gains p {#})"
  unfolding returnRatioFromSegment_def
  by (rule ensures_bind, rule ensures_option, rule ensures_Some, erule gains_refl, rule ensures_then [OF kickAll_gains], assumption,
      rule ensures_bind, rule reorderTwo_gains)

lemma put_same_gains:
  "gains p X q \<Longrightarrow> rp_heap q a = Some s \<Longrightarrow> seg_ids s' = seg_ids s \<Longrightarrow> gains p X (put_seg q a s')"
  using gains_trans [of p X q "{#}"] put_seg_gains [of q a s s' "{#}"] gains_wf by auto

lemma fold_gains:
  assumes "container_wf p" "\<And>p x. container_wf p \<Longrightarrow> ensures (f p x) (gains p {#})"
  shows "ensures (fold_opt f p xs) (gains p {#})"
  by (rule ensures_fold [where I = "gains p {#}", OF gains_refl [OF assms(1)]]) (rule ensures_chain, assumption, rule assms(2))

lemma returnAll_gains: "container_wf p \<Longrightarrow> ensures (returnAllGRMResourceFromSegment m p a) (gains p {#})"
  unfolding returnAllGRMResourceFromSegment_def
  by (rule ensures_then [OF fold_gains], assumption, rule returnRatio_gains) (auto intro!: wp intro: put_same_gains)

lemma set_containers_ids:
  "ctn_set s i = Some c \<Longrightarrow> cs_Containers c' = cs_Containers c \<Longrightarrow> seg_ids (put_ctn_set s i c') = seg_ids s"
  using seg_ids_put_Some [of s i c c'] by simp

lemma dropRatio_gains: "container_wf p \<Longrightarrow> ensures (dropRatioFromSegment m a p i) (gains p {#})"
  unfolding dropRatioFromSegment_def Let_def
  by (rule ensures_bind, rule ensures_option, rule ensures_Some, erule gains_refl, rule ensures_then [OF dropAll_gains], assumption,
      rule ensures_bind, rule ensures_bind, rule ensures_bind, rule reorderTwo_gains,
      erule put_same_gains, assumption) (auto intro: set_containers_ids)

lemma dropAllFromSegment_gains: "container_wf p \<Longrightarrow> ensures (dropAllGRMContainersFromSegment m p a) (gains p {#})"
  unfolding dropAllGRMContainersFromSegment_def Let_def
  by (rule ensures_bind, rule ensures_then [OF ensures_chain [OF put_same_gains [OF gains_refl] fold_gains]])
    (auto intro!: wp dropRatio_gains intro: put_same_gains)

section \<open>Returning idle and unreported containers\<close>

lemma kicked_from_segment:
  assumes "container_wf p" "rp_heap p a = Some s" "seg_ids s = seg_ids s' + {#ident ctn#}"
  shows "ensures (do { (res, p) \<leftarrow> reorderSegResourceAllocIndex m (put_seg p a s') a r; (res, p) \<leftarrow> reorderSegResourceAvailIndex m p a r;
      addGRMContainerToToBeKicked p ctn }) (gains p {#})"
proof -
  note lose = put_seg_loses [OF assms]
  have "ensures (addGRMContainerToToBeKicked q ctn) (gains p {#})" if "gains (put_seg p a s') {#} q" for q
    using gains_cancel [OF lose(2) gains_none [OF that]] toBeKicked_gains [OF _ gains_wf [OF that] out_of_segment(1) [OF assms]]
    by (auto simp: ensures_def)
  then show ?thesis
    by (intro ensures_then [OF reorder_gains(2) [OF gains_refl [OF lose(1)]]] ensures_prod) (clarsimp, rule ensures_then [OF reorder_gains(1)], auto)
qed

lemma kicked_from_segmentI:
  assumes "reorderSegResourceAllocIndex m (put_seg p a s') a r = Some x" "reorderSegResourceAvailIndex m (snd x) a r = Some y"
    "addGRMContainerToToBeKicked (snd y) ctn = Some p'" "container_wf p" "rp_heap p a = Some s" "seg_ids s = seg_ids s' + {#ident ctn#}"
  shows "gains p {#} p'"
  using ensuresD [OF kicked_from_segment [OF assms(4-6), of m r], of p'] assms(1-3) by (simp add: split_def)

lemma seg_ids_pop_first:
  "ctn_set s i = Some c \<Longrightarrow> (case cs_Containers c of [] \<Rightarrow> None | x # xs \<Rightarrow> Some x) = Some ctn
   \<Longrightarrow> seg_ids s = add_mset (ident ctn) (seg_ids (put_ctn_set s i (snd (popGRMContainerSetContainerList c))))"
  using seg_ids_pop [of s i c ctn "snd (popGRMContainerSetContainerList c)"]
  by (auto simp: popGRMContainerSetContainerList_def split: list.splits)

lemma timeoutLoop_gains:
  assumes "getResourceQueueRatioIndex m ratio = i"
  shows "container_wf p \<Longrightarrow> ensures (timeoutLoop m ratio i k n sk rr p) (\<lambda>(sk, rr, p'). gains p {#} p')"
proof (induction n arbitrary: sk rr p)
  case (Suc n)
  have chain: "ensures (timeoutLoop m ratio i k n sk' rr' q) (\<lambda>(sk, rr, p'). gains p {#} p')" if "gains p {#} q" for sk' rr' q
    using ensures_weaken [OF Suc.IH [OF gains_wf [OF that], of sk' rr']] gains_none [OF that] by auto
  have drop: "gains p {#} (p\<lparr>OrderedSegResAllocByRatio := t\<rparr>)" for t
    by (rule same_places_gains [OF Suc.prems]) (simp add: same_places_def)
  show ?case unfolding timeoutLoop.simps Let_def
    by (intro wp; (simp add: gains_refl Suc.prems; fail)?; rule chain, (rule drop)?;
        (rule kicked_from_segmentI [OF _ _ _ Suc.prems], assumption, simp, simp, assumption))
      (use assms in \<open>auto simp: getGRMContainerSet_def Let_def split: if_splits intro: seg_ids_pop_first\<close>)
qed (simp add: ensures_def gains_refl)

lemma foldl_insert_places: "same_places p (p\<lparr>OrderedSegResAllocByRatio := t\<rparr>)"
  by (simp add: same_places_def)

lemma timeoutByRatio_gains:
  assumes "container_wf p"
  shows "ensures (timeoutIdleGRMResourceToRBByRatio m p i n k) (\<lambda>(rr, p'). gains p {#} p')"
  unfolding timeoutIdleGRMResourceToRBByRatio_def Let_def
  by (rule ensures_bind, rule ensures_if, simp add: ensures_def gains_refl assms,
      rule ensures_then [OF timeoutLoop_gains [OF refl assms]], intro wp)
    (auto intro: gains_none same_places_gains gains_wf foldl_insert_places)

definition pool_kept :: "ResourcePool \<Rightarrow> 'm \<times> ResourcePool \<Rightarrow> bool" where
  "pool_kept p mp \<longleftrightarrow> gains p {#} (snd mp)"

lemma forceReturn_gains:
  assumes "container_wf p"
  shows "ensures (forceReturnGRMResourceToRB m p) (pool_kept p)"
  unfolding forceReturnGRMResourceToRB_def Let_def
  by (rule ensures_then [OF timeoutByRatio_gains [OF assms]], intro wp) (auto simp: pool_kept_def)

lemma timeoutRatio_gains:
  assumes "container_wf (snd mp)"
  shows "ensures (timeoutRatio w mp i) (pool_kept (snd mp))"
  unfolding timeoutRatio_def Let_def
  by (intro ensures_prod ensures_bind ensures_list ensures_if ensures_Some ensures_then [OF timeoutByRatio_gains])
    (use assms in \<open>auto simp: pool_kept_def gains_refl\<close>)

lemma kept_chain: "pool_kept p mp \<Longrightarrow> (container_wf (snd mp) \<Longrightarrow> ensures r (pool_kept (snd mp))) \<Longrightarrow> ensures r (pool_kept p)"
  using gains_none gains_wf by (fastforce simp: ensures_def pool_kept_def)

lemma kept_fold:
  assumes "container_wf p" "\<And>mp x. container_wf (snd mp) \<Longrightarrow> ensures (f mp x) (pool_kept (snd mp))"
  shows "ensures (fold_opt f (m, p) xs) (pool_kept p)"
  by (rule ensures_fold [where I = "pool_kept p"], simp add: pool_kept_def gains_refl assms(1)) (rule kept_chain, assumption, rule assms(2))

lemma timeoutIdle_gains: "container_wf p \<Longrightarrow> ensures (timeoutIdleGRMResourceToRB imp w m p) (pool_kept p)"
  unfolding timeoutIdleGRMResourceToRB_def
  by (rule ensures_if, simp add: ensures_def pool_kept_def gains_refl) (rule kept_fold, assumption, rule timeoutRatio_gains)

lemma returnUnavailable_gains: "container_wf p \<Longrightarrow> ensures (returnAllGRMResourceFromGRMUnavailableSegments m p) (pool_kept p)"
  unfolding returnAllGRMResourceFromGRMUnavailableSegments_def
proof (rule kept_fold, assumption)
  fix mp :: "DynResourceQueueManager \<times> ResourcePool" and pair :: "(uint64, addr) PAIR"
  assume wf: "container_wf (snd mp)"
  show "ensures (returnWhenUnavailable mp pair) (pool_kept (snd mp))"
    unfolding returnWhenUnavailable_def Let_def
    by (rule ensures_prod, (rule ensures_bind)+, rule ensures_if, rule ensures_Some, use wf in \<open>simp add: pool_kept_def gains_refl\<close>,
        rule ensures_bind, rule ensures_prod, rule ensures_then [OF returnAll_gains], use wf in simp)
      (simp add: pool_kept_def ensures_def)
qed

text \<open>Taking a container out of the middle of a set.\<close>

lemma seg_ids_take:
  assumes "ctn_set s i = Some c" "item_at (cs_Containers c) k = Some ctn"
    "cs_Containers c' = take k (cs_Containers c) @ drop (Suc k) (cs_Containers c)"
  shows "seg_ids s = seg_ids (put_ctn_set s i c') + {#ident ctn#}"
proof -
  have "cs_Containers c = take k (cs_Containers c) @ ctn # drop (Suc k) (cs_Containers c)"
    using assms(2) by (auto simp: item_at_def id_take_nth_drop split: if_splits)
  then have "idents (cs_Containers c) = idents (cs_Containers c') + {#ident ctn#}"
    unfolding assms(3) by (metis (no_types, lifting) idents_simps(2,3) union_mset_add_mset_right add_mset_add_single)
  then have "seg_ids s + idents (cs_Containers c') = (seg_ids (put_ctn_set s i c') + {#ident ctn#}) + idents (cs_Containers c')"
    using seg_ids_put_Some [OF assms(1), of c'] by (simp add: ac_simps)
  then show ?thesis by (rule add_right_imp_eq)
qed

abbreviation check_kept :: "ResourcePool \<Rightarrow> CheckState \<Rightarrow> bool" where
  "check_kept p ck \<equiv> gains p {#} (ck_pool ck)"

lemma dropUnreported_gains:
  assumes "container_wf (ck_pool ck)"
  shows "ensures (dropUnreported a i k ck) (check_kept (ck_pool ck))"
  unfolding dropUnreported_def Let_def
  by (intro wp, simp) (rule kicked_from_segmentI [OF _ _ _ assms], assumption, simp, simp, assumption,
      simp only: seg_ids_update, rule seg_ids_take, assumption, assumption, simp)

lemma check_chain: "check_kept p ck \<Longrightarrow> (container_wf (ck_pool ck) \<Longrightarrow> ensures r (check_kept (ck_pool ck))) \<Longrightarrow> ensures r (check_kept p)"
  using gains_none gains_wf by (fastforce simp: ensures_def)

lemma checkContainers_gains:
  "container_wf (ck_pool ck) \<Longrightarrow> ensures (checkContainers tbl a i k n ck) (check_kept (ck_pool ck))"
proof (induction n arbitrary: k ck)
  case (Suc n)
  have drop: "ensures (do { ck \<leftarrow> dropUnreported a i k ck; checkContainers tbl a i k n ck }) (check_kept (ck_pool ck))"
    by (rule ensures_then [OF dropUnreported_gains [OF Suc.prems]]) (erule check_chain, erule Suc.IH)
  have keep: "ensures (checkContainers tbl a i (Suc k) n (ck\<lparr>ck_stats := st\<rparr>)) (check_kept (ck_pool ck))" for st
    using Suc.IH [of "ck\<lparr>ck_stats := st\<rparr>" "Suc k"] Suc.prems by simp
  show ?case unfolding checkContainers.simps Let_def
    by ((rule ensures_bind)+, rule ensures_option, rule drop, rule ensures_prod, rule ensures_option, rule drop, rule ensures_if, rule keep, rule drop)
qed (simp add: ensures_def gains_refl)

lemma checkRatio_gains: "container_wf (ck_pool ck) \<Longrightarrow> ensures (checkRatio tbl a ck i) (check_kept (ck_pool ck))"
  unfolding checkRatio_def
  by (rule ensures_bind, rule ensures_option, simp add: ensures_def gains_refl, erule checkContainers_gains)

lemma check_fold:
  assumes "container_wf (ck_pool ck)" "\<And>ck x. container_wf (ck_pool ck) \<Longrightarrow> ensures (f ck x) (check_kept (ck_pool ck))"
  shows "ensures (fold_opt f ck xs) (check_kept (ck_pool ck))"
  by (rule ensures_fold, simp add: gains_refl assms(1)) (rule check_chain, assumption, rule assms(2))

lemma checkSegment_gains: "container_wf (ck_pool ck) \<Longrightarrow> ensures (checkSegment tbl ck i) (check_kept (ck_pool ck))"
  unfolding checkSegment_def by (rule ensures_bind, erule check_fold, erule checkRatio_gains)

lemma checkStatus_gains: "container_wf p \<Longrightarrow> ensures (checkGRMContainerStatus m p stats) (check_kept p)"
  using check_fold [where ck = "\<lparr>ck_mgr = m, ck_pool = p, ck_stats = map (\<lambda>st. st\<lparr>cst_isFound := False\<rparr>) stats\<rparr>", OF _ checkSegment_gains]
  unfolding checkGRMContainerStatus_def by simp

end
