(* ===== verification/RM_Container_Cycle.thy ===== *)
theory RM_Container_Cycle
  imports RM_Container_Props
begin

text \<open>
  The life cycle of the containers as a whole: the steps of the resource manager on them, messages included, in any
  order.  No container is lost, no container is in two places, and the two counters of pending containers are exact;
  two operations are shown to break this.
\<close>

section \<open>Operations that change the counters\<close>

definition shifts :: "ResourcePool \<Rightarrow> ident multiset \<Rightarrow> int \<Rightarrow> int \<Rightarrow> ResourcePool \<Rightarrow> bool" where
  "shifts p X d e p' \<longleftrightarrow> container_wf p' \<and> everything p' = everything p + X \<and> add_gap p' = add_gap p + d \<and> ret_gap p' = ret_gap p + e"

lemma gains_shifts: "gains p X p' \<longleftrightarrow> shifts p X 0 0 p'"
  by (simp add: gains_def shifts_def)

lemma shifts_trans: "shifts p X d e p' \<Longrightarrow> shifts p' Y d' e' p'' \<Longrightarrow> shifts p (X + Y) (d + d') (e + e') p''"
  by (simp add: shifts_def ac_simps)

lemma shifts_gains: "shifts p X d e p' \<Longrightarrow> gains p' Y p'' \<Longrightarrow> shifts p (X + Y) d e p''"
  using shifts_trans [of p X d e p' Y 0 0 p''] by (simp add: gains_shifts)

lemma shifts_wf: "shifts p X d e p' \<Longrightarrow> container_wf p'"
  by (simp add: shifts_def)

lemma count_shifts:
  assumes "container_wf p"
  shows "shifts p {#} (-1) 0 (p\<lparr>AddPendingContainerCount := AddPendingContainerCount p - 1\<rparr>)"
    "shifts p {#} 0 (-1) (p\<lparr>RetPendingContainerCount := RetPendingContainerCount p - 1\<rparr>)"
  using assms by (simp_all add: shifts_def container_wf_def account_defs)

definition names_ok :: "GRMContainerSet \<Rightarrow> bool" where
  "names_ok ctns \<longleftrightarrow> (\<forall>x \<in># idents (cs_Containers ctns). name_ok x)"

lemma move_accepted_shifts:
  assumes "container_wf p" "names_ok ctns"
  shows "shifts p (idents (cs_Containers ctns)) (- int (length (cs_Containers ctns))) 0 (snd (moveGRMContainerSetToAccepted p ctns))"
  using assms by (auto simp: shifts_def container_wf_def account_defs moveGRMContainerSetToAccepted_def names_ok_def)

lemma move_kicked_shifts:
  assumes "container_wf p" "names_ok ctns"
  shows "shifts p (idents (cs_Containers ctns)) 0 (- int (length (cs_Containers ctns))) (snd (moveGRMContainerSetToKicked p ctns))"
  using assms by (auto simp: shifts_def container_wf_def account_defs moveGRMContainerSetToKicked_def names_ok_def)

lemma pop_cases:
  obtains "popGRMContainerSetContainerList ctns = (None, ctns)" "cs_Containers ctns = []"
  | ctn ctns' where "popGRMContainerSetContainerList ctns = (Some ctn, ctns')" "cs_Containers ctns = ctn # cs_Containers ctns'"
proof (cases "cs_Containers ctns")
  case (Cons ctn rest)
  then show ?thesis by (intro that(2) [of ctn "snd (popGRMContainerSetContainerList ctns)"]) (simp_all add: popGRMContainerSetContainerList_def)
qed (use that(1) in \<open>simp add: popGRMContainerSetContainerList_def\<close>)

text \<open>What handling a set of containers does to the state.\<close>

definition settles :: "int \<Rightarrow> int \<Rightarrow> GRMContainerSet \<Rightarrow> ContainerState \<Rightarrow> GRMContainerSet \<times> ContainerState \<Rightarrow> bool" where
  "settles d e ctns co = (\<lambda>(ctns', co'). cs_Containers ctns' = [] \<and>
     shifts (co_pool co) (idents (cs_Containers ctns)) (d * int (length (cs_Containers ctns))) (e * int (length (cs_Containers ctns))) (co_pool co') \<and>
     co_increasing co' = co_increasing co \<and> co_decreasing co' = co_decreasing co)"

text \<open>One container of the set after the other.\<close>

definition settles_one :: "int \<Rightarrow> int \<Rightarrow> GRMContainer \<Rightarrow> ContainerState \<Rightarrow> ContainerState \<Rightarrow> bool" where
  "settles_one d e ctn co co' \<longleftrightarrow> shifts (co_pool co) {#ident ctn#} d e (co_pool co') \<and>
     co_increasing co' = co_increasing co \<and> co_decreasing co' = co_decreasing co"

lemma settles_nil: "container_wf (co_pool co) \<Longrightarrow> cs_Containers ctns = [] \<Longrightarrow> settles d e ctns co (ctns, co)"
  by (simp add: settles_def shifts_def)

lemma settles_Cons:
  assumes "settles_one d e ctn co co1" "settles d e ctns' co1 r" "cs_Containers ctns = ctn # cs_Containers ctns'"
  shows "settles d e ctns co r"
  using assms shifts_trans [of "co_pool co" "{#ident ctn#}" d e "co_pool co1"]
  by (fastforce simp: settles_def settles_one_def algebra_simps)

lemma retryAccept_settles:
  assumes "container_wf (co_pool co)" "names_ok ctns"
  shows "ensures (retryAccept e ctns co) (settles (-1) 0 ctns co)"
  using assms
proof (induction "length (cs_Containers ctns)" arbitrary: ctns co)
  case 0
  then show ?case
    by (cases ctns rule: pop_cases) (simp_all add: retryAccept.simps [of e ctns] ensures_def settles_nil)
next
  case (Suc n)
  then obtain ctn ctns' where pop: "popGRMContainerSetContainerList ctns = (Some ctn, ctns')" "cs_Containers ctns = ctn # cs_Containers ctns'"
    by (cases ctns rule: pop_cases) simp_all
  let ?c = "ctn\<lparr>gc_Life := gc_Life ctn + 1\<rparr>"
    and ?p = "(co_pool co)\<lparr>AddPendingContainerCount := AddPendingContainerCount (co_pool co) - 1\<rparr>"
  have p: "shifts (co_pool co) {#} (-1) 0 ?p" by (rule count_shifts [OF Suc.prems(1)])
  have host: "0 \<notin> set (gc_HostName ?c)" and names: "names_ok ctns'" using Suc.prems(2) pop by (auto simp: names_ok_def)
  have onward: "ensures (retryAccept e ctns' co1) (settles (-1) 0 ctns co)" if "settles_one (-1) 0 ctn co co1" for co1
    using Suc.hyps pop(2) that names settles_Cons [OF that _ pop(2)]
    by (intro ensures_weaken [OF Suc.hyps(1)]) (auto simp: settles_one_def shifts_def)
  have one: "settles_one (-1) 0 ctn co (co\<lparr>co_mgr := m, co_pool := q\<rparr>)" "settles_one (-1) 0 ctn co (co\<lparr>co_pool := q\<rparr>)"
    if "gains ?p {#ident ?c#} q" for q m
    using shifts_gains [OF p that] by (simp_all add: settles_one_def)
  show ?case unfolding retryAccept.simps [of e ctns co] pop(1) Let_def prod.case option.case
    by (rule ensures_then, rule ensures_if, rule ensures_then [OF toBeAccepted_ensures [OF shifts_wf [OF p] host]],
        rule ensures_prod, rule ensures_Some, rule one, simp, rule ensures_bind, rule ensures_Some, rule one,
        rule kicked_gains [OF shifts_wf [OF p] host], rule onward)
qed

lemma retryKick_settles:
  assumes "container_wf p" "names_ok ctns"
  shows "ensures (retryKick ctns p) (\<lambda>(ctns', p'). cs_Containers ctns' = [] \<and>
    shifts p (idents (cs_Containers ctns)) 0 (- int (length (cs_Containers ctns))) p')"
  using assms
proof (induction "length (cs_Containers ctns)" arbitrary: ctns p)
  case 0
  then show ?case
    by (cases ctns rule: pop_cases) (simp_all add: retryKick.simps [of ctns] ensures_def shifts_def)
next
  case (Suc n)
  then obtain ctn ctns' where pop: "popGRMContainerSetContainerList ctns = (Some ctn, ctns')" "cs_Containers ctns = ctn # cs_Containers ctns'"
    by (cases ctns rule: pop_cases) simp_all
  let ?c = "ctn\<lparr>gc_Life := gc_Life ctn + 1\<rparr>" and ?p = "p\<lparr>RetPendingContainerCount := RetPendingContainerCount p - 1\<rparr>"
  have p: "shifts p {#} 0 (-1) ?p" by (rule count_shifts [OF Suc.prems(1)])
  have host: "0 \<notin> set (gc_HostName ?c)" and names: "names_ok ctns'" using Suc.prems(2) pop by (auto simp: names_ok_def)
  have onward: "ensures (retryKick ctns' p1) (\<lambda>(ctns', p'). cs_Containers ctns' = [] \<and>
      shifts p (idents (cs_Containers ctns)) 0 (- int (length (cs_Containers ctns))) p')" if "gains ?p {#ident ctn#} p1" for p1
    using Suc.hyps(2) pop(2) shifts_wf [OF shifts_gains [OF p that]] names
    by (intro ensures_weaken [OF Suc.hyps(1)]) (auto dest!: shifts_trans [OF shifts_gains [OF p that]] simp: algebra_simps)
  have kick: "ensures (addGRMContainerToToBeKicked (put_seg ?p a s') ?c) (gains ?p {#ident ctn#})"
    if "rp_heap ?p a = Some s" "seg_ids s' = seg_ids s" for a s s'
    using toBeKicked_gains [OF _ gains_wf [OF put_same_gains [OF gains_refl [OF shifts_wf [OF p]] that]] host]
      gains_none [OF put_same_gains [OF gains_refl [OF shifts_wf [OF p]] that]]
    by (fastforce simp: ensures_def)
  show ?case unfolding retryKick.simps [of ctns p] pop(1) Let_def prod.case option.case
    by (rule ensures_then, rule ensures_if, (rule ensures_bind)+, rule kick, assumption, simp, rule ensures_Some,
        use kicked_gains [OF shifts_wf [OF p] host] in simp, rule onward)
qed

lemma increase_settles:
  assumes "container_wf (co_pool co)" "names_ok ctns"
  shows "ensures (processContainersAfterIncreaseMemoryQuota e ctns accepted co) (settles (-1) 0 ctns co)"
  unfolding processContainersAfterIncreaseMemoryQuota_def
  by (rule ensures_if) (use move_accepted_shifts [OF assms] retryAccept_settles [OF assms] in
    \<open>auto simp: ensures_def settles_def moveGRMContainerSetToAccepted_def emptied_def\<close>)

lemma decrease_settles:
  assumes "container_wf (co_pool co)" "names_ok ctns"
  shows "ensures (processContainersAfterDecreaseMemoryQuota ctns kicked co) (settles 0 (-1) ctns co)"
  unfolding processContainersAfterDecreaseMemoryQuota_def
  by (rule ensures_if) (use move_kicked_shifts [OF assms] retryKick_settles [OF assms] in
    \<open>auto simp: ensures_def settles_def moveGRMContainerSetToKicked_def emptied_def bind_eq_Some_conv\<close>)

section \<open>The accounts of the whole\<close>

definition carried :: "QuotaMessage list \<Rightarrow> ident multiset" where
  "carried msgs = sum_list (map (\<lambda>msg. idents (cs_Containers (qm_UserData msg))) msgs)"

definition all_ids :: "ContainerState \<Rightarrow> ident multiset" where
  "all_ids co = everything (co_pool co) + carried (co_increasing co) + carried (co_decreasing co)"

definition co_wf :: "ContainerState \<Rightarrow> bool" where
  "co_wf co \<longleftrightarrow> container_wf (co_pool co) \<and> (\<forall>x \<in># all_ids co. name_ok x)"

definition add_slack :: "ContainerState \<Rightarrow> int" where
  "add_slack co = add_gap (co_pool co) - int (size (carried (co_increasing co)))"

definition ret_slack :: "ContainerState \<Rightarrow> int" where
  "ret_slack co = ret_gap (co_pool co) - int (size (carried (co_decreasing co)))"

text \<open>The counters are exact when the slacks are 0.\<close>

definition counters_exact :: "ContainerState \<Rightarrow> bool" where
  "counters_exact co \<longleftrightarrow>
     AddPendingContainerCount (co_pool co) = int (size (joining (co_pool co) + carried (co_increasing co))) \<and>
     RetPendingContainerCount (co_pool co) = int (size (leaving (co_pool co) + carried (co_decreasing co)))"

lemma counters_exact_iff: "counters_exact co \<longleftrightarrow> add_slack co = 0 \<and> ret_slack co = 0"
  by (auto simp: counters_exact_def add_slack_def ret_slack_def add_gap_def ret_gap_def)

definition changes :: "ContainerState \<Rightarrow> ident multiset \<Rightarrow> ident multiset \<Rightarrow> ContainerState \<Rightarrow> bool" where
  "changes co C R co' \<longleftrightarrow> co_wf co' \<and> all_ids co' + R = all_ids co + C \<and> add_slack co' = add_slack co \<and> ret_slack co' = ret_slack co"

abbreviation same_messages :: "ContainerState \<Rightarrow> ContainerState \<Rightarrow> bool" where
  "same_messages co co' \<equiv> co_increasing co' = co_increasing co \<and> co_decreasing co' = co_decreasing co"

lemma pool_changes:
  "co_wf co \<Longrightarrow> gains (co_pool co) X (co_pool co') \<Longrightarrow> same_messages co co' \<Longrightarrow> changes co X {#} co'"
  by (auto simp: changes_def gains_def co_wf_def all_ids_def add_slack_def ret_slack_def container_wf_def)

lemma changes_trans: "changes co C R co' \<Longrightarrow> changes co' C' R' co'' \<Longrightarrow> changes co (C + C') (R + R') co''"
  unfolding changes_def by (auto simp: ac_simps)

lemma changes_none: "changes co {#} {#} co' \<Longrightarrow> changes co' C R co'' \<Longrightarrow> changes co C R co''"
  using changes_trans by fastforce

lemma changes_wf: "changes co C R co' \<Longrightarrow> co_wf co'"
  by (simp add: changes_def)

lemma changes_refl: "co_wf co \<Longrightarrow> changes co {#} {#} co"
  by (simp add: changes_def)

section \<open>Messages\<close>

lemma carried_simps [simp]:
  "carried [] = {#}" "carried (msg # msgs) = idents (cs_Containers (qm_UserData msg)) + carried msgs" "carried (xs @ ys) = carried xs + carried ys"
  by (simp_all add: carried_def)

lemma carried_update:
  "item_at msgs k = Some msg \<Longrightarrow> carried (msgs[k := m]) + idents (cs_Containers (qm_UserData msg)) = carried msgs + idents (cs_Containers (qm_UserData m))"
  using sum_list_update_ids [of k "map (\<lambda>msg. idents (cs_Containers (qm_UserData msg))) msgs" "idents (cs_Containers (qm_UserData m))"]
  by (auto simp: item_at_def carried_def map_update split: if_splits)

lemma carried_remove:
  assumes "item_at msgs k = Some msg" "cs_Containers (qm_UserData msg) = []"
  shows "carried (take k msgs @ drop (Suc k) msgs) = carried msgs"
proof -
  have "msgs = take k msgs @ msg # drop (Suc k) msgs"
    using assms(1) by (auto simp: item_at_def id_take_nth_drop split: if_splits)
  then have "carried msgs = carried (take k msgs @ msg # drop (Suc k) msgs)" by simp
  then show ?thesis using assms(2) by simp
qed

text \<open>The set of a host leaves its table.\<close>

lemma taken_set:
  assumes "sets_inv t" "simpstr_ok k" "set_at t k = Some ctns" "cs_Containers ctns' = []"
  shows "sets_inv (ht_set t k (Some ctns'))" "pair_sum set_ids t = pair_sum set_ids (ht_set t k (Some ctns')) + idents (cs_Containers ctns)"
proof -
  show "sets_inv (ht_set t k (Some ctns'))" by (rule key_simpstr.ht_keyed(1) [OF assms(1,2,2)])
  have "ht_get t k = Some (Some ctns)"
    using assms(3) by (auto simp: set_at_def ht_get_def split: option.splits prod.splits)
  then show "pair_sum set_ids t = pair_sum set_ids (ht_set t k (Some ctns')) + idents (cs_Containers ctns)"
    using key_simpstr.pair_sum_set [OF assms(1,2), of set_ids "Some ctns'"] assms(4) by simp
qed

lemma taken_accept:
  assumes "container_wf p" "simpstr_ok k" "set_at (ToAcceptContainers p) k = Some ctns" "cs_Containers ctns' = []"
  shows "container_wf (p\<lparr>ToAcceptContainers := ht_set (ToAcceptContainers p) k (Some ctns')\<rparr>)"
    "shifts (p\<lparr>ToAcceptContainers := ht_set (ToAcceptContainers p) k (Some ctns')\<rparr>) (idents (cs_Containers ctns)) (- int (length (cs_Containers ctns))) 0 p"
  using assms(1) taken_set [OF _ assms(2,3,4)] by (auto simp: shifts_def container_wf_def account_defs)

lemma taken_kick:
  assumes "container_wf p" "simpstr_ok k" "set_at (ToKickContainers p) k = Some ctns" "cs_Containers ctns' = []"
  shows "container_wf (p\<lparr>ToKickContainers := ht_set (ToKickContainers p) k (Some ctns')\<rparr>)"
    "shifts (p\<lparr>ToKickContainers := ht_set (ToKickContainers p) k (Some ctns')\<rparr>) (idents (cs_Containers ctns)) 0 (- int (length (cs_Containers ctns))) p"
  using assms(1) taken_set [OF _ assms(2,3,4)] by (auto simp: shifts_def container_wf_def account_defs)

lemma shifts_names: "shifts q (idents (cs_Containers ctns)) d e p \<Longrightarrow> names_ok ctns"
  by (auto simp: shifts_def names_ok_def container_wf_def)

text \<open>A message takes the set along.\<close>

lemma send_increase:
  assumes "co_wf co" "shifts (co_pool co') (idents (cs_Containers ctns)) (- int (length (cs_Containers ctns))) 0 (co_pool co)"
    "container_wf (co_pool co')" "co_increasing co' = co_increasing co @ [msg]" "cs_Containers (qm_UserData msg) = cs_Containers ctns"
    "co_decreasing co' = co_decreasing co"
  shows "changes co {#} {#} co'"
  using assms by (auto simp: changes_def shifts_def co_wf_def all_ids_def add_slack_def ret_slack_def)

lemma send_decrease:
  assumes "co_wf co" "shifts (co_pool co') (idents (cs_Containers ctns)) 0 (- int (length (cs_Containers ctns))) (co_pool co)"
    "container_wf (co_pool co')" "co_decreasing co' = co_decreasing co @ [msg]" "cs_Containers (qm_UserData msg) = cs_Containers ctns"
    "co_increasing co' = co_increasing co"
  shows "changes co {#} {#} co'"
  using assms by (auto simp: changes_def shifts_def co_wf_def all_ids_def add_slack_def ret_slack_def)

lemma settle_back:
  assumes "co_wf co" "shifts p (idents (cs_Containers ctns)) (d * int (length (cs_Containers ctns))) (e * int (length (cs_Containers ctns))) (co_pool co)"
    "co_pool co1 = p" "same_messages co co1" "settles d e ctns co1 (ctns', co')"
  shows "changes co {#} {#} co'"
  using assms by (auto simp: changes_def shifts_def co_wf_def all_ids_def add_slack_def ret_slack_def settles_def)

lemma moved_set [simp]:
  "cs_Containers (snd (moveGRMContainerSetContainerList t s)) = []"
  "cs_Containers (fst (moveGRMContainerSetContainerList createGRMContainerSet s)) = cs_Containers s"
  by (simp_all add: moveGRMContainerSetContainerList_def createGRMContainerSet_def)

lemma put_fields [simp]:
  "co_pool (put_accept co k c) = (co_pool co)\<lparr>ToAcceptContainers := ht_set (ToAcceptContainers (co_pool co)) k (Some c)\<rparr>"
  "co_increasing (put_accept co k c) = co_increasing co" "co_decreasing (put_accept co k c) = co_decreasing co"
  "co_pool (put_kick co k c) = (co_pool co)\<lparr>ToKickContainers := ht_set (ToKickContainers (co_pool co)) k (Some c)\<rparr>"
  "co_increasing (put_kick co k c) = co_increasing co" "co_decreasing (put_kick co k c) = co_decreasing co"
  by (simp_all add: put_accept_def put_kick_def)

lemma co_wf_pool: "co_wf co \<Longrightarrow> container_wf (co_pool co)"
  by (simp add: co_wf_def)

lemma increase_changes:
  assumes wf: "co_wf co" and k: "simpstr_ok k" and ok: "ce_connect e host = FUNC_RETURN_OK"
  shows "ensures (increaseMemoryQuota e host k co) (\<lambda>(res, co'). changes co {#} {#} co')"
  unfolding increaseMemoryQuota_def Let_def split_def ok
  apply (intro ensures_bind)
  subgoal premises prems for ctns s
    using taken_accept [OF co_wf_pool [OF wf] k prems(1)]
    by (simp add: ensures_def) (rule send_increase [OF wf, where ctns = ctns], auto)
  done

lemma retryAccept_nil: "cs_Containers ctns = [] \<Longrightarrow> retryAccept e ctns co = Some (ctns, co)"
  by (subst retryAccept.simps) (simp add: popGRMContainerSetContainerList_def)

text \<open>A failed connection: the containers are in no place any more, but they are still counted.\<close>

lemma increase_fails:
  assumes wf: "co_wf co" and k: "simpstr_ok k" and bad: "ce_connect e host \<noteq> FUNC_RETURN_OK"
    and set: "set_at (ToAcceptContainers (co_pool co)) k = Some ctns" and fst: "first_segment co ctns = Some s"
  obtains co' where "increaseMemoryQuota e host k co = Some (ce_connect e host, co')" "co_wf co'"
    "all_ids co = all_ids co' + idents (cs_Containers ctns)" "add_slack co' = add_slack co + int (length (cs_Containers ctns))"
    "ret_slack co' = ret_slack co" "AddPendingContainerCount (co_pool co') = AddPendingContainerCount (co_pool co)"
proof -
  let ?new = "fst (moveGRMContainerSetContainerList createGRMContainerSet ctns)" and ?old = "snd (moveGRMContainerSetContainerList createGRMContainerSet ctns)"
  let ?co = "put_accept co k ?old"
  have seg: "first_segment ?co ?new = Some s"
    using fst by (simp add: first_segment_def getGRMContainerSetContainerFirst_def)
  have res: "increaseMemoryQuota e host k co = Some (ce_connect e host, put_accept ?co k ?old)"
    by (simp add: increaseMemoryQuota_def Let_def split_def processContainersAfterIncreaseMemoryQuota_def set seg bad retryAccept_nil)
  note one = taken_accept [OF co_wf_pool [OF wf] k set, of ?old]
  have inv: "sets_inv (ToAcceptContainers (co_pool co))" using co_wf_pool [OF wf] by (simp add: container_wf_def)
  have "ht_get (ht_set (ToAcceptContainers (co_pool co)) k (Some ?old)) k = Some (Some ?old)"
    by (simp add: key_simpstr.ht_keyed(3) [OF inv k k] comp_simpstr_eq_0 [OF k k])
  then have again: "set_at (ToAcceptContainers (co_pool ?co)) k = Some ?old"
    by (auto simp: set_at_def ht_get_def)
  have wf': "container_wf (co_pool ?co)" using one(1) by simp
  note two = taken_accept [OF wf' k again, of ?old]
  show ?thesis
    using one two wf
    by (intro that [OF res]) (auto simp: co_wf_def shifts_def all_ids_def add_slack_def ret_slack_def)
qed

lemma decrease_changes:
  assumes wf: "co_wf co" and k: "simpstr_ok k"
  shows "ensures (decreaseMemoryQuota e host k co) (\<lambda>(res, co'). changes co {#} {#} co')"
  unfolding decreaseMemoryQuota_def Let_def split_def
  apply (intro ensures_bind ensures_if)
  subgoal premises prems for ctns s r
  proof -
    let ?old = "snd (moveGRMContainerSetContainerList createGRMContainerSet ctns)" and ?new = "fst (moveGRMContainerSetContainerList createGRMContainerSet ctns)"
    note taken = taken_kick [OF co_wf_pool [OF wf] k prems(1), of ?old]
    have names: "names_ok ?new" using shifts_names [OF taken(2)] by (simp add: names_ok_def)
    have "settles 0 (-1) ?new (put_kick co k ?old) r"
      using taken(1) names by (intro ensuresD [OF decrease_settles _]) (use prems(4) in auto)
    then have "changes co {#} {#} (snd r)"
      using taken by (intro settle_back [OF wf, of _ ctns 0 "-1" "put_kick co k ?old" "fst r"]) (simp_all add: settles_def split_def)
    then show ?thesis by (simp add: ensures_def)
  qed
  subgoal premises prems for ctns s
    using taken_kick [OF co_wf_pool [OF wf] k prems(1)]
    by (simp add: ensures_def) (rule send_decrease [OF wf, where ctns = ctns], auto)
  done

text \<open>Telling the segments.  The pairs of a table have valid keys.\<close>

definition reaches :: "ContainerEnv \<Rightarrow> bool" where
  "reaches e \<longleftrightarrow> ce_test e \<or> (\<forall>host. ce_connect e host = FUNC_RETURN_OK)"

lemma all_pairs_ok:
  assumes "sets_inv t" "pair \<in> set (getAllPAIRRefIntoList t [])"
  shows "simpstr_ok (fst pair)"
  using assms key_simpstr.slots_ok [of "SlotVolume t" "Slots t" pair] by (simp add: getAllPAIRRefIntoList_def ht_inv_def)

lemma co_fold:
  assumes "co_wf co" "\<And>co x. x \<in> set xs \<Longrightarrow> co_wf co \<Longrightarrow> ensures (f co x) (changes co {#} {#})"
  shows "ensures (fold_opt f co xs) (changes co {#} {#})"
  by (rule ensures_fold, rule changes_refl, rule assms(1), rule ensures_weaken, rule assms(2)) (auto intro: changes_none changes_wf)

lemma emptied_containers [simp]: "cs_Containers (emptied ctns) = []"
  by (simp add: emptied_def)

lemma table_to_list:
  assumes "container_wf p" "simpstr_ok k"
  shows "set_at (ToAcceptContainers p) k = Some ctns \<Longrightarrow> gains p {#}
      (p\<lparr>AcceptedContainers := AcceptedContainers p @ cs_Containers ctns, ToAcceptContainers := ht_set (ToAcceptContainers p) k (Some (emptied ctns))\<rparr>)"
    "set_at (ToKickContainers p) k = Some ctns \<Longrightarrow> gains p {#}
      (p\<lparr>KickedContainers := KickedContainers p @ cs_Containers ctns, ToKickContainers := ht_set (ToKickContainers p) k (Some (emptied ctns))\<rparr>)"
  using assms(1) taken_set [OF _ assms(2), of _ ctns "emptied ctns"]
  by (auto simp: gains_def container_wf_def account_defs ac_simps)

lemma notifyAccept_changes:
  assumes wf: "co_wf co" and k: "simpstr_ok (fst pair)" and e: "reaches e"
  shows "ensures (notifyAccept e co pair) (changes co {#} {#})"
  unfolding notifyAccept_def Let_def split_def
  apply (intro ensures_bind ensures_if ensures_Some changes_refl wf)
  subgoal premises prems for ctns ctn r
    using ensuresD [OF increase_changes [OF wf k] prems(5)] e prems(4) by (auto simp: reaches_def)
  subgoal premises prems for ctns ctn
    using table_to_list(1) [OF co_wf_pool [OF wf] k prems(1)]
    by (intro pool_changes [OF wf]) (simp_all add: moveGRMContainerSetToAccepted_def)
  done

lemma notifyKick_changes:
  assumes wf: "co_wf co" and k: "simpstr_ok (fst pair)"
  shows "ensures (notifyKick e co pair) (changes co {#} {#})"
  unfolding notifyKick_def Let_def split_def
  apply (intro ensures_bind ensures_if ensures_Some changes_refl wf)
  subgoal premises prems for ctns ctn r
    using ensuresD [OF decrease_changes [OF wf k] prems(5)] by auto
  subgoal premises prems for ctns ctn
    using table_to_list(2) [OF co_wf_pool [OF wf] k prems(1)]
    by (intro pool_changes [OF wf]) (simp_all add: moveGRMContainerSetToKicked_def)
  done

lemma notify_changes:
  assumes "co_wf co"
  shows "reaches e \<Longrightarrow> ensures (notifyToBeAcceptedGRMContainersToRMSEG e co) (changes co {#} {#})"
    "ensures (notifyToBeKickedGRMContainersToRMSEG e co) (changes co {#} {#})"
  unfolding notifyToBeAcceptedGRMContainersToRMSEG_def notifyToBeKickedGRMContainersToRMSEG_def
  using assms all_pairs_ok
  by (auto simp: co_wf_def container_wf_def intro!: co_fold notifyAccept_changes notifyKick_changes)

text \<open>Answers, errors and the end of a message.\<close>

lemma settle_message:
  assumes wf: "co_wf co" and ctns: "settles d f (qm_UserData msg) co (ctns, co1)"
  shows "item_at (co_increasing co) k = Some msg \<Longrightarrow> d = -1 \<Longrightarrow> f = 0
      \<Longrightarrow> changes co {#} {#} (co1\<lparr>co_increasing := (co_increasing co1)[k := msg\<lparr>qm_UserData := ctns\<rparr>]\<rparr>)" (is "_ \<Longrightarrow> _ \<Longrightarrow> _ \<Longrightarrow> ?inc")
    and "item_at (co_decreasing co) k = Some msg \<Longrightarrow> d = 0 \<Longrightarrow> f = -1
      \<Longrightarrow> changes co {#} {#} (co1\<lparr>co_decreasing := (co_decreasing co1)[k := msg\<lparr>qm_UserData := ctns\<rparr>]\<rparr>)" (is "_ \<Longrightarrow> _ \<Longrightarrow> _ \<Longrightarrow> ?dec")
proof -
  let ?msg = "msg\<lparr>qm_UserData := ctns\<rparr>"
  have carry: "carried msgs = carried (msgs[k := ?msg]) + idents (cs_Containers (qm_UserData msg))" if "item_at msgs k = Some msg" for msgs
    using carried_update [OF that, of ?msg] ctns by (simp add: settles_def)
  show ?inc if "item_at (co_increasing co) k = Some msg" "d = -1" "f = 0"
    using wf ctns that(2,3) carry [OF that(1)]
    by (auto simp: changes_def settles_def shifts_def co_wf_def all_ids_def add_slack_def ret_slack_def)
  show ?dec if "item_at (co_decreasing co) k = Some msg" "d = 0" "f = -1"
    using wf ctns that(2,3) carry [OF that(1)]
    by (auto simp: changes_def settles_def shifts_def co_wf_def all_ids_def add_slack_def ret_slack_def)
qed

lemma message_names:
  assumes "co_wf co"
  shows "item_at (co_increasing co) k = Some msg \<Longrightarrow> names_ok (qm_UserData msg)"
    "item_at (co_decreasing co) k = Some msg \<Longrightarrow> names_ok (qm_UserData msg)"
proof -
  have sub: "x \<in># carried msgs" if "item_at msgs k = Some msg" "x \<in># idents (cs_Containers (qm_UserData msg))" for x msgs
  proof -
    have "msg \<in> set msgs" using that(1) by (auto simp: item_at_def split: if_splits)
    then show ?thesis using that(2) by (induction msgs) auto
  qed
  then show "item_at (co_increasing co) k = Some msg \<Longrightarrow> names_ok (qm_UserData msg)"
    "item_at (co_decreasing co) k = Some msg \<Longrightarrow> names_ok (qm_UserData msg)"
    using assms by (auto simp: co_wf_def all_ids_def names_ok_def)
qed

text \<open>Afterwards the message is empty.\<close>

lemma settleIncrease_changes:
  assumes wf: "co_wf co"
  shows "ensures (settleIncrease e k accepted co) (\<lambda>co'. changes co {#} {#} co' \<and>
    (\<exists>msg. item_at (co_increasing co') k = Some msg \<and> cs_Containers (qm_UserData msg) = []))"
  unfolding settleIncrease_def
  apply (intro ensures_bind ensures_prod ensures_Some)
  subgoal premises prems for msg r ctns co1
    using settle_message(1) [OF wf _ prems(1)] ensuresD [OF increase_settles [OF co_wf_pool [OF wf] message_names(1) [OF wf prems(1)]] prems(2)] prems(1,3)
    by (auto simp: settles_def item_at_def split: if_splits)
  done

lemma settleDecrease_changes:
  assumes wf: "co_wf co"
  shows "ensures (settleDecrease k kicked co) (\<lambda>co'. changes co {#} {#} co' \<and>
    (\<exists>msg. item_at (co_decreasing co') k = Some msg \<and> cs_Containers (qm_UserData msg) = []))"
  unfolding settleDecrease_def
  apply (intro ensures_bind ensures_prod ensures_Some)
  subgoal premises prems for msg r ctns co1
    using settle_message(2) [OF wf _ prems(1)] ensuresD [OF decrease_settles [OF co_wf_pool [OF wf] message_names(2) [OF wf prems(1)]] prems(2)] prems(1,3)
    by (auto simp: settles_def item_at_def split: if_splits)
  done

lemma same_changes: "co_wf co \<Longrightarrow> co_pool co' = co_pool co \<Longrightarrow> same_messages co co' \<Longrightarrow> changes co {#} {#} co'"
  using pool_changes [of co "{#}" co'] gains_refl [of "co_pool co"] by (simp add: co_wf_def)

lemma changes_then_same:
  "changes co C R co1 \<Longrightarrow> everything (co_pool co') = everything (co_pool co1) \<Longrightarrow> co_pool co' = co_pool co1
   \<Longrightarrow> carried (co_increasing co') = carried (co_increasing co1) \<Longrightarrow> carried (co_decreasing co') = carried (co_decreasing co1) \<Longrightarrow> changes co C R co'"
  by (simp add: changes_def co_wf_def all_ids_def add_slack_def ret_slack_def)

lemma recv_changes:
  assumes "co_wf co"
  shows "ensures (recvIncreaseMemoryQuotaResponse e k mid sz res co) (changes co {#} {#})"
    "ensures (recvDecreaseMemoryQuotaResponse k mid sz res co) (changes co {#} {#})"
  unfolding recvIncreaseMemoryQuotaResponse_def recvDecreaseMemoryQuotaResponse_def
  using ensures_weaken [OF settleIncrease_changes [OF assms]] ensures_weaken [OF settleDecrease_changes [OF assms]]
  by (intro ensures_bind; blast)+

lemma error_changes:
  assumes "co_wf co"
  shows "ensures (sentIncreaseMemoryQuotaError e k co) (changes co {#} {#})"
    "ensures (sentDecreaseMemoryQuotaError k co) (changes co {#} {#})"
  unfolding sentIncreaseMemoryQuotaError_def sentDecreaseMemoryQuotaError_def
  using ensures_weaken [OF settleIncrease_changes [OF assms]] ensures_weaken [OF settleDecrease_changes [OF assms]] by blast+

lemma cleanup_changes:
  assumes wf: "co_wf co"
  shows "ensures (sentIncreaseMemoryQuotaCleanup e k co) (changes co {#} {#})"
    "ensures (sentDecreaseMemoryQuotaCleanup k co) (changes co {#} {#})"
  unfolding sentIncreaseMemoryQuotaCleanup_def sentDecreaseMemoryQuotaCleanup_def
proof -
  show "ensures (do { msg \<leftarrow> item_at (co_increasing co) k;
       co \<leftarrow> (if cs_Containers (qm_UserData msg) = [] then Some co else settleIncrease e k False co);
       Some (co\<lparr>co_increasing := take k (co_increasing co) @ drop (Suc k) (co_increasing co),
              IncreaseMemoryRPCCounter := IncreaseMemoryRPCCounter co - 1\<rparr>) }) (changes co {#} {#})"
    by (rule ensures_bind, rule ensures_then [where Q = "\<lambda>co'. changes co {#} {#} co' \<and>
          (\<exists>msg. item_at (co_increasing co') k = Some msg \<and> cs_Containers (qm_UserData msg) = [])"])
      (use settleIncrease_changes [OF wf] changes_refl [OF wf] carried_remove in
        \<open>auto intro!: ensures_if ensures_Some simp del: carried_simps intro: changes_then_same\<close>)
  show "ensures (do { msg \<leftarrow> item_at (co_decreasing co) k;
       co \<leftarrow> (if cs_Containers (qm_UserData msg) = [] then Some co else settleDecrease k False co);
       Some (co\<lparr>co_decreasing := take k (co_decreasing co) @ drop (Suc k) (co_decreasing co),
              DecreaseMemoryRPCCounter := DecreaseMemoryRPCCounter co - 1\<rparr>) }) (changes co {#} {#})"
    by (rule ensures_bind, rule ensures_then [where Q = "\<lambda>co'. changes co {#} {#} co' \<and>
          (\<exists>msg. item_at (co_decreasing co') k = Some msg \<and> cs_Containers (qm_UserData msg) = [])"])
      (use settleDecrease_changes [OF wf] changes_refl [OF wf] carried_remove in
        \<open>auto intro!: ensures_if ensures_Some simp del: carried_simps intro: changes_then_same\<close>)
qed

section \<open>The pool takes and drops containers\<close>

lemma addToResPool_accepted: "ensures (addGRMContainerToResPool m p ctn) (\<lambda>p'. AcceptedContainers p' = AcceptedContainers p)"
  unfolding addGRMContainerToResPool_def reorderBoth_def Let_def split_def
  by (intro ensures_bind ensures_Some) (auto dest!: same_places_reorder simp: same_places_def)

lemma moveAccepted_gains:
  "container_wf (co_pool co) \<Longrightarrow> AcceptedContainers (co_pool co) = ctns
   \<Longrightarrow> ensures (moveAccepted now ctns co) (\<lambda>co'. gains (co_pool co) {#} (co_pool co') \<and> same_messages co co')"
proof (induction ctns arbitrary: co)
  case (Cons ctn ctns)
  let ?p = "(co_pool co)\<lparr>AcceptedContainers := ctns\<rparr>"
  have host: "0 \<notin> set (gc_HostName ctn)" and taken: "shifts ?p {#ident ctn#} (-1) 0 (co_pool co)" and wf: "container_wf ?p"
    using Cons.prems by (auto simp: container_wf_def shifts_def account_defs)
  have one: "gains (co_pool co) {#} (q\<lparr>AddPendingContainerCount := AddPendingContainerCount q - 1\<rparr>)" if "gains ?p {#ident ctn#} q" for q
    using taken that count_shifts(1) [OF gains_wf [OF that]] by (auto simp: shifts_def gains_def)
  show ?case unfolding moveAccepted.simps Let_def
    apply (intro ensures_bind ensures_prod)
    subgoal premises prems for p r res m m'
      using one [OF ensuresD [OF addToResPool_gains [OF wf host] prems(1)]] ensuresD [OF addToResPool_accepted prems(1)]
      by (intro ensures_weaken [OF Cons.IH]) (auto dest: gains_wf gains_none)
    done
qed (simp add: ensures_def gains_refl)

lemma moveAll_changes: "co_wf co \<Longrightarrow> ensures (moveAllAcceptedGRMContainersToResPool now co) (changes co {#} {#})"
  unfolding moveAllAcceptedGRMContainersToResPool_def
  by (rule ensures_weaken [OF moveAccepted_gains]) (auto simp: co_wf_pool intro: pool_changes)

lemma dropSegment_changes: "co_wf co \<Longrightarrow> ensures (dropSegment co i) (changes co {#} {#})"
  unfolding dropSegment_def
  by ((rule ensures_bind)+, rule ensures_prod, rule ensures_then [OF dropAllFromSegment_gains], erule co_wf_pool, rule ensures_Some, rule pool_changes) auto

lemma dropAllResPool_changes: "co_wf co \<Longrightarrow> ensures (dropAllResPoolGRMContainersToToBeKicked timeout now co) (changes co {#} {#})"
  unfolding dropAllResPoolGRMContainersToToBeKicked_def
  by (rule ensures_then [OF co_fold], assumption, rule dropSegment_changes, assumption, (rule ensures_bind)+, rule ensures_Some, erule changes_then_same) simp_all

section \<open>Returning and creating containers\<close>

lemma returnContainers_spec:
  "container_wf p \<Longrightarrow> KickedContainers p = ctns
   \<Longrightarrow> ensures (returnContainers ctns p) (\<lambda>p'. container_wf p' \<and> gains p' (idents ctns) p)"
proof (induction ctns arbitrary: p)
  case (Cons ctn ctns)
  let ?p = "p\<lparr>KickedContainers := ctns\<rparr>"
  have taken: "shifts ?p {#ident ctn#} 0 (-1) p" and wf: "container_wf ?p"
    using Cons.prems by (auto simp: container_wf_def shifts_def account_defs)
  have one: "gains (q\<lparr>RetPendingContainerCount := RetPendingContainerCount q - 1\<rparr>) {#ident ctn#} p" if "gains ?p {#} q" for q
    using taken that count_shifts(2) [OF gains_wf [OF that]] Cons.prems(1) by (auto simp: shifts_def gains_def)
  have pool_kept: "ensures (if gc_CalcDecPending ctn then do { a \<leftarrow> gc_Resource ctn; s \<leftarrow> rp_heap ?p a;
      Some (put_seg ?p a (s\<lparr>sr_DecPending := minusResourceBundleData (sr_DecPending s) (gc_MemoryMB ctn) (of_int (gc_Core ctn))\<rparr>)) } else Some ?p)
      (\<lambda>q. gains ?p {#} q \<and> KickedContainers q = ctns)"
    using put_same_gains [OF gains_refl [OF wf]] by (intro ensures_if ensures_bind ensures_Some) (auto simp: gains_refl wf)
  show ?case unfolding returnContainers.simps Let_def
    apply (rule ensures_then [OF pool_kept])
    subgoal premises prems for q
      using prems gains_trans [OF _ one] count_shifts(2) [of q]
      by (intro ensures_weaken [OF Cons.IH]) (auto simp: gains_wf shifts_wf)
    done
qed (simp add: ensures_def gains_refl)

lemma pool_returns:
  "co_wf co \<Longrightarrow> container_wf (co_pool co') \<Longrightarrow> gains (co_pool co') X (co_pool co) \<Longrightarrow> same_messages co co' \<Longrightarrow> changes co {#} X co'"
  by (auto simp: changes_def gains_def co_wf_def all_ids_def add_slack_def ret_slack_def ac_simps)

text \<open>The ids of the next \<open>n\<close> containers of the broker.\<close>

definition new_ids :: "uint32 \<Rightarrow> nat \<Rightarrow> int multiset" where
  "new_ids c n = mset (map (\<lambda>i. sint (c + of_nat i)) [0..<n])"

lemma new_ids_Suc: "new_ids c 0 = {#}" "new_ids c (Suc n) = add_mset (sint (c + of_nat n)) (new_ids c n)"
  by (simp_all add: new_ids_def)

lemma new_ids_add: "new_ids c (m + n) = new_ids c m + new_ids (c + of_nat m) n"
  by (induction n) (simp_all add: new_ids_Suc add.assoc)

definition creates :: "int \<Rightarrow> nat \<Rightarrow> ContainerState \<Rightarrow> ContainerState \<Rightarrow> bool" where
  "creates mem n co co' \<longleftrightarrow> ContainerIDCounter co' = ContainerIDCounter co + of_nat n \<and>
     (\<exists>C. changes co C {#} co' \<and> image_mset fst C = new_ids (ContainerIDCounter co) n \<and> (\<forall>(i, m, c, host) \<in># C. m = mem \<and> c = 1))"

lemma creates_add:
  assumes "creates mem m co co1" "creates mem n co1 co2"
  shows "creates mem (m + n) co co2"
proof -
  obtain C D where "changes co C {#} co1" "image_mset fst C = new_ids (ContainerIDCounter co) m" "\<forall>(i, m, c, host) \<in># C. m = mem \<and> c = 1"
    "changes co1 D {#} co2" "image_mset fst D = new_ids (ContainerIDCounter co1) n" "\<forall>(i, m, c, host) \<in># D. m = mem \<and> c = 1"
    using assms by (auto simp: creates_def)
  then show ?thesis
    using assms changes_trans [of co C "{#}" co1 D "{#}" co2] unfolding creates_def
    by (intro conjI exI [of _ "C + D"]) (auto simp: new_ids_add)
qed

lemma creates_0: "co_wf co \<Longrightarrow> creates mem 0 co co"
  using changes_refl by (auto simp: creates_def new_ids_def intro!: exI [of _ "{#}"])

lemma creates_wf: "creates mem n co co' \<Longrightarrow> co_wf co'"
  by (auto simp: creates_def changes_def)

lemma hostname_ok: "GET_SEGRESOURCE_HOSTNAME s = Some host \<Longrightarrow> 0 \<notin> set host"
  by (auto simp: GET_SEGRESOURCE_HOSTNAME_def GET_SEGINFO_HOSTNAME_def string_at_def bind_eq_Some_conv split: if_splits dest: set_takeWhileD)

lemma newContainer_creates:
  assumes "co_wf co"
  shows "ensures (newContainer e mem a s co) (creates mem 1 co)"
  unfolding newContainer_def Let_def
  apply (intro ensures_bind ensures_prod ensures_Some)
  subgoal premises prems for host r res p
  proof -
    let ?c = "createGRMContainer (ContainerIDCounter co) mem 1 host (Some a)"
    have "0 \<notin> set (gc_HostName ?c)" using hostname_ok [OF prems(1)] by (simp add: createGRMContainer_def)
    then have "gains (co_pool co) {#ident ?c#} p"
      using ensuresD [OF toBeAccepted_ensures [OF co_wf_pool [OF assms]] prems(2)] prems(3) by simp
    then have "changes co {#ident ?c#} {#} (co\<lparr>co_pool := p, ContainerIDCounter := ContainerIDCounter co + 1\<rparr>)"
      by (intro pool_changes [OF assms]) simp_all
    then show ?thesis
      by (auto simp: creates_def new_ids_def ident_def createGRMContainer_def c_trunc_def intro!: exI [of _ "{#ident ?c#}"])
  qed
  done

definition allocates :: "int \<Rightarrow> int \<Rightarrow> int \<Rightarrow> ContainerState \<Rightarrow> int \<times> ContainerState \<Rightarrow> bool" where
  "allocates mem contcount contact co r \<longleftrightarrow>
     (\<exists>k. fst r = contact + int k \<and> fst r \<le> max contcount (contact + 1) \<and> creates mem k co (snd r))"

lemma allocates_step:
  assumes "creates mem k co co1" "contact + int k < contcount" "allocates mem contcount (contact + int k) co1 r"
  shows "allocates mem contcount contact co r"
proof -
  obtain j where "fst r = contact + int k + int j" "fst r \<le> max contcount (contact + int k + 1)" "creates mem j co1 (snd r)"
    using assms(3) by (auto simp: allocates_def)
  then show ?thesis
    using assms(2) creates_add [OF assms(1)] unfolding allocates_def by (intro exI [of _ "k + j"]) simp
qed

lemma allocates_0: "co_wf co \<Longrightarrow> allocates mem contcount contact co (contact, co)"
  using creates_0 by (auto simp: allocates_def intro: exI [of _ 0])

lemma allocateOnHost_creates:
  "co_wf co \<Longrightarrow> ensures (allocateOnHost e mem contcount a n contact co) (allocates mem contcount contact co)"
proof (induction n arbitrary: contact co)
  case (Suc n)
  show ?case unfolding allocateOnHost.simps
    apply (rule ensures_bind, rule ensures_then [OF newContainer_creates [OF Suc.prems]], rule ensures_if, rule ensures_Some)
    subgoal for s co1 by (auto simp: allocates_def intro!: exI [of _ 1])
    subgoal premises prems for s co1
      by (rule ensures_weaken [OF Suc.IH [OF creates_wf [OF prems(2)]]], rule allocates_step [OF prems(2)]) (use prems(3) in auto)
    done
qed (simp add: ensures_def allocates_0)

lemma allocatePreferred_creates:
  "co_wf co \<Longrightarrow> ensures (allocatePreferred e mem contcount preferred contact co) (allocates mem contcount contact co)"
proof (induction preferred arbitrary: contact co)
  case (Cons pair preferred)
  obtain a resource where pair: "pair = (a, resource)" by fastforce
  show ?case unfolding pair allocatePreferred.simps
    apply (rule ensures_bind, rule ensures_if, rule Cons.IH [OF Cons.prems], rule ensures_bind,
        rule ensures_then [OF allocateOnHost_creates [OF Cons.prems]], rule ensures_prod, rule ensures_if, rule ensures_Some)
    subgoal by simp
    subgoal premises prems for s n r contact1 co1
    proof -
      obtain k where k: "contact1 = contact + int k" "creates mem k co co1" using prems(4,5) by (auto simp: allocates_def)
      show ?thesis
        by (rule ensures_weaken [OF Cons.IH [OF creates_wf [OF k(2)]]], rule allocates_step [OF k(2)]) (use prems(6) k(1) in auto)
    qed
    done
qed (simp add: ensures_def allocates_0)

lemma allocateRoundRobin_creates:
  "co_wf co \<Longrightarrow> ensures (allocateRoundRobin e mem hostcount n co) (\<lambda>(left, co'). left \<le> n \<and> creates mem (n - left) co co')"
proof (induction n arbitrary: co)
  case (Suc n)
  have rr: "creates mem 0 co (co\<lparr>RoundRobinIndex := r\<rparr>)" for r
    using same_changes [OF Suc.prems, of "co\<lparr>RoundRobinIndex := r\<rparr>"] by (auto simp: creates_def new_ids_def intro!: exI [of _ "{#}"])
  show ?case unfolding allocateRoundRobin.simps Let_def
    apply (rule ensures_bind, rule ensures_prod, rule ensures_option, rule ensures_Some, simp add: rr,
        rule ensures_bind, rule ensures_then [OF newContainer_creates [OF creates_wf [OF rr]]])
    subgoal premises prems for r rr' host a s co1
      using creates_add [OF creates_add [OF rr prems(5)]]
      by (intro ensures_weaken [OF Suc.IH [OF creates_wf [OF prems(5)]]]) (auto simp: Suc_diff_le)
    done
qed (auto simp: ensures_def intro: creates_0)

lemma acquire_creates:
  assumes "co_wf co"
  shows "ensures (RB_NONE_acquireResource e memorymb core preferred co)
    (\<lambda>(res, co'). \<exists>n. int n \<le> max (sint core) 1 \<and> creates (sint (memorymb div core)) n co co')"
  unfolding RB_NONE_acquireResource_def Let_def
  apply (rule ensures_if, rule ensures_None, rule ensures_then [OF allocatePreferred_creates [OF assms]], rule ensures_prod)
  subgoal premises prems for r contact co1
  proof -
    obtain k where k: "contact = int k" "contact \<le> max (sint core) 1" "creates (sint (memorymb div core)) k co co1"
      using prems(2,3) by (auto simp: allocates_def)
    have mgr: "creates mem n co (co2\<lparr>co_mgr := m\<rparr>)" if "creates mem n co co2" for mem n co2 m
      using that changes_then_same [of co _ _ co2 "co2\<lparr>co_mgr := m\<rparr>"] by (auto simp: creates_def)
    show ?thesis
      apply (rule ensures_then [OF allocateRoundRobin_creates [OF creates_wf [OF k(3)]]], rule ensures_prod, rule ensures_bind, rule ensures_Some)
      subgoal premises prems for r lacking co2 m
      proof -
        let ?n = "k + (nat (sint core - contact) - lacking)"
        have "creates (sint (memorymb div core)) ?n co (co2\<lparr>co_mgr := m\<rparr>)"
          by (rule mgr, rule creates_add [OF k(3)]) (use prems(1,2) in simp)
        moreover have "int ?n \<le> max (sint core) 1" using k(1,2) by linarith
        ultimately show ?thesis by blast
      qed
      done
  qed
  done

section \<open>Queries\<close>

text \<open>Giving resource to a query and taking it back leaves the containers where they are.\<close>

lemma seg_ids_query:
  "allocateResourceFromSegment s i memory core slices = Some s' \<Longrightarrow> seg_ids s' = seg_ids s"
  "seg_ids (recycleResourceToSegment s r memory core iobytes slices) = seg_ids s"
  "seg_ids (s\<lparr>sr_IOBytesWorkload := w\<rparr>) = seg_ids s" "seg_ids (s\<lparr>sr_SliceWorkload := w\<rparr>) = seg_ids s"
proof -
  show fields: "seg_ids (s\<lparr>sr_IOBytesWorkload := w\<rparr>) = seg_ids s" "seg_ids (s\<lparr>sr_SliceWorkload := w\<rparr>) = seg_ids s" for s w
    by (simp_all add: seg_ids_def)
  have same: "seg_ids (put_ctn_set s i (c\<lparr>cs_Available := b\<rparr>)) = seg_ids s" if "ctn_set s i = Some c" for s i c b
    using set_containers_ids [OF that] by simp
  show "allocateResourceFromSegment s i memory core slices = Some s' \<Longrightarrow> seg_ids s' = seg_ids s"
    by (auto simp: allocateResourceFromSegment_def bind_eq_Some_conv Let_def fields same)
  show "seg_ids (recycleResourceToSegment s r memory core iobytes slices) = seg_ids s"
    by (auto simp: recycleResourceToSegment_def bind_eq_Some_conv Let_def fields same split: option.splits)
qed

lemma take_vseg_gains:
  assumes "gains p0 {#} p" "rp_heap p a = Some s"
  shows "ensures (take_vseg m q p a s) (gains p0 {#})"
  unfolding take_vseg_def
  by (rule ensures_bind, rule ensures_then [OF reorder_gains(1) [OF put_same_gains [OF assms seg_ids_query(1)]]], assumption)
    (auto intro: wp)

lemma lookup_places: "getSegIDByHDFSHostName resolve p host = (res, i, p') \<Longrightarrow> same_places p p'"
  by (auto simp: getSegIDByHDFSHostName_def same_places_def split: prod.splits)

lemma gains_places: "gains p X q \<Longrightarrow> same_places q q' \<Longrightarrow> gains p X q'"
  using gains_trans [OF _ same_places_gains] gains_wf by fastforce

lemma locality_gains:
  "gains p0 {#} (as_pool st) \<Longrightarrow> ensures (allocateByLocality resolve limit m q i hosts st) (\<lambda>st'. gains p0 {#} (as_pool st'))"
proof (induction hosts arbitrary: i st)
  case (Cons host hosts)
  have pool_kept: "gains p0 {#} p" if "getSegIDByHDFSHostName resolve (as_pool st) host = (res, x)" "x = (sid, p)" for res x sid p
    using gains_places [OF Cons.prems] lookup_places that by blast
  show ?case unfolding allocateByLocality.simps Let_def
    apply (intro ensures_prod ensures_if ensures_bind ensures_Some)
    subgoal by (rule Cons.IH) (simp add: pool_kept)
    subgoal by (rule Cons.IH) (simp add: pool_kept)
    subgoal by (rule Cons.IH) (simp add: pool_kept)
    subgoal by (rule Cons.IH) (simp add: pool_kept)
    subgoal using ensuresD [OF take_vseg_gains [OF pool_kept]] by simp
    subgoal by (rule Cons.IH) (use ensuresD [OF take_vseg_gains [OF pool_kept]] in simp)
    done
qed (simp add: ensures_def)

lemma findIndex_places: "same_places p (snd (findHDFSNameIndex resolve p wanted k hosts))"
proof (induction hosts arbitrary: p k)
  case (Cons host hosts)
  then show ?case by (auto simp: Let_def split: prod.splits dest: lookup_places intro: same_places_trans)
qed (simp add: same_places_def)

lemma choose_gains:
  assumes "gains p0 {#} (as_pool st)" "rp_heap (as_pool st) a = Some s"
  shows "ensures (chooseSegment resolve m q st a s curhost) (\<lambda>st'. gains p0 {#} (as_pool st'))"
  unfolding chooseSegment_def Let_def
  by (rule ensures_then [OF take_vseg_gains [OF assms]], rule ensures_prod, rule ensures_Some)
    (auto simp: split_def split: option.splits intro: gains_places [OF _ findIndex_places])

lemma io_places: "same_places p (p\<lparr>OrderedIOBytesWorkload := w\<rparr>)" "same_places p (refillIndex p l)"
  "same_places p (snd (reorderSegResourceIOBytesWorkloadIndex p a))"
  by (simp_all add: same_places_def refillIndex_def reorderSegResourceIOBytesWorkloadIndex_def)

lemma body_gains:
  assumes "gains p0 {#} (as_pool st)"
  shows "ensures (allocateByWorkloadBody resolve limit m q full st) (\<lambda>st'. gains p0 {#} (as_pool st'))"
proof -
  have stop: "gains p0 {#} (as_pool (endOfBody full st'))" if "gains p0 {#} (as_pool st')" for st'
    using that gains_places [OF that io_places(2)] by (auto simp: endOfBody_def Let_def)
  show ?thesis unfolding allocateByWorkloadBody_def Let_def
    by (intro ensures_list ensures_None, rule ensures_bind, rule ensures_then [where Q = "\<lambda>st'. gains p0 {#} (as_pool st')"],
        rule ensures_if, rule choose_gains)
      (auto intro!: ensures_Some stop gains_places [OF assms io_places(1)])
qed

lemma workload_gains:
  "gains p0 {#} (as_pool st) \<Longrightarrow> ensures (allocateByWorkload resolve limit m q full st) (\<lambda>st'. gains p0 {#} (as_pool st'))"
proof (induction resolve limit m q full st rule: allocateByWorkload.induct)
  case (1 resolve limit m q full st)
  show ?case
    by (subst allocateByWorkload.simps, rule ensures_if, rule ensures_option, rule ensures_None, rule "1.IH", assumption, assumption)
      (use ensuresD [OF body_gains [OF "1.prems"]] in \<open>auto intro: ensures_Some "1.prems"\<close>)
qed

lemma addWorkload_gains: "gains p0 {#} p \<Longrightarrow> ensures (addWorkload w vs p) (gains p0 {#})"
proof (induction vs arbitrary: p)
  case (Cons v vs)
  show ?case unfolding addWorkload.simps Let_def
    by (intro ensures_bind, rule Cons.IH, rule gains_places [OF put_same_gains [OF Cons.prems] io_places(3)]) (simp_all add: seg_ids_query)
qed (simp add: ensures_def)

lemma allocate_gains:
  assumes "container_wf p"
  shows "ensures (allocateResourceFromResourcePoolIOBytes resolve limit m p q vs) (\<lambda>(r, p'). gains p {#} p')"
  unfolding allocateResourceFromResourcePoolIOBytes_def Let_def
  by (rule ensures_then [where Q = "\<lambda>st'. gains p {#} (as_pool st')"], rule ensures_if, rule locality_gains, simp add: gains_refl assms,
      rule ensures_Some, simp add: gains_refl assms, rule ensures_then [OF workload_gains], assumption,
      rule ensures_then [OF addWorkload_gains [OF gains_places [OF _ io_places(2)]]], assumption, rule ensures_Some, simp)

lemma return_gains: "container_wf p \<Longrightarrow> ensures (returnResourceToResourcePool m p memory core w slices vs isold) (gains p {#})"
proof (induction vs arbitrary: p)
  case (Cons v vs)
  show ?case unfolding returnResourceToResourcePool.simps Let_def
    apply (rule ensures_bind, rule ensures_then [where Q = "gains p {#}"], rule ensures_if)
    subgoal by (rule ensures_then [OF reorder_gains(1) [OF put_same_gains [OF gains_refl [OF Cons.prems]]]], assumption)
        (auto simp: seg_ids_query intro!: ensures_Some intro: gains_places io_places(3))
    subgoal by (auto intro!: ensures_Some put_same_gains [OF gains_refl [OF Cons.prems]])
    subgoal by (rule ensures_chain, assumption, rule Cons.IH)
    done
qed (simp add: ensures_def gains_refl)

section \<open>The steps of the resource manager on containers\<close>

text \<open>The first label of a step has the ids of the containers that come from a broker, the second those of the
  containers that go back.  A container of a global resource manager has a host name, as every C string without the
  byte 0.\<close>

inductive co_step :: "ContainerState \<Rightarrow> int multiset \<Rightarrow> int multiset \<Rightarrow> ContainerState \<Rightarrow> bool" where
  acquire: "RB_NONE_acquireResource e memorymb core preferred co = Some (res, co') \<Longrightarrow>
    co_step co (new_ids (ContainerIDCounter co) (unat (ContainerIDCounter co' - ContainerIDCounter co))) {#} co'"
| allocated: "addGRMContainerToToBeAccepted resolve (co_pool co) ctn = Some (res, p) \<Longrightarrow> 0 \<notin> set (gc_HostName ctn) \<Longrightarrow>
    co_step co {#gc_ID ctn#} {#} (co\<lparr>co_pool := p\<rparr>)"
| notify_accept: "notifyToBeAcceptedGRMContainersToRMSEG e co = Some co' \<Longrightarrow> reaches e \<Longrightarrow> co_step co {#} {#} co'"
| notify_kick: "notifyToBeKickedGRMContainersToRMSEG e co = Some co' \<Longrightarrow> co_step co {#} {#} co'"
| sent_increase: "co_step co {#} {#} (sentIncreaseMemoryQuota co)"
| sent_decrease: "co_step co {#} {#} (sentDecreaseMemoryQuota co)"
| recv_increase: "recvIncreaseMemoryQuotaResponse e k messageid sz result co = Some co' \<Longrightarrow> co_step co {#} {#} co'"
| recv_decrease: "recvDecreaseMemoryQuotaResponse k messageid sz result co = Some co' \<Longrightarrow> co_step co {#} {#} co'"
| error_increase: "sentIncreaseMemoryQuotaError e k co = Some co' \<Longrightarrow> co_step co {#} {#} co'"
| error_decrease: "sentDecreaseMemoryQuotaError k co = Some co' \<Longrightarrow> co_step co {#} {#} co'"
| end_increase: "sentIncreaseMemoryQuotaCleanup e k co = Some co' \<Longrightarrow> co_step co {#} {#} co'"
| end_decrease: "sentDecreaseMemoryQuotaCleanup k co = Some co' \<Longrightarrow> co_step co {#} {#} co'"
| move_accepted: "moveAllAcceptedGRMContainersToResPool now co = Some co' \<Longrightarrow> co_step co {#} {#} co'"
| time_out: "timeoutIdleGRMResourceToRB imp waterlevel (co_mgr co) (co_pool co) = Some (m, p) \<Longrightarrow>
    co_step co {#} {#} (co\<lparr>co_mgr := m, co_pool := p\<rparr>)"
| force_return: "forceReturnGRMResourceToRB (co_mgr co) (co_pool co) = Some (m, p) \<Longrightarrow>
    co_step co {#} {#} (co\<lparr>co_mgr := m, co_pool := p\<rparr>)"
| unavailable: "returnAllGRMResourceFromGRMUnavailableSegments (co_mgr co) (co_pool co) = Some (m, p) \<Longrightarrow>
    co_step co {#} {#} (co\<lparr>co_mgr := m, co_pool := p\<rparr>)"
| report: "checkGRMContainerStatus (co_mgr co) (co_pool co) stats = Some ck \<Longrightarrow>
    co_step co {#} {#} (co\<lparr>co_mgr := ck_mgr ck, co_pool := ck_pool ck\<rparr>)"
| drop_all: "dropAllResPoolGRMContainersToToBeKicked timeout now co = Some co' \<Longrightarrow> co_step co {#} {#} co'"
| give_back: "RB_NONE_returnResource (co_pool co) = Some (res, p) \<Longrightarrow>
    co_step co {#} (image_mset fst (idents (KickedContainers (co_pool co)))) (co\<lparr>co_pool := p\<rparr>)"
| clear: "RB_clearResource (co_pool co) = Some p \<Longrightarrow>
    co_step co {#} (image_mset fst (idents (KickedContainers (co_pool co)))) (co\<lparr>co_pool := p\<rparr>)"
| query: "allocateResourceFromResourcePoolIOBytes resolve limit (co_mgr co) (co_pool co) q vsegs = Some (result, p) \<Longrightarrow>
    co_step co {#} {#} (co\<lparr>co_pool := p\<rparr>)"
| query_end: "returnResourceToResourcePool (co_mgr co) (co_pool co) memory core iobytes slices vsegs isold = Some p \<Longrightarrow>
    co_step co {#} {#} (co\<lparr>co_pool := p\<rparr>)"
| cleanup: "co_step co {#} {#} (co\<lparr>ResBrokerTriggerCleanup := b\<rparr>)"
| refresh: "refreshMemoryCoreRatioLevelUsage timeout now (co_tracks co) (co_mgr co) = Some m \<Longrightarrow> co_step co {#} {#} (co\<lparr>co_mgr := m\<rparr>)"

inductive co_run :: "ContainerState \<Rightarrow> int multiset \<Rightarrow> int multiset \<Rightarrow> ContainerState \<Rightarrow> bool" where
  start: "co_run co {#} {#} co"
| step: "co_run co C R co1 \<Longrightarrow> co_step co1 C' R' co2 \<Longrightarrow> co_run co (C + C') (R + R') co2"

lemma return_changes:
  assumes "returnContainers (KickedContainers (co_pool co)) (co_pool co) = Some p" "co_wf co"
  shows "changes co {#} (idents (KickedContainers (co_pool co))) (co\<lparr>co_pool := p\<rparr>)"
  using ensuresD [OF returnContainers_spec [OF co_wf_pool [OF assms(2)] refl] assms(1)]
  by (intro pool_returns [OF assms(2)]) simp_all

lemma creates_label:
  assumes "creates mem n co co'" "int n \<le> max (sint (core :: uint32)) 1"
  shows "unat (ContainerIDCounter co' - ContainerIDCounter co) = n"
proof -
  have "sint core < 2 ^ 31" using sint_lt [of core] by simp
  then have "int n < 2 ^ 32" using assms(2) by simp
  then have "n < 2 ^ 32" by simp
  then show ?thesis using assms(1) by (simp add: creates_def unat_of_nat)
qed

definition labelled :: "ContainerState \<Rightarrow> int multiset \<Rightarrow> int multiset \<Rightarrow> ContainerState \<Rightarrow> bool" where
  "labelled co C R co' \<longleftrightarrow> (\<exists>X Y. changes co X Y co' \<and> image_mset fst X = C \<and> image_mset fst Y = R)"

lemma labelledI: "changes co X Y co' \<Longrightarrow> image_mset fst X = C \<Longrightarrow> image_mset fst Y = R \<Longrightarrow> labelled co C R co'"
  by (auto simp: labelled_def)

lemma kept_changes: "ensures r (pool_kept (co_pool co)) \<Longrightarrow> r = Some (m, p) \<Longrightarrow> co_wf co \<Longrightarrow> changes co {#} {#} (co\<lparr>co_mgr := m, co_pool := p\<rparr>)"
  by (intro pool_changes) (auto dest!: ensuresD simp: pool_kept_def)

lemma quiet: "ensures r (changes co {#} {#}) \<Longrightarrow> r = Some co' \<Longrightarrow> labelled co {#} {#} co'"
  by (auto simp: ensures_def intro: labelledI)

lemma quiet_same: "co_wf co \<Longrightarrow> co_pool co' = co_pool co \<Longrightarrow> same_messages co co' \<Longrightarrow> labelled co {#} {#} co'"
  by (auto intro: labelledI same_changes)

lemma step_labelled:
  assumes "co_step co C R co'" "co_wf co"
  shows "labelled co C R co'"
proof -
  note wf = assms(2) and p = co_wf_pool [OF assms(2)]
  show ?thesis
    using assms(1)
  proof (cases rule: co_step.cases)
    case (acquire e memorymb core preferred res)
    obtain n where n: "int n \<le> max (sint core) 1" "creates (sint (memorymb div core)) n co co'"
      using ensuresD [OF acquire_creates [OF wf] acquire(3)] by auto
    show ?thesis unfolding acquire(1,2) creates_label [OF n(2,1)] using n(2) by (auto simp: creates_def labelled_def intro: exI [of _ "{#}"])
  next
    case (allocated resolve ctn res p)
    have "gains (co_pool co) {#ident ctn#} p"
      using ensuresD [OF toBeAccepted_ensures [OF \<open>container_wf (co_pool co)\<close> allocated(5)] allocated(4)] by simp
    then have "changes co {#ident ctn#} {#} co'" unfolding allocated(3) by (intro pool_changes [OF wf]) simp_all
    then show ?thesis unfolding allocated(1,2) by (rule labelledI) (simp_all add: ident_def)
  next
    case (report stats ck)
    have "changes co {#} {#} co'" using ensuresD [OF checkStatus_gains [OF p] report(4)] unfolding report(3) by (intro pool_changes [OF wf]) simp_all
    then show ?thesis unfolding report(1,2) by (rule labelledI) simp_all
  next
    case (give_back res p)
    have "returnContainers (KickedContainers (co_pool co)) (co_pool co) = Some p"
      using give_back(4) by (auto simp: RB_NONE_returnResource_def bind_eq_Some_conv)
    from return_changes [OF this wf] show ?thesis unfolding give_back(1-3) by (rule labelledI) simp_all
  next
    case (clear p)
    from return_changes [OF clear(4) [unfolded RB_clearResource_def] wf] show ?thesis unfolding clear(1-3) by (rule labelledI) simp_all
  next
    case (query resolve limit q vsegs result p)
    have "gains (co_pool co) {#} p" using ensuresD [OF allocate_gains [OF \<open>container_wf (co_pool co)\<close>] query(4)] by simp
    then have "changes co {#} {#} co'" unfolding query(3) by (intro pool_changes [OF wf]) simp_all
    then show ?thesis unfolding query(1,2) by (rule labelledI) simp_all
  next
    case (query_end memory core iobytes slices vsegs isold p)
    have "changes co {#} {#} co'"
      using ensuresD [OF return_gains [OF \<open>container_wf (co_pool co)\<close>] query_end(4)] unfolding query_end(3) by (intro pool_changes [OF wf]) simp_all
    then show ?thesis unfolding query_end(1,2) by (rule labelledI) simp_all
  next
    case (time_out imp waterlevel m p)
    then show ?thesis using kept_changes [OF timeoutIdle_gains [OF \<open>container_wf (co_pool co)\<close>] time_out(4) wf] by (auto intro: labelledI)
  next
    case (force_return m p)
    then show ?thesis using kept_changes [OF forceReturn_gains [OF \<open>container_wf (co_pool co)\<close>] force_return(4) wf] by (auto intro: labelledI)
  next
    case (unavailable m p)
    then show ?thesis using kept_changes [OF returnUnavailable_gains [OF \<open>container_wf (co_pool co)\<close>] unavailable(4) wf] by (auto intro: labelledI)
  qed (auto intro: quiet [OF notify_changes(1) [OF wf]] quiet [OF notify_changes(2) [OF wf]] quiet [OF recv_changes(1) [OF wf]]
      quiet [OF recv_changes(2) [OF wf]] quiet [OF error_changes(1) [OF wf]] quiet [OF error_changes(2) [OF wf]] quiet [OF cleanup_changes(1) [OF wf]]
      quiet [OF cleanup_changes(2) [OF wf]] quiet [OF moveAll_changes [OF wf]] quiet [OF dropAllResPool_changes [OF wf]] quiet_same [OF wf]
      simp: sentIncreaseMemoryQuota_def sentDecreaseMemoryQuota_def)
qed

section \<open>Every container is in one place\<close>

lemma run_labelled: "co_run co C R co' \<Longrightarrow> co_wf co \<Longrightarrow> labelled co C R co'"
proof (induction rule: co_run.induct)
  case (start co)
  then show ?case by (auto intro: labelledI changes_refl)
next
  case (step co C R co1 C' R' co2)
  obtain X Y where 1: "changes co X Y co1" "image_mset fst X = C" "image_mset fst Y = R" using step by (auto simp: labelled_def)
  obtain X' Y' where 2: "changes co1 X' Y' co2" "image_mset fst X' = C'" "image_mset fst Y' = R'"
    using step_labelled [OF step(2) changes_wf [OF 1(1)]] by (auto simp: labelled_def)
  show ?case by (rule labelledI [OF changes_trans [OF 1(1) 2(1)]]) (simp_all add: 1 2)
qed

section \<open>The clean-up\<close>

text \<open>The containers that wait to be accepted become kicked ones that nobody counts.\<close>

definition uncounted :: "ResourcePool \<Rightarrow> ResourcePool \<Rightarrow> bool" where
  "uncounted p p' \<longleftrightarrow> length (KickedContainers p) \<le> length (KickedContainers p') \<and>
     shifts p {#} 0 (int (length (KickedContainers p)) - int (length (KickedContainers p'))) p' \<and> RetPendingContainerCount p' = RetPendingContainerCount p"

lemma dropToAccept_uncounted:
  assumes wf: "container_wf p" and k: "simpstr_ok (fst pair)"
  shows "ensures (dropToAccept p pair) (uncounted p)"
  unfolding dropToAccept_def Let_def split_def moveGRMContainerSetToKicked_def
  apply (intro ensures_bind ensures_if ensures_Some)
  subgoal using wf by (simp add: uncounted_def shifts_def)
  subgoal premises prems for ctns ctn a s
  proof -
    let ?q = "put_seg p a (s\<lparr>sr_IncPending := minusResourceBundleDataByBundle (sr_IncPending s) (cs_Allocated ctns)\<rparr>)"
    have q: "gains p {#} ?q" by (rule put_same_gains [OF gains_refl [OF wf] prems(5)]) simp
    have "set_at (ToAcceptContainers ?q) (fst pair) = Some ctns" using prems(1) by simp
    from taken_accept [OF gains_wf [OF q] k this, of "emptied ctns"] q show ?thesis
      by (auto simp: uncounted_def shifts_def gains_def container_wf_def account_defs)
  qed
  done

lemma uncounted_trans: "uncounted p p' \<Longrightarrow> uncounted p' p'' \<Longrightarrow> uncounted p p''"
  using shifts_trans by (fastforce simp: uncounted_def)

lemma dropToKicked_uncounted: "container_wf p \<Longrightarrow> ensures (dropAllToAcceptGRMContainersToKicked p) (uncounted p)"
  unfolding dropAllToAcceptGRMContainersToKicked_def
  by (rule ensures_fold, simp add: uncounted_def shifts_def, rule ensures_weaken, rule dropToAccept_uncounted)
    (auto simp: uncounted_def shifts_def container_wf_def intro: all_pairs_ok uncounted_trans)

end
