(* ===== verification/RM_Container_Main.thy ===== *)
theory RM_Container_Main
  imports RM_Container_Cycle RM_Pool_Main
begin

text \<open>
  What holds of the containers in every run of the resource manager, where the code breaks it, and that the broker
  without a global resource manager stays within the capacity of the segments.
\<close>

section \<open>An example\<close>

text \<open>One segment, host \<open>a\<close>, with 8192 MB and 8 cores, and one ratio of 1024 MB per core.\<close>

definition ex_info :: "uint8 list" where
  "ex_info = replicate 12 0 @ [16, 0, 0, 0, 97, 0]"

definition ex_hostseg :: SegResource where
  "ex_hostseg = (ex_seg 0 None)\<lparr>sr_Stat := (sr_Stat (ex_seg 0 None))\<lparr>st_Info := ex_info\<rparr>\<rparr>"

definition ex_mgr :: DynResourceQueueManager where
  "ex_mgr = ex_manager\<lparr>RatioTrackers := [Some (createDynMemoryCoreRatioTrack 1024 0)], RatioReverseIndex := [1024], RatioWaterMarks := [[]]\<rparr>"

definition ex_co :: ContainerState where
  "ex_co = \<lparr>co_mgr = ex_mgr, co_tracks = Map.empty, co_pool = ex_pool [(1, ex_hostseg)] [], co_increasing = [], co_decreasing = [],
     IncreaseMemoryRPCCounter = 0, DecreaseMemoryRPCCounter = 0, ResBrokerTriggerCleanup = False, RoundRobinIndex = 0, ContainerIDCounter = 0\<rparr>"

definition ex_env :: "drm_code \<Rightarrow> ContainerEnv" where
  "ex_env c = \<lparr>ce_resolve = (\<lambda>_. None), ce_now = 0, ce_connect = (\<lambda>_. c), ce_test = False\<rparr>"

text \<open>Two containers are created, accepted by the segment, taken into the pool, dropped, kicked and returned.\<close>

definition ex_acquired :: "ContainerState option" where
  "ex_acquired = map_option snd (RB_NONE_acquireResource (ex_env FUNC_RETURN_OK) 2048 2 [] ex_co)"

definition ex_pooled :: "ContainerState option" where
  "ex_pooled = do {
     co \<leftarrow> ex_acquired;
     co \<leftarrow> notifyToBeAcceptedGRMContainersToRMSEG (ex_env FUNC_RETURN_OK) co;
     co \<leftarrow> recvIncreaseMemoryQuotaResponse (ex_env FUNC_RETURN_OK) 0 RESPONSE_RM_INCREASE_MEMORY_QUOTA 8 0 co;
     co \<leftarrow> sentIncreaseMemoryQuotaCleanup (ex_env FUNC_RETURN_OK) 0 co;
     moveAllAcceptedGRMContainersToResPool 0 co
   }"

definition ex_kicked :: "ContainerState option" where
  "ex_kicked = do {
     co \<leftarrow> ex_pooled;
     co \<leftarrow> dropAllResPoolGRMContainersToToBeKicked 300 0 co;
     co \<leftarrow> notifyToBeKickedGRMContainersToRMSEG (ex_env FUNC_RETURN_OK) co;
     co \<leftarrow> recvDecreaseMemoryQuotaResponse 0 RESPONSE_RM_DECREASE_MEMORY_QUOTA 8 0 co;
     sentDecreaseMemoryQuotaCleanup 0 co
   }"

definition ex_returned :: "ContainerState option" where
  "ex_returned = do { co \<leftarrow> ex_kicked; (res, p) \<leftarrow> RB_NONE_returnResource (co_pool co); Some (co\<lparr>co_pool := p\<rparr>) }"

lemma ex_run: "map_option (\<lambda>co. (AddPendingContainerCount (co_pool co), RetPendingContainerCount (co_pool co), ContainerIDCounter co)) ex_returned = Some (0, 0, 2)"
  by code_simp

lemma ex_tables: "sets_inv (ToAcceptContainers (ex_pool segs hs))" "sets_inv (ToKickContainers (ex_pool segs hs))"
  "pair_sum w (ToAcceptContainers (ex_pool segs hs)) = (0 :: 'a :: comm_monoid_add)" "pair_sum w (ToKickContainers (ex_pool segs hs)) = (0 :: 'a)"
proof -
  show "sets_inv (ToAcceptContainers (ex_pool segs hs))" "sets_inv (ToKickContainers (ex_pool segs hs))"
    unfolding ex_pool_def ResourcePool.select_convs by (rule initialize_inv(1); simp)+
  show "pair_sum w (ToAcceptContainers (ex_pool segs hs)) = (0 :: 'a)" "pair_sum w (ToKickContainers (ex_pool segs hs)) = (0 :: 'a)"
    by (simp_all add: ex_pool_def pair_sum_def pairs_def initializeHASHTABLE_def)
qed

lemma ex_no_containers: "joining (co_pool ex_co) = {#}" "leaving (co_pool ex_co) = {#}" "pool_ids (co_pool ex_co) = {#}" "all_ids ex_co = {#}"
proof -
  show 1: "joining (co_pool ex_co) = {#}" "leaving (co_pool ex_co) = {#}"
    by (simp_all add: ex_co_def joining_def leaving_def ex_tables) (simp_all add: ex_pool_def)
  show 2: "pool_ids (co_pool ex_co) = {#}"
    by (simp add: ex_co_def pool_ids_def ex_pool_def seg_ids_def ex_hostseg_def ex_seg_def)
  show "all_ids ex_co = {#}" using 1 2 by (simp add: all_ids_def everything_def) (simp add: ex_co_def)
qed

lemma ex_co_wf: "co_wf ex_co"
  using ex_no_containers(4) ex_tables(1,2)
  by (simp add: co_wf_def container_wf_def all_ids_def) (simp add: ex_co_def ex_pool_def)

lemma ex_co_exact: "counters_exact ex_co"
  using ex_no_containers(1,2) by (simp add: counters_exact_def) (simp add: ex_co_def ex_pool_def)

lemma ex_reaches: "reaches (ex_env FUNC_RETURN_OK)"
  by (simp add: reaches_def ex_env_def)

definition ex_reached :: "ContainerState \<Rightarrow> bool" where
  "ex_reached co \<longleftrightarrow> (\<exists>C R. co_run ex_co C R co)"

lemma ex_step: "ex_reached co \<Longrightarrow> (\<And>co'. r = Some co' \<Longrightarrow> \<exists>C R. co_step co C R co') \<Longrightarrow> ensures r ex_reached"
  unfolding ex_reached_def ensures_def using co_run.step by blast

lemma ex_acquired_reached: "ensures ex_acquired ex_reached"
  unfolding ex_acquired_def
  by (rule ex_step [of ex_co]) (auto simp: ex_reached_def intro: co_run.start dest: co_step.acquire)

lemma ex_pooled_reached: "ensures ex_pooled ex_reached"
  unfolding ex_pooled_def
  by (rule ensures_then [OF ex_acquired_reached], rule ensures_then, erule ex_step, use co_step.notify_accept ex_reaches in blast,
      rule ensures_then, erule ex_step, use co_step.recv_increase in blast, rule ensures_then, erule ex_step, use co_step.end_increase in blast,
      erule ex_step) (use co_step.move_accepted in blast)

lemma ex_kicked_reached: "ensures ex_kicked ex_reached"
  unfolding ex_kicked_def
  by (rule ensures_then [OF ex_pooled_reached], rule ensures_then, erule ex_step, use co_step.drop_all in blast,
      rule ensures_then, erule ex_step, use co_step.notify_kick in blast, rule ensures_then, erule ex_step, use co_step.recv_decrease in blast,
      erule ex_step) (use co_step.end_decrease in blast)

lemma ex_returned_reached: "ensures ex_returned ex_reached"
  unfolding ex_returned_def
  by (rule ensures_then [OF ex_kicked_reached], erule ex_step) (auto simp: bind_eq_Some_conv dest: co_step.give_back)

section \<open>Every container is in one place\<close>

text \<open>C6: in every run of the resource manager, with the brokers, the messages to the segments and their answers, errors
  and ends, the queries and the time-outs in any order, the containers that came from a broker are those that have
  gone back and those that wait to join the pool, belong to a segment, wait to leave it or are carried by a message;
  none is lost and none is in two places.  The two counters of pending containers count exactly those that are to join
  and those that are to leave.\<close>

theorem containers_conserved:
  assumes "co_run co C R co'" "co_wf co" "counters_exact co"
  shows "image_mset fst (all_ids co') + R = image_mset fst (all_ids co) + C \<and> counters_exact co' \<and> co_wf co'"
proof -
  obtain X Y where x: "changes co X Y co'" "image_mset fst X = C" "image_mset fst Y = R"
    using run_labelled [OF assms(1,2)] by (auto simp: labelled_def)
  have "image_mset fst (all_ids co' + Y) = image_mset fst (all_ids co + X)" using x(1) by (simp add: changes_def)
  then show ?thesis using x assms(3) by (simp add: changes_def counters_exact_iff)
qed

theorem containers_conserved_witness:
  "\<exists>C R co'. ex_returned = Some co' \<and> co_run ex_co C R co' \<and> image_mset fst (all_ids co') + R = C \<and> counters_exact co'"
proof -
  obtain co' where co': "ex_returned = Some co'" using ex_run by auto
  obtain C R where run: "co_run ex_co C R co'" using ensuresD [OF ex_returned_reached co'] by (auto simp: ex_reached_def)
  from containers_conserved [OF run ex_co_wf ex_co_exact] show ?thesis
    using co' run by (simp add: ex_no_containers) blast
qed

section \<open>Where the code breaks it\<close>

lemma run_slack:
  assumes "co_run co C R co'" "co_wf co"
  shows "add_slack co' = add_slack co" "ret_slack co' = ret_slack co"
  using run_labelled [OF assms] by (auto simp: labelled_def changes_def)

text \<open>C8: when the connection to a segment fails, the containers that the segment should have accepted are in no place
  any more, but they stay counted as pending for ever: the counter is too high in every run from there on, and the
  clean-up, which waits for it to become 0, never ends.\<close>

theorem failed_connection_loses_containers:
  assumes "co_wf co" "counters_exact co" "simpstr_ok k" "ce_connect e host \<noteq> FUNC_RETURN_OK"
    and "set_at (ToAcceptContainers (co_pool co)) k = Some ctns" "first_segment co ctns = Some s"
  shows "\<exists>co'. increaseMemoryQuota e host k co = Some (ce_connect e host, co') \<and>
    all_ids co = all_ids co' + idents (cs_Containers ctns) \<and>
    (\<forall>C R co''. co_run co' C R co'' \<longrightarrow>
       AddPendingContainerCount (co_pool co'') = int (size (joining (co_pool co'') + carried (co_increasing co''))) + int (length (cs_Containers ctns)) \<and>
       cleanedAllGRMContainers co'' \<noteq> Some True)"
proof -
  have some: "0 < length (cs_Containers ctns)"
    using assms(6) by (auto simp: first_segment_def getGRMContainerSetContainerFirst_def bind_eq_Some_conv split: list.splits)
  obtain co' where co': "increaseMemoryQuota e host k co = Some (ce_connect e host, co')" "co_wf co'"
    "all_ids co = all_ids co' + idents (cs_Containers ctns)" "add_slack co' = add_slack co + int (length (cs_Containers ctns))"
    using increase_fails [OF assms(1,3,4,5,6)] by metis
  have high: "AddPendingContainerCount (co_pool co'') = int (size (joining (co_pool co'') + carried (co_increasing co''))) + int (length (cs_Containers ctns))"
    if "co_run co' C R co''" for C R co''
    using run_slack(1) [OF that co'(2)] co'(4) assms(2) by (simp add: counters_exact_iff add_slack_def add_gap_def)
  have "cleanedAllGRMContainers co'' \<noteq> Some True" if "co_run co' C R co''" for C R co''
  proof -
    have "AddPendingContainerCount (co_pool co'') \<noteq> 0" using high [OF that] some by linarith
    then show ?thesis by (auto simp: cleanedAllGRMContainers_def bind_eq_Some_conv)
  qed
  then show ?thesis using co'(1,3) high by blast
qed

text \<open>C9: the clean-up kicks the containers that wait to be accepted without counting them as pending returns, which
  are counted down when they are given back: from there on the counter is too low by their number in every run, and
  when no container is left, it is negative and the clean-up does not end.\<close>

theorem cleanup_miscounts_returns:
  assumes "co_wf co" "counters_exact co" "dropAllToAcceptGRMContainersToKicked (co_pool co) = Some p"
    and "n = length (KickedContainers p) - length (KickedContainers (co_pool co))" "co_run (co\<lparr>co_pool := p\<rparr>) C R co'"
  shows "RetPendingContainerCount (co_pool co') = int (size (leaving (co_pool co') + carried (co_decreasing co'))) - int n \<and>
    (all_ids co' = {#} \<and> 0 < n \<longrightarrow> cleanedAllGRMContainers co' \<noteq> Some True)"
proof -
  let ?co = "co\<lparr>co_pool := p\<rparr>"
  have p: "uncounted (co_pool co) p" by (rule ensuresD [OF dropToKicked_uncounted [OF co_wf_pool [OF assms(1)]] assms(3)])
  then have "ret_slack ?co = - int n" and wf: "co_wf ?co"
    using assms(1,2,4) by (auto simp: uncounted_def shifts_def counters_exact_iff ret_slack_def co_wf_def all_ids_def)
  then have ret: "RetPendingContainerCount (co_pool co') = int (size (leaving (co_pool co') + carried (co_decreasing co'))) - int n"
    using run_slack(2) [OF assms(5) wf] by (simp add: ret_slack_def ret_gap_def)
  then show ?thesis
    by (auto simp: cleanedAllGRMContainers_def bind_eq_Some_conv all_ids_def everything_def)
qed

text \<open>The example has two containers that wait to be accepted.\<close>

lemma ex_reached_exact: "ex_reached co \<Longrightarrow> co_wf co \<and> counters_exact co"
  using run_labelled [OF _ ex_co_wf] run_slack [OF _ ex_co_wf] ex_co_exact
  by (auto simp: ex_reached_def labelled_def changes_def counters_exact_iff)

lemma ex_pending:
  "(case ex_acquired of None \<Rightarrow> False
    | Some co \<Rightarrow> (case set_at (ToAcceptContainers (co_pool co)) (name_key [97]) of None \<Rightarrow> False
        | Some ctns \<Rightarrow> length (cs_Containers ctns) = 2 \<and> (case first_segment co ctns of None \<Rightarrow> False | Some s \<Rightarrow> True)))"
  by code_simp

theorem failed_connection_loses_containers_witness:
  "\<exists>co (ctns :: GRMContainerSet) co'. ex_acquired = Some co \<and> length (cs_Containers ctns) = 2 \<and>
     increaseMemoryQuota (ex_env FUNC_RETURN_FAIL) [97] (name_key [97]) co = Some (FUNC_RETURN_FAIL, co') \<and>
     all_ids co = all_ids co' + idents (cs_Containers ctns) \<and> cleanedAllGRMContainers co' \<noteq> Some True"
proof -
  obtain co ctns s where ex: "ex_acquired = Some co" "set_at (ToAcceptContainers (co_pool co)) (name_key [97]) = Some ctns"
    "length (cs_Containers ctns) = 2" "first_segment co ctns = Some s"
    using ex_pending by (auto split: option.splits)
  have ok: "co_wf co" "counters_exact co" using ex_reached_exact [OF ensuresD [OF ex_acquired_reached ex(1)]] by auto
  have key: "simpstr_ok (name_key [97])" by (simp add: name_key_ok)
  have bad: "ce_connect (ex_env FUNC_RETURN_FAIL) [97] = FUNC_RETURN_FAIL" by (simp add: ex_env_def)
  then have "ce_connect (ex_env FUNC_RETURN_FAIL) [97] \<noteq> FUNC_RETURN_OK" by simp
  from failed_connection_loses_containers [OF ok key this ex(2,4)] obtain co' where
    "increaseMemoryQuota (ex_env FUNC_RETURN_FAIL) [97] (name_key [97]) co = Some (FUNC_RETURN_FAIL, co')"
    "all_ids co = all_ids co' + idents (cs_Containers ctns)" "\<forall>C R co''. co_run co' C R co'' \<longrightarrow> cleanedAllGRMContainers co'' \<noteq> Some True"
    unfolding bad by auto
  then show ?thesis using ex(1,3) co_run.start [of co'] by blast
qed

lemma ex_dropped:
  "(case ex_acquired of None \<Rightarrow> False
    | Some co \<Rightarrow> KickedContainers (co_pool co) = [] \<and>
        (case dropAllToAcceptGRMContainersToKicked (co_pool co) of None \<Rightarrow> False
         | Some p \<Rightarrow> length (KickedContainers p) = 2 \<and>
             (case RB_clearResource p of None \<Rightarrow> False | Some p' \<Rightarrow> RetPendingContainerCount p' = -2)))"
  by code_simp

theorem cleanup_miscounts_returns_witness:
  "\<exists>co p C R co'. ex_acquired = Some co \<and> dropAllToAcceptGRMContainersToKicked (co_pool co) = Some p \<and>
     co_run (co\<lparr>co_pool := p\<rparr>) C R co' \<and> RetPendingContainerCount (co_pool co') = -2 \<and>
     RetPendingContainerCount (co_pool co') = int (size (leaving (co_pool co') + carried (co_decreasing co'))) - 2"
proof -
  obtain co p p' where ex: "ex_acquired = Some co" "KickedContainers (co_pool co) = []"
    "dropAllToAcceptGRMContainersToKicked (co_pool co) = Some p" "length (KickedContainers p) = 2" "RB_clearResource p = Some p'"
    "RetPendingContainerCount p' = -2"
    using ex_dropped by (auto split: option.splits)
  let ?co = "co\<lparr>co_pool := p\<rparr>" and ?co' = "co\<lparr>co_pool := p'\<rparr>"
  have ok: "co_wf co" "counters_exact co" using ex_reached_exact [OF ensuresD [OF ex_acquired_reached ex(1)]] by auto
  have "co_step ?co {#} (image_mset fst (idents (KickedContainers (co_pool ?co)))) (?co\<lparr>co_pool := p'\<rparr>)"
    by (rule co_step.clear) (simp add: ex(5))
  from co_run.step [OF co_run.start this]
  have run: "co_run ?co {#} (image_mset fst (idents (KickedContainers p))) ?co'" by simp
  have "(2 :: nat) = length (KickedContainers p) - length (KickedContainers (co_pool co))" using ex(2,4) by simp
  from cleanup_miscounts_returns [OF ok ex(3) this run] show ?thesis using ex(1,3,6) run by (intro exI conjI) (assumption | simp)+
qed

section \<open>The broker stays within the capacity of the segments\<close>

text \<open>There is room for \<open>n\<close> containers of \<open>mem\<close> MB and one core.\<close>

definition room :: "int \<Rightarrow> nat \<Rightarrow> SegResource \<Rightarrow> bool" where
  "room mem n s \<longleftrightarrow> 0 \<le> rb_MemoryMB (sr_Allocated s) \<and> 0 \<le> rb_MemoryMB (sr_IncPending s) \<and>
     rb_MemoryMB (sr_Allocated s) + rb_MemoryMB (sr_IncPending s) + int n * mem \<le> uint (st_FTSTotalMemoryMB (sr_Stat s)) \<and>
     rb_Core (sr_Allocated s) + rb_Core (sr_IncPending s) + of_nat n \<le> of_int (uint (st_FTSTotalCore (sr_Stat s)))"

definition within_capacity :: "SegResource \<Rightarrow> bool" where
  "within_capacity s \<longleftrightarrow> 0 \<le> rb_MemoryMB (sr_Allocated s) \<and> 0 \<le> rb_MemoryMB (sr_IncPending s) \<and>
     rb_MemoryMB (sr_Allocated s) + rb_MemoryMB (sr_IncPending s) \<le> uint (st_FTSTotalMemoryMB (sr_Stat s)) \<and>
     rb_Core (sr_Allocated s) + rb_Core (sr_IncPending s) \<le> of_int (uint (st_FTSTotalCore (sr_Stat s)))"

lemma room_0: "room mem 0 s \<longleftrightarrow> within_capacity s"
  by (simp add: room_def within_capacity_def)

definition all_within :: "ContainerState \<Rightarrow> bool" where
  "all_within co \<longleftrightarrow> (\<forall>a s. rp_heap (co_pool co) a = Some s \<longrightarrow> within_capacity s)"

lemma freeMemory_within:
  assumes "within_capacity s"
  shows "uint (freeMemory s) = uint (st_FTSTotalMemoryMB (sr_Stat s)) - rb_MemoryMB (sr_Allocated s) - rb_MemoryMB (sr_IncPending s)"
proof -
  let ?x = "uint (st_FTSTotalMemoryMB (sr_Stat s)) - rb_MemoryMB (sr_Allocated s) - rb_MemoryMB (sr_IncPending s)"
  have "freeMemory s = of_int ?x" by (simp add: freeMemory_def)
  moreover have "0 \<le> ?x" "?x < 2 ^ 32"
    using assms uint_lt2p [of "st_FTSTotalMemoryMB (sr_Stat s)"] by (auto simp: within_capacity_def)
  ultimately show ?thesis by (simp only: uint_word_of_int) (simp add: take_bit_int_eq_self)
qed

lemma room_one:
  assumes "within_capacity s" "0 < mem" "mem < 2 ^ 31" "freeMemory s \<ge> of_int mem" "freeCore s \<ge> 1"
  shows "room mem 1 s"
proof -
  have "uint (of_int mem :: uint32) = mem" using assms(2,3) by (simp add: uint_word_of_int take_bit_int_eq_self)
  then show ?thesis
    using assms freeMemory_within [OF assms(1)] by (auto simp: room_def within_capacity_def freeCore_def word_le_def algebra_simps)
qed

lemma c_trunc_upper: "x \<le> of_int n \<Longrightarrow> c_trunc x \<le> n"
  by (auto simp: c_trunc_def ceiling_le floor_le_iff)

lemma c_trunc_pos: "0 < k \<Longrightarrow> k \<le> c_trunc x \<Longrightarrow> of_int k \<le> x"
proof (cases "0 \<le> x")
  case False
  then have "\<lceil>x\<rceil> \<le> 0" by (intro ceiling_le) simp
  then show "0 < k \<Longrightarrow> k \<le> c_trunc x \<Longrightarrow> of_int k \<le> x" using False by (simp add: c_trunc_def)
qed (simp add: c_trunc_def le_floor_iff)

lemma sint_le_uint: "sint (w :: uint32) \<le> uint w"
proof -
  have "take_bit 32 (uint w) = uint w" using uint_lt2p [of w] by (simp add: take_bit_int_eq_self)
  then show ?thesis by (simp add: sint_uint signed_take_bit_eq_take_bit_minus)
qed

lemma room_available:
  assumes "within_capacity s" "0 < mem" "mem < 2 ^ 31" "availableContainers mem s resource = Some k"
  shows "room mem (nat k) s"
proof (cases "0 < k")
  case True
  have mem: "uint (of_int mem :: uint32) = mem" using assms(2,3) by (simp add: uint_word_of_int take_bit_int_eq_self)
  have k: "k \<le> c_trunc (freeCore s)" "k \<le> sint (freeMemory s div (of_int mem :: uint32))"
  proof -
    define n where "n = min (c_trunc (freeCore s)) (sint (freeMemory s div (of_int mem :: uint32)))"
    have "k = (if of_int n < rb_Core resource then n else c_trunc (rb_Core resource))"
      using assms(2,4) by (auto simp: availableContainers_def Let_def n_def min_def split: if_splits)
    then have "k \<le> n" using c_trunc_upper [of "rb_Core resource" n] by auto
    then show "k \<le> c_trunc (freeCore s)" "k \<le> sint (freeMemory s div (of_int mem :: uint32))" by (simp_all add: n_def)
  qed
  have "k \<le> uint (freeMemory s) div mem"
    using order_trans [OF k(2) sint_le_uint] by (simp add: uint_div_distrib mem)
  then have "k * mem \<le> uint (freeMemory s)"
    using mult_right_mono [of k "uint (freeMemory s) div mem" mem] minus_mod_eq_div_mult [of "uint (freeMemory s)" mem]
      pos_mod_sign [OF assms(2), of "uint (freeMemory s)"] assms(2) by linarith
  then show ?thesis
    using c_trunc_pos [OF True k(1)] True assms(1) freeMemory_within [OF assms(1)]
    by (auto simp: room_def within_capacity_def freeCore_def algebra_simps)
next
  case False
  then show ?thesis using assms(1) by (simp add: room_0)
qed

lemma newContainer_heap:
  assumes "rp_heap (co_pool co) a = Some s"
  shows "ensures (newContainer e mem a s co) (\<lambda>co'. rp_heap (co_pool co') =
    (rp_heap (co_pool co))(a \<mapsto> s\<lparr>sr_IncPending := addResourceBundleData (sr_IncPending s) mem 1\<rparr>))"
  unfolding newContainer_def Let_def addGRMContainerToToBeAccepted_def recognizeContainer_def
  using assms by (auto simp: ensures_def bind_eq_Some_conv createGRMContainer_def c_trunc_def)

lemma newContainer_room:
  assumes "all_within co" "rp_heap (co_pool co) a = Some s" "room mem (Suc n) s" "0 < mem"
  shows "ensures (newContainer e mem a s co) (\<lambda>co'. all_within co' \<and> (\<exists>s'. rp_heap (co_pool co') a = Some s' \<and> room mem n s'))"
proof -
  let ?s = "s\<lparr>sr_IncPending := addResourceBundleData (sr_IncPending s) mem 1\<rparr>"
  have r: "room mem n ?s" using assms(3,4) by (auto simp: room_def addResourceBundleData_def algebra_simps)
  then have "within_capacity ?s" using assms(4) by (auto simp: room_def within_capacity_def) (smt (verit) mult_nonneg_nonneg of_nat_0_le_iff)+
  then show ?thesis
    using assms(1) r by (intro ensures_weaken [OF newContainer_heap [OF assms(2)]]) (auto simp: all_within_def)
qed

lemma allocateOnHost_within:
  assumes "0 < mem"
  shows "all_within co \<Longrightarrow> rp_heap (co_pool co) a = Some s \<Longrightarrow> room mem n s
    \<Longrightarrow> ensures (allocateOnHost e mem contcount a n contact co) (\<lambda>(contact', co'). all_within co')"
proof (induction n arbitrary: contact co s)
  case (Suc n)
  show ?case unfolding allocateOnHost.simps Suc.prems(2) Option.bind_lunit
    by (rule ensures_then [OF newContainer_room [OF Suc.prems assms]], rule ensures_if, rule ensures_Some) (auto intro: Suc.IH)
qed (simp add: ensures_def)

lemma allocatePreferred_within:
  assumes "0 < mem" "mem < 2 ^ 31"
  shows "all_within co \<Longrightarrow> ensures (allocatePreferred e mem contcount preferred contact co) (\<lambda>(contact', co'). all_within co')"
proof (induction preferred arbitrary: contact co)
  case (Cons pair preferred)
  obtain a resource where pair: "pair = (a, resource)" by fastforce
  show ?case unfolding pair allocatePreferred.simps
    apply (rule ensures_bind, rule ensures_if, rule Cons.IH [OF Cons.prems], rule ensures_bind)
    subgoal premises prems for s k
      by (rule ensures_then [OF allocateOnHost_within [OF assms(1) Cons.prems prems(1)]], rule room_available)
        (use Cons.prems [unfolded all_within_def] prems assms in \<open>auto intro!: ensures_if ensures_Some Cons.IH\<close>)
    done
qed (simp add: ensures_def)

lemma nextHost_fits:
  "ensures (nextHost p mem hostcount n rr) (\<lambda>(rr', host). \<forall>a. host = Some a \<longrightarrow>
     (\<exists>s. rp_heap p a = Some s \<and> freeMemory s \<ge> of_int mem \<and> freeCore s \<ge> 1))"
proof (induction n arbitrary: rr)
  case (Suc n)
  show ?case unfolding nextHost.simps Let_def
    by (rule ensures_option, rule Suc.IH, rule ensures_bind, rule ensures_if, rule Suc.IH, rule ensures_if) (auto intro: ensures_Some Suc.IH)
qed (simp add: ensures_def)

lemma allocateRoundRobin_within:
  assumes "0 < mem" "mem < 2 ^ 31"
  shows "all_within co \<Longrightarrow> ensures (allocateRoundRobin e mem hostcount n co) (\<lambda>(rest, co'). all_within co')"
proof (induction n arbitrary: co)
  case (Suc n)
  show ?case unfolding allocateRoundRobin.simps Let_def
    apply (rule ensures_then [OF nextHost_fits], rule ensures_prod, rule ensures_option, rule ensures_Some)
    subgoal using Suc.prems by (simp add: all_within_def)
    subgoal premises prems for r rr' host a
    proof -
      let ?co = "co\<lparr>RoundRobinIndex := rr'\<rparr>"
      obtain s where s: "rp_heap (co_pool ?co) a = Some s" "freeMemory s \<ge> of_int mem" "freeCore s \<ge> 1" using prems by auto
      have w: "all_within ?co" and r: "room mem (Suc 0) s"
        using Suc.prems room_one [OF _ assms s(2,3)] s(1) by (auto simp: all_within_def)
      show ?thesis unfolding s(1) Option.bind_lunit
        by (rule ensures_then [OF newContainer_room [OF w s(1) r assms(1)]]) (rule Suc.IH, simp)
    qed
    done
qed (simp add: ensures_def)

text \<open>The search for the next host looks at every segment.\<close>

definition full :: "int \<Rightarrow> ResourcePool \<Rightarrow> int \<Rightarrow> bool" where
  "full mem p j \<longleftrightarrow> (case getSegResource p j of None \<Rightarrow> True
     | Some a \<Rightarrow> (case rp_heap p a of None \<Rightarrow> True
         | Some s \<Rightarrow> \<not> IS_SEGRESOURCE_USABLE s \<or> \<not> (freeMemory s \<ge> of_int mem \<and> freeCore s \<ge> 1)))"

definition rr_next :: "int \<Rightarrow> int \<Rightarrow> int" where
  "rr_next hostcount rr = (if rr \<ge> hostcount - 1 then 0 else rr + 1)"

lemma nextHost_looked:
  "nextHost p mem hostcount n rr = Some (rr', host) \<Longrightarrow> 0 \<le> rr \<Longrightarrow> 0 \<le> rr' \<and> (host = None \<longrightarrow> (\<forall>i < n. full mem p ((rr_next hostcount ^^ Suc i) rr)))"
proof (induction n arbitrary: rr)
  case (Suc n)
  let ?r = "rr_next hostcount rr"
  have r: "0 \<le> ?r" using Suc.prems(2) by (simp add: rr_next_def)
  have "nextHost p mem hostcount n ?r = Some (rr', host) \<and> full mem p ?r \<or> host \<noteq> None \<and> rr' = ?r"
    using Suc.prems(1) by (auto simp: rr_next_def full_def Let_def bind_eq_Some_conv split: option.splits if_splits)
  then show ?case
  proof
    assume *: "nextHost p mem hostcount n ?r = Some (rr', host) \<and> full mem p ?r"
    then have IH: "0 \<le> rr'" "host = None \<Longrightarrow> \<forall>i < n. full mem p ((rr_next hostcount ^^ Suc i) ?r)" using Suc.IH r by blast+
    have "full mem p ((rr_next hostcount ^^ Suc i) rr)" if "host = None" "i < Suc n" for i
      using IH(2) [OF that(1)] that(2) * by (cases i) (auto simp: funpow_swap1)
    then show ?thesis using IH(1) by blast
  qed (use r in auto)
qed auto

lemma rr_next_reaches:
  assumes "0 \<le> rr" "0 \<le> j" "j < hostcount"
  shows "\<exists>i < nat hostcount. (rr_next hostcount ^^ Suc i) rr = j"
proof -
  have go: "(rr_next hostcount ^^ i) r = r + int i" if "r + int i < hostcount" for i r
    using that by (induction i) (simp_all add: rr_next_def)
  show ?thesis
  proof (cases "rr < j")
    case True
    let ?i = "nat (j - rr - 1)"
    have "(rr_next hostcount ^^ Suc ?i) rr = j" using True assms go [of rr "Suc ?i"] by simp
    then show ?thesis using True assms by (intro exI [of _ ?i]) auto
  next
    case False
    define k where "k = (if rr \<ge> hostcount - 1 then 0 else nat (hostcount - 1 - rr))"
    have "(rr_next hostcount ^^ k) rr \<ge> hostcount - 1" using go [of rr k] by (auto simp: k_def)
    then have zero: "(rr_next hostcount ^^ Suc k) rr = 0" by (simp add: rr_next_def)
    have "(rr_next hostcount ^^ (nat j + Suc k)) rr = j" unfolding funpow_add comp_def zero using go [of 0 "nat j"] assms by simp
    then have "(rr_next hostcount ^^ Suc (nat j + k)) rr = j" by simp
    moreover have "nat j + k < nat hostcount" using False assms by (auto simp: k_def)
    ultimately show ?thesis by blast
  qed
qed

lemma nextHost_none: "nextHost p mem hostcount (nat hostcount) rr = Some (rr', None) \<Longrightarrow> 0 \<le> rr \<Longrightarrow> 0 \<le> j \<Longrightarrow> j < hostcount \<Longrightarrow> full mem p j"
  using nextHost_looked [of p mem hostcount "nat hostcount" rr rr' None] rr_next_reaches [of rr j hostcount] by blast

lemma newContainer_index: "ensures (newContainer e mem a s co) (\<lambda>co'. RoundRobinIndex co' = RoundRobinIndex co)"
  unfolding newContainer_def Let_def by (intro wp) simp

lemma allocateOnHost_index: "ensures (allocateOnHost e mem c a n k co) (\<lambda>(k', co'). RoundRobinIndex co' = RoundRobinIndex co)"
proof (induction n arbitrary: k co)
  case (Suc n)
  show ?case unfolding allocateOnHost.simps
    by (rule ensures_bind, rule ensures_then [OF newContainer_index], rule ensures_if, rule ensures_Some, simp, rule ensures_weaken [OF Suc.IH]) auto
qed (simp add: ensures_def)

lemma allocatePreferred_index: "ensures (allocatePreferred e mem c preferred k co) (\<lambda>(k', co'). RoundRobinIndex co' = RoundRobinIndex co)"
proof (induction preferred arbitrary: k co)
  case (Cons pair preferred)
  obtain a resource where pair: "pair = (a, resource)" by fastforce
  show ?case unfolding pair allocatePreferred.simps
    by (rule ensures_bind, rule ensures_if, rule Cons.IH, rule ensures_bind, rule ensures_then [OF allocateOnHost_index], rule ensures_prod,
        rule ensures_if, rule ensures_Some, simp, rule ensures_weaken [OF Cons.IH]) auto
qed (simp add: ensures_def)

lemma creates_mgr: "creates mem n co co' \<Longrightarrow> creates mem n co (co'\<lparr>co_mgr := m\<rparr>)"
  using changes_then_same [of co _ _ co' "co'\<lparr>co_mgr := m\<rparr>"] by (auto simp: creates_def)

lemma allocateRoundRobin_full:
  "0 \<le> RoundRobinIndex co \<Longrightarrow> ensures (allocateRoundRobin e mem hostcount n co)
     (\<lambda>(rest, co'). rest = 0 \<or> (\<forall>j. 0 \<le> j \<and> j < hostcount \<longrightarrow> full mem (co_pool co') j))"
proof (induction n arbitrary: co)
  case (Suc n)
  show ?case unfolding allocateRoundRobin.simps Let_def
    apply (rule ensures_bind, rule ensures_prod, rule ensures_option, rule ensures_Some)
    subgoal using nextHost_none [OF _ Suc.prems] by auto
    subgoal premises prems for r rr' host a
      by (rule ensures_bind, rule ensures_then [OF newContainer_index], rule Suc.IH)
        (use nextHost_looked [OF _ Suc.prems] prems in auto)
    done
qed (simp add: ensures_def)

text \<open>C7: the broker creates at most as many containers as cores are asked for, each with the memory of one core and with
  the next ids; when it creates fewer, no segment has room for another one.  On no segment the allocated and the
  pending resource exceed what the segment has, whatever hosts are preferred.\<close>

theorem RB_NONE_within_capacity:
  assumes "RB_NONE_acquireResource e memorymb core preferred co = Some (res, co')" "co_wf co"
    and "0 < sint core" "0 < memorymb div core" "memorymb div core < 2 ^ 31" "all_within co" "0 \<le> RoundRobinIndex co"
  shows "all_within co' \<and> (\<exists>n. int n \<le> sint core \<and> creates (uint (memorymb div core)) n co co' \<and>
    (int n < sint core \<longrightarrow> (\<forall>j. 0 \<le> j \<and> j < sint (SegmentIDCounter (co_pool co)) \<longrightarrow> full (uint (memorymb div core)) (co_pool co') j)))"
proof -
  let ?mem = "sint (memorymb div core)"
  have mem: "?mem = uint (memorymb div core)" "0 < ?mem" "?mem < 2 ^ 31"
    using assms(4,5) by (auto simp: word_less_def sint_uint signed_take_bit_int_eq_self)
  obtain contact co1 rest co2 m where 1: "allocatePreferred e ?mem (sint core) preferred 0 co = Some (contact, co1)"
    and 2: "allocateRoundRobin e ?mem (sint (SegmentIDCounter (co_pool co))) (nat (sint core - contact)) co1 = Some (rest, co2)"
    and 3: "co' = co2\<lparr>co_mgr := m\<rparr>"
    using assms(1,3) by (auto simp: RB_NONE_acquireResource_def Let_def bind_eq_Some_conv split: if_splits)
  have within: "all_within co1" "all_within co2"
    using ensuresD [OF allocatePreferred_within [OF mem(2,3) assms(6)] 1] ensuresD [OF allocateRoundRobin_within [OF mem(2,3)] 2] by auto
  obtain k where k: "contact = int k" "contact \<le> sint core" "creates ?mem k co co1"
    using ensuresD [OF allocatePreferred_creates [OF assms(2)] 1] assms(3) by (auto simp: allocates_def)
  note rr = ensuresD [OF allocateRoundRobin_creates [OF creates_wf [OF k(3)]] 2]
  have idx: "0 \<le> RoundRobinIndex co1"
    using ensuresD [OF allocatePreferred_index 1] assms(7) by simp
  note fl = ensuresD [OF allocateRoundRobin_full [OF idx] 2]
  let ?n = "k + (nat (sint core - contact) - rest)"
  have "creates ?mem ?n co co2" by (rule creates_add [OF k(3)]) (use rr in simp)
  then have "creates ?mem ?n co co'" unfolding 3 by (rule creates_mgr)
  moreover have "int ?n \<le> sint core" using k(1,2) by auto
  moreover have "int ?n < sint core \<longrightarrow> (\<forall>j. 0 \<le> j \<and> j < sint (SegmentIDCounter (co_pool co)) \<longrightarrow> full ?mem (co_pool co') j)"
    using fl k(1,2) unfolding 3 by (auto split: if_splits)
  moreover have "all_within co'" using within(2) unfolding 3 by (simp add: all_within_def)
  ultimately show ?thesis unfolding mem(1) by blast
qed

lemma ex_capacity: "all_within ex_co"
  by (simp add: all_within_def ex_co_def ex_pool_def ex_hostseg_def ex_seg_def createSegResource_def within_capacity_def)

theorem RB_NONE_within_capacity_witness:
  "\<exists>co'. ex_acquired = Some co' \<and> all_within co' \<and> (\<exists>n. int n \<le> 2 \<and> creates 1024 n ex_co co')"
proof -
  obtain r co' where ex: "RB_NONE_acquireResource (ex_env FUNC_RETURN_OK) 2048 2 [] ex_co = Some (r, co')" "ex_acquired = Some co'"
    using ex_pending by (auto simp: ex_acquired_def split: option.splits)
  have w: "(0 :: int) < sint (2 :: uint32)" "(0 :: uint32) < 2048 div 2" "(2048 :: uint32) div 2 < 2 ^ 31" "uint (2048 div 2 :: uint32) = 1024"
    "sint (2 :: uint32) = 2"
    by (simp_all add: word_less_def uint_div_distrib)
  have "0 \<le> RoundRobinIndex ex_co" by (simp add: ex_co_def)
  from RB_NONE_within_capacity [OF ex(1) ex_co_wf w(1-3) ex_capacity this] show ?thesis
    using ex(2) unfolding w(4,5) by blast
qed

section \<open>A rejected container is counted again\<close>

text \<open>C10: a container that its segment rejects waits to be accepted again, and its resource is added to the pending
  resource of the segment a second time, without having been subtracted: the pending resource grows with every
  attempt although the number of pending containers stays the same, and the broker finds less and less room.\<close>

theorem rejected_container_counted_again:
  assumes "cs_Containers ctns = [ctn]" "\<not> ResBrokerTriggerCleanup co" "gc_Life ctn + 1 < RESOURCE_CONTAINER_MAX_LIFETIME"
    and "gc_Resource ctn = Some a" "rp_heap (co_pool co) a = Some s"
  shows "\<exists>ctns' co'. processContainersAfterIncreaseMemoryQuota e ctns False co = Some (ctns', co') \<and>
    rp_heap (co_pool co') a = Some (s\<lparr>sr_IncPending := addResourceBundleData (sr_IncPending s) (gc_MemoryMB ctn) (of_int (gc_Core ctn))\<rparr>) \<and>
    AddPendingContainerCount (co_pool co') = AddPendingContainerCount (co_pool co)"
proof -
  obtain ctns' where pop: "popGRMContainerSetContainerList ctns = (Some ctn, ctns')" "cs_Containers ctns' = []"
    using assms(1) by (cases ctns rule: pop_cases) auto
  show ?thesis
    unfolding processContainersAfterIncreaseMemoryQuota_def retryAccept.simps [of e ctns co] pop(1)
    using assms by (simp add: addGRMContainerToToBeAccepted_def recognizeContainer_def retryAccept_nil [OF pop(2)])
qed

definition ex_ctn :: GRMContainer where
  "ex_ctn = createGRMContainer 0 1024 1 [97] (Some 1)"

theorem rejected_container_counted_again_witness:
  "\<exists>ctns' co'. processContainersAfterIncreaseMemoryQuota (ex_env FUNC_RETURN_OK) (appendGRMContainerSetContainer createGRMContainerSet ex_ctn) False ex_co = Some (ctns', co') \<and>
    rp_heap (co_pool co') 1 = Some (ex_hostseg\<lparr>sr_IncPending := addResourceBundleData (sr_IncPending ex_hostseg) 1024 1\<rparr>)"
  using rejected_container_counted_again [of "appendGRMContainerSetContainer createGRMContainerSet ex_ctn" ex_ctn ex_co 1 ex_hostseg "ex_env FUNC_RETURN_OK"]
  by (auto simp: appendGRMContainerSetContainer_def createGRMContainerSet_def ex_co_def RESOURCE_CONTAINER_MAX_LIFETIME_def ex_ctn_def
      createGRMContainer_def c_trunc_def ex_pool_def)

end
