(* ===== verification/Spec2Isabelle.thy ===== *)
theory Spec2Isabelle
  imports RM_DQueue RM_HashFunc_Props RM_Deadlock RM_BBST RM_SimpString RM_ConnTrack RM_Dispatch_Loop RM_Container_Main
begin

text \<open>
  A verification of the resource manager of HAWQ, the sources under \<^verbatim>\<open>src/src/backend/resourcemanager\<close>, and of the
  hash functions that its tables use.

  \<^bold>\<open>The program.\<close>  The resource manager hands out memory and cores of a cluster to queries.  A query registers a
  connection (\<^verbatim>\<open>conntrack.c\<close>), asks for a number of virtual segments in the resource queue of its user and waits
  there (\<^verbatim>\<open>resqueuemanager.c\<close>).  Queues that use memory and cores in the same proportion form a memory/core ratio.
  What the cluster provides for a ratio is divided among its queues, each queue serves its waiting queries from its
  share, and the virtual segments of a query are placed on the hosts of the cluster by the resource pool
  (\<^verbatim>\<open>resourcepool.c\<close>).  The query is told where its virtual segments are in a response message, and returns them
  when it is done.  The resource itself comes in containers: a resource broker acquires them, the segments are asked
  by messages to accept them (\<^verbatim>\<open>rmcomm_RM2RMSEG.c\<close>), and what is idle is kicked and given back.  A session may run several queries, so that the queries of a queue may wait for each other; a
  detector (\<^verbatim>\<open>resqueuedeadlock.c\<close>) keeps the books needed to find that.  All this is built on the containers of
  \<^verbatim>\<open>utils/\<close>: linked lists, hash tables, balanced trees, buffers and strings.

  \<^bold>\<open>Conventions.\<close>  Theory \<open>RM_Prelude\<close> has the types.  A structure is a record whose fields keep their names, with a
  prefix where structures share one.  A pointer is an address, \<^term>\<open>None\<close> for \<^verbatim>\<open>NULL\<close>; objects that are updated through
  several pointers live in a heap, a map from addresses to records.  An operation that may access a bad pointer,
  leave a block of memory, divide by zero or fail to end returns an option, and \<^term>\<open>None\<close> stands for that.  Unsigned
  integers are words; signed ones are integers, because their overflow is undefined in C, with the conversions between
  the two written out; \<^verbatim>\<open>double\<close> is the exact rational, with the infinities where a division needs them.  Return codes
  are values of \<open>drm_code\<close>.  What an operation ensures when it returns is stated with \<open>ensures\<close>, whose rules are the
  collection \<open>wp\<close>.  Assertions and logging are left out, since they change nothing.

  \<^bold>\<open>The theories.\<close>
  \<^item> \<open>RM_DQueue\<close>: \<^verbatim>\<open>utils/linkedlist.c\<close>, on a heap of nodes with the cache of free nodes.  Every operation implements
    the operation on the list of data and accesses no bad pointer; moving nodes between queues, emptying and
    cleaning; \<^verbatim>\<open>moveDQueueNodeIn\<close> leaves a broken back link.  The locales \<open>fifo_queue\<close> and \<open>deque\<close> are the interface.
  \<^item> \<open>RM_HashFunc\<close>, \<open>RM_HashFunc_Props\<close>: \<^verbatim>\<open>access/hash/hashfunc.c\<close> and \<^verbatim>\<open>string_hash\<close>.  The read paths agree and the
    bytes that are read behind a key do not matter; word and byte versions agree; \<^verbatim>\<open>mix\<close> is reversible.
  \<^item> \<open>RM_HashTable\<close>: \<^verbatim>\<open>utils/hashtable.c\<close>, a finite map for each of the four key types.  The locales \<open>key_functions\<close>
    and \<open>keyed_store\<close> are the interface of the tables to the theories above.
  \<^item> \<open>RM_BBST\<close>: \<^verbatim>\<open>utils/balancedbst.c\<close>.  Insertion, removal, traversal and clearing keep the sorted sequence, the
    counts and the index; reordering an inner node corrupts the counts.
  \<^item> \<open>RM_SMBuffer\<close>, \<open>RM_SimpString\<close>: \<^verbatim>\<open>utils/memutilities.c\<close> and \<^verbatim>\<open>utils/simplestring.c\<close>.  The buffer refines a sequence
    of bytes (locale \<open>byte_sink\<close>) and stays inside its block, unless the cursor was moved behind it; strings and
    numbers survive serialization and printing.
  \<^item> \<open>RM_Deadlock\<close>: \<^verbatim>\<open>resqueuedeadlock.c\<close>.  The operations refine updates of a map of sessions, and in every state
    that the protocol reaches (an inductive step relation) the totals are the sums over the sessions.
  \<^item> \<open>RM_WaterMark\<close>, \<open>RM_Ratio\<close>: the water marks of a ratio are the maximum of a sliding window; bundles of memory
    and cores, the table of ratios and their counters.
  \<^item> \<open>RM_ConnTrack\<close>: \<^verbatim>\<open>conntrack.c\<close>.  In every reachable state the connection ids are partitioned into free and used
    ones; the progress of a connection follows its diagram; the request loop hands every request over once, in order.
  \<^item> \<open>RM_Pool\<close>, \<open>RM_Pool_Props\<close>, \<open>RM_Pool_Main\<close>, \<open>RM_Pool_Hosts\<close>: \<^verbatim>\<open>resourcepool.c\<close>.  An allocation ends, its counters
    account exactly for what every segment lost, it keeps the pool well formed, and the return undoes it; what host
    names lead to does not change although allocations fill the cache of names; two situations in which
    the allocation goes wrong.
  \<^item> \<open>RM_Queue\<close>, \<open>RM_Queue_Props\<close>: \<^verbatim>\<open>resqueuemanager.c\<close>, on the state \<open>RMState\<close> that joins connections, queues, pool,
    ratios and sessions.  The bounds of an accepted request, the fairness of the round robin, and the search for
    deadlocks that does not end.
  \<^item> \<open>RM_Response\<close>, \<open>RM_Dispatch_Props\<close>, \<open>RM_Dispatch_Query\<close>, \<open>RM_Dispatch_Loop\<close>: the dispatch, from the division of
    a ratio among its queues over the queries of a queue down to one query, its allocation, its books and its
    response.  These are the properties that span components.

  \<^item> \<open>RM_Container\<close>, \<open>RM_Container_Props\<close>, \<open>RM_Container_Cycle\<close>, \<open>RM_Container_Main\<close>: the life of a container through
    \<^verbatim>\<open>resourcepool.c\<close>, \<^verbatim>\<open>rmcomm_RM2RMSEG.c\<close>, \<^verbatim>\<open>resourcebroker_NONE.c\<close> and the clean-up of \<^verbatim>\<open>resourcemanager.c\<close>, on the
    state \<open>ContainerState\<close> that joins the pool, the queue manager, the messages under way and the broker.  Every
    operation is a step of the inductive relation \<open>co_step\<close>, with the queries of \<open>RM_Queue\<close> between them; in every run no
    container is lost or in two places and the pending counters are exact.  The steps that the
    relation leaves out, a failed connection and the clean-up of waiting containers, are shown to break this for
    every continuation.  The broker stays within the capacity of the segments and leaves no room unused.

  \<^bold>\<open>Loops.\<close>  Loops over a structure are recursive on it; other loops have a termination proof (the allocation by
  workload, the troubled queues) or are partial functions of which the theorems show that they return (the round
  robin, the traversals of linked lists) or that they do not (the search for deadlocks).  No fuel is used where the
  code has no bound, except for the tokens of a string, whose number is bounded by its length.

  \<^bold>\<open>Parameters.\<close>  What the operating system and the configuration provide is a parameter: the resolver of host names
  (with no assumption on it), the clock, whether a connection to a segment
  succeeds, the bytes of a \<^verbatim>\<open>double\<close> in a message, the configuration variables, and
  the handlers of the request loop.  An ordered index of the pool is represented by its in-order sequence,
  which \<open>RM_BBST\<close> justifies for a tree whose data are not changed while they are in it.

  \<^bold>\<open>Not modelled.\<close>  The definition of queues and users by attributes; the registration of segments and the catalog
  of segments; reports and dumps, which only format text; the timeouts of queries; the request handlers, the
  communication over sockets, the resource broker for YARN, the checks of \<^verbatim>\<open>validateResourcePoolStatus\<close>, the resource enforcer, the main loops and the configuration files,
  which are input and output around the modelled parts; and the rest of HAWQ, the database server itself.
\<close>

end
